(* ===== verification/Rloop_Prelude.thy ===== *)
theory Rloop_Prelude
  imports Main "HOL-Library.Multiset" "HOL-Library.Word"
begin

text \<open>
  Shared vocabulary of the development: the outcome of a Rust function that may panic, the
  machine integers of the crate, the byte strings it moves, and the generic lemmas on lists the
  components share.

  The crate's release profile sets \<^verbatim>\<open>panic = "abort"\<close> (\<^verbatim>\<open>Cargo.toml\<close>), so a panic
  ends the process: an operation of the model returns \<open>Ret\<close> of its result, or \<open>Panic\<close>
  of the reason, and nothing runs after a \<open>Panic\<close>. \<open>Blocked\<close> is the outcome of a call that does not
  return: a poll without limit that nothing wakes, or a mutex locked again by the thread that holds
  it (which \<^verbatim>\<open>std\<close> lets deadlock or panic). The release profile leaves overflow checks
  off, so \<^verbatim>\<open>usize\<close> arithmetic wraps modulo \<open>2 ^ 64\<close>; it is written out on \<open>nat\<close>.
\<close>

section \<open>Collections\<close>

text \<open>The definitions of the I/O registry's state predicates, unfolded together where a proof
compares the table of handles with what the poller has been told.\<close>

named_theorems registry_defs

section \<open>Outcomes\<close>

datatype panic = Unreachable | UnwrapNone | UnwrapErr | AlreadyBorrowed

datatype 'a outcome = Ret 'a | Panic panic | Blocked

fun and_then :: "'a outcome \<Rightarrow> ('a \<Rightarrow> 'b outcome) \<Rightarrow> 'b outcome" where
  "and_then (Ret a) k = k a"
| "and_then (Panic p) k = Panic p"
| "and_then Blocked k = Blocked"

lemma and_then_eq_Ret_iff:
  "and_then m k = Ret b \<longleftrightarrow> (\<exists>a. m = Ret a \<and> k a = Ret b)"
  by (cases m) auto

lemma and_then_assoc: "and_then (and_then m k) h = and_then m (\<lambda>a. and_then (k a) h)"
  by (cases m) auto

lemma and_then_cong [fundef_cong]:
  "m = m' \<Longrightarrow> (\<And>a. m' = Ret a \<Longrightarrow> k a = k' a) \<Longrightarrow> and_then m k = and_then m' k'"
  by (cases m') auto

text \<open>\<open>Option::unwrap\<close>.\<close>

definition unwrap :: "'a option \<Rightarrow> 'a outcome" where
  "unwrap x = (case x of None \<Rightarrow> Panic UnwrapNone | Some a \<Rightarrow> Ret a)"

lemma unwrap_simps [simp]:
  "unwrap None = Panic UnwrapNone"
  "unwrap (Some a) = Ret a"
  by (simp_all add: unwrap_def)

section \<open>Machine integers and bytes\<close>

type_synonym byte = "8 word"
type_synonym bytes = "byte list"

text \<open>File descriptors and mio tokens: the source casts between them freely (\<open>Token(fd)\<close>).\<close>
type_synonym fd = nat

definition usize_max1 :: nat where
  "usize_max1 = 2 ^ 64"

definition usize_add :: "nat \<Rightarrow> nat \<Rightarrow> nat" where
  "usize_add a b = (a + b) mod usize_max1"

definition usize_sub :: "nat \<Rightarrow> nat \<Rightarrow> nat" where
  "usize_sub a b = (a + usize_max1 - b) mod usize_max1"

definition usize_mul :: "nat \<Rightarrow> nat \<Rightarrow> nat" where
  "usize_mul a b = (a * b) mod usize_max1"

lemma usize_max1_pos [simp]: "0 < usize_max1"
  by (simp add: usize_max1_def)

lemma usize_add_fits [simp]: "a + b < usize_max1 \<Longrightarrow> usize_add a b = a + b"
  by (simp add: usize_add_def)

lemma usize_sub_fits [simp]: "b \<le> a \<Longrightarrow> a < usize_max1 \<Longrightarrow> usize_sub a b = a - b"
  by (simp add: usize_sub_def) (metis Nat.add_diff_assoc2 less_imp_diff_less mod_add_self2 mod_less)

lemma usize_add_bound [simp]: "usize_add a b < usize_max1"
  by (simp add: usize_add_def)

lemma usize_sub_bound [simp]: "usize_sub a b < usize_max1"
  by (simp add: usize_sub_def)

lemma usize_mul_bound [simp]: "usize_mul a b < usize_max1"
  by (simp add: usize_mul_def)

lemma usize_add_sub_inverse:
  "a < usize_max1 \<Longrightarrow> b < usize_max1 \<Longrightarrow> usize_sub (usize_add a b) b = a"
proof (cases "a + b < usize_max1")
  case False
  assume "a < usize_max1" "b < usize_max1"
  with False have "usize_add a b = a + b - usize_max1"
    by (simp add: usize_add_def mod_if)
  with False \<open>a < usize_max1\<close> \<open>b < usize_max1\<close> show ?thesis
    by (simp add: usize_sub_def)
qed simp

section \<open>Lists\<close>

text \<open>The number of bytes in a buffer of chunks.\<close>

definition buf_len :: "'a list list \<Rightarrow> nat" where
  "buf_len bs = length (concat bs)"

lemma buf_len_simps [simp]:
  "buf_len [] = 0"
  "buf_len (b # bs) = length b + buf_len bs"
  "buf_len (bs @ cs) = buf_len bs + buf_len cs"
  by (simp_all add: buf_len_def)

text \<open>Exchanging two entries of a list keeps its elements.\<close>

definition swap :: "'a list \<Rightarrow> nat \<Rightarrow> nat \<Rightarrow> 'a list" where
  "swap xs i j = xs[i := xs ! j, j := xs ! i]"

lemma length_swap [simp]: "length (swap xs i j) = length xs"
  by (simp add: swap_def)

lemma mset_swap_in [simp]: "i < length xs \<Longrightarrow> j < length xs \<Longrightarrow> mset (swap xs i j) = mset xs"
  by (simp add: swap_def mset_swap)

lemma nth_swap:
  "i < length xs \<Longrightarrow> j < length xs \<Longrightarrow> k < length xs \<Longrightarrow>
    swap xs i j ! k = (if k = j then xs ! i else if k = i then xs ! j else xs ! k)"
  by (simp add: swap_def nth_list_update)

section \<open>Partial correctness\<close>

text \<open>
  What an operation establishes if it returns. The rules of \<open>wp\<close> follow the structure of an
  operation from its end to its beginning; the components add a rule for each operation.
\<close>

named_theorems wp

definition holds :: "('a \<Rightarrow> bool) \<Rightarrow> 'a outcome \<Rightarrow> bool" where
  "holds P m = (\<forall>a. m = Ret a \<longrightarrow> P a)"

lemma holdsD: "holds P m \<Longrightarrow> m = Ret a \<Longrightarrow> P a"
  by (simp add: holds_def)

lemma holds_mono: "holds P m \<Longrightarrow> (\<And>a. P a \<Longrightarrow> Q a) \<Longrightarrow> holds Q m"
  by (simp add: holds_def)

lemma holds_Ret [wp]: "P a \<Longrightarrow> holds P (Ret a)"
  by (simp add: holds_def)

lemma holds_Panic [wp]: "holds P (Panic p)"
  by (simp add: holds_def)

lemma holds_Blocked [wp]: "holds P Blocked"
  by (simp add: holds_def)

lemma holds_bind [wp]: "holds (\<lambda>a. holds P (k a)) m \<Longrightarrow> holds P (and_then m k)"
  by (auto simp: holds_def and_then_eq_Ret_iff)

lemma holds_unwrap [wp]: "(\<And>a. x = Some a \<Longrightarrow> P a) \<Longrightarrow> holds P (unwrap x)"
  by (cases x) (simp_all add: holds_def)

lemma holds_if [wp]: "(b \<Longrightarrow> holds P x) \<Longrightarrow> (\<not> b \<Longrightarrow> holds P y) \<Longrightarrow> holds P (if b then x else y)"
  by simp

lemma holds_option [wp]:
  "(x = None \<Longrightarrow> holds P m) \<Longrightarrow> (\<And>a. x = Some a \<Longrightarrow> holds P (k a)) \<Longrightarrow>
     holds P (case x of None \<Rightarrow> m | Some a \<Rightarrow> k a)"
  by (cases x) simp_all

lemma holds_bool [wp]:
  "(b \<Longrightarrow> holds P x) \<Longrightarrow> (\<not> b \<Longrightarrow> holds P y) \<Longrightarrow> holds P (case b of True \<Rightarrow> x | False \<Rightarrow> y)"
  by (cases b) simp_all

lemma holds_sum [wp]:
  "(\<And>a. x = Inl a \<Longrightarrow> holds P (f a)) \<Longrightarrow> (\<And>b. x = Inr b \<Longrightarrow> holds P (g b)) \<Longrightarrow>
     holds P (case x of Inl a \<Rightarrow> f a | Inr b \<Rightarrow> g b)"
  by (cases x) simp_all

lemma holds_prod: "(\<And>a b. x = (a, b) \<Longrightarrow> holds P (k a b)) \<Longrightarrow> holds P (case x of (a, b) \<Rightarrow> k a b)"
  by (cases x) simp

section \<open>Step relations\<close>

text \<open>
  The interface of a step relation to the properties of its runs: an invariant that every step
  keeps, under an assumption on the code outside, holds all along a run.
\<close>

locale step_system =
  fixes step :: "'s \<Rightarrow> 's \<Rightarrow> bool" and inv :: "'s \<Rightarrow> bool" and env_ok :: bool
  assumes inv_step: "step s t \<Longrightarrow> env_ok \<Longrightarrow> inv s \<Longrightarrow> inv t"
begin

lemma run_inv: "step\<^sup>*\<^sup>* s t \<Longrightarrow> inv s \<Longrightarrow> env_ok \<Longrightarrow> inv t"
  by (induction rule: rtranclp_induct) (auto intro: inv_step)

text \<open>A property that only grows along steps from states with the invariant grows along runs.\<close>

lemma run_mono:
  assumes "step\<^sup>*\<^sup>* s t" "inv s" env_ok
    and "\<And>u v. inv u \<Longrightarrow> step u v \<Longrightarrow> m u \<subseteq> m v"
  shows "m s \<subseteq> m t"
  using assms(1)
proof (induction rule: rtranclp_induct)
  case (step y z)
  then show ?case using assms(4) [OF run_inv [OF step(1) assms(2,3)] step(2)] by blast
qed simp

end

end
