(* ===== verification/Timer_Heap.thy ===== *)
theory Timer_Heap
  imports Rloop_Prelude
begin

text \<open>
  The timer queues of the two loops: \<^verbatim>\<open>Timer\<close> of \<^verbatim>\<open>time.rs\<close> and \<^verbatim>\<open>TokioTimer\<close> of
  \<^verbatim>\<open>tokio_event_loop.rs\<close>, each with its reversed ordering, kept in a \<^verbatim>\<open>BinaryHeap\<close>.
  The standard library's heap is modelled as it works, an array with \<^verbatim>\<open>sift_up\<close> and
  \<^verbatim>\<open>sift_down_to_bottom\<close>, because the order in which timers with the same deadline come
  out depends on it. The loops that drain the expired timers are at the end.
\<close>

section \<open>Timers and their order\<close>

datatype ordering = Less | Equal | Greater

record 'h Timer =
  t_handle :: 'h
  t_when :: nat

text \<open>\<^verbatim>\<open>Ord for Timer\<close>: reversed, so that the greatest timer is the earliest.\<close>

definition Timer_cmp :: "'h Timer \<Rightarrow> 'h Timer \<Rightarrow> ordering" where
  "Timer_cmp self other =
     (if t_when self < t_when other then Greater
      else if t_when self > t_when other then Less
      else Equal)"

text \<open>\<^verbatim>\<open>Ord for TokioTimer\<close>: \<^verbatim>\<open>other.when.cmp(&self.when)\<close>.\<close>

definition nat_cmp :: "nat \<Rightarrow> nat \<Rightarrow> ordering" where
  "nat_cmp a b = (if a < b then Less else if a = b then Equal else Greater)"

definition TokioTimer_cmp :: "'h Timer \<Rightarrow> 'h Timer \<Rightarrow> ordering" where
  "TokioTimer_cmp self other = nat_cmp (t_when other) (t_when self)"

text \<open>\<^verbatim>\<open>PartialEq\<close> and \<^verbatim>\<open>PartialOrd\<close> of the two: the first says that no timer equals any other.\<close>

definition Timer_eq :: "'h Timer \<Rightarrow> 'h Timer \<Rightarrow> bool" where
  "Timer_eq self other = False"

definition TokioTimer_eq :: "'h Timer \<Rightarrow> 'h Timer \<Rightarrow> bool" where
  "TokioTimer_eq self other = (t_when self = t_when other)"

definition Timer_partial_cmp :: "'h Timer \<Rightarrow> 'h Timer \<Rightarrow> ordering option" where
  "Timer_partial_cmp self other = Some (Timer_cmp self other)"

definition TokioTimer_partial_cmp :: "'h Timer \<Rightarrow> 'h Timer \<Rightarrow> ordering option" where
  "TokioTimer_partial_cmp self other = Some (TokioTimer_cmp self other)"

text \<open>The default \<^verbatim>\<open>PartialOrd::le\<close> as the heap calls it, from \<^verbatim>\<open>partial_cmp\<close> alone.\<close>

definition ord_le :: "ordering option \<Rightarrow> bool" where
  "ord_le c = (case c of Some Less \<Rightarrow> True | Some Equal \<Rightarrow> True | _ \<Rightarrow> False)"

definition Timer_le :: "'h Timer \<Rightarrow> 'h Timer \<Rightarrow> bool" where
  "Timer_le a b = ord_le (Timer_partial_cmp a b)"

definition TokioTimer_le :: "'h Timer \<Rightarrow> 'h Timer \<Rightarrow> bool" where
  "TokioTimer_le a b = ord_le (TokioTimer_partial_cmp a b)"

lemma Timer_le_iff: "Timer_le a b \<longleftrightarrow> t_when b \<le> t_when a"
  by (auto simp: Timer_le_def Timer_partial_cmp_def Timer_cmp_def ord_le_def)

lemma TokioTimer_le_iff: "TokioTimer_le a b \<longleftrightarrow> t_when b \<le> t_when a"
  by (auto simp: TokioTimer_le_def TokioTimer_partial_cmp_def TokioTimer_cmp_def nat_cmp_def ord_le_def)

text \<open>
  The two orders agree, and the equality of \<^verbatim>\<open>TokioTimer\<close> is the one its order has. The equality
  of \<^verbatim>\<open>Timer\<close> is not reflexive although the type implements \<^verbatim>\<open>Eq\<close>, and differs from its order at
  equal deadlines; the heap compares with \<open>ord_le\<close> only, so this is not observed there.
\<close>

lemma timer_orders:
  "Timer_cmp a b = TokioTimer_cmp a b"
  "TokioTimer_eq a b \<longleftrightarrow> TokioTimer_cmp a b = Equal"
  "\<not> Timer_eq a a" "Timer_cmp a a = Equal"
  by (auto simp: Timer_cmp_def TokioTimer_cmp_def nat_cmp_def TokioTimer_eq_def Timer_eq_def)

section \<open>The binary heap of the standard library\<close>

definition parent :: "nat \<Rightarrow> nat" where
  "parent i = (i - 1) div 2"

lemma parent_less [simp, termination_simp]: "0 < i \<Longrightarrow> parent i < i"
  by (auto simp: parent_def)

lemma parent_less_trans [simp]: "i < n \<Longrightarrow> parent i < n"
  by (auto simp: parent_def)

lemma parent_kids: "0 < d \<Longrightarrow> parent d = p \<longleftrightarrow> d = 2 * p + 1 \<or> d = 2 * p + 2"
  by (auto simp: parent_def)

text \<open>
  \<^verbatim>\<open>sift_up(0, pos)\<close>: the element at \<open>pos\<close> moves up while it is greater than its parent.
  The library moves a hole; exchanging the two entries gives the same array.
\<close>

fun sift_up :: "('a \<Rightarrow> 'a \<Rightarrow> bool) \<Rightarrow> 'a list \<Rightarrow> nat \<Rightarrow> 'a list" where
  "sift_up le xs pos =
     (if pos = 0 then xs
      else if le (xs ! pos) (xs ! parent pos) then xs
      else sift_up le (swap xs pos (parent pos)) (parent pos))"

declare sift_up.simps [simp del]

text \<open>
  The first phase of \<^verbatim>\<open>sift_down_to_bottom\<close>: the hole goes down to a leaf, each time to the
  greater child (the right one on a tie), and the element is not looked at on the way.
\<close>

function sift_down :: "('a \<Rightarrow> 'a \<Rightarrow> bool) \<Rightarrow> 'a list \<Rightarrow> nat \<Rightarrow> 'a list \<times> nat" where
  "sift_down le xs pos =
     (let child = 2 * pos + 1 in
      if child + 1 < length xs then
        (let c = (if le (xs ! child) (xs ! (child + 1)) then child + 1 else child)
         in sift_down le (swap xs pos c) c)
      else if child + 1 = length xs then (swap xs pos child, child)
      else (xs, pos))"
  by pat_completeness auto
termination
  by (relation "measure (\<lambda>(le, xs, pos). length xs - pos)") (auto simp: Let_def split: if_splits)

declare sift_down.simps [simp del]

definition heap_push :: "('a \<Rightarrow> 'a \<Rightarrow> bool) \<Rightarrow> 'a list \<Rightarrow> 'a \<Rightarrow> 'a list" where
  "heap_push le xs x = sift_up le (xs @ [x]) (length xs)"

definition heap_peek :: "'a list \<Rightarrow> 'a option" where
  "heap_peek xs = (case xs of [] \<Rightarrow> None | x # _ \<Rightarrow> Some x)"

definition heap_pop :: "('a \<Rightarrow> 'a \<Rightarrow> bool) \<Rightarrow> 'a list \<Rightarrow> ('a \<times> 'a list) option" where
  "heap_pop le xs =
     (if xs = [] then None
      else if butlast xs = [] then Some (last xs, [])
      else (let ys = (butlast xs)[0 := last xs]; (zs, pos) = sift_down le ys 0
            in Some (hd xs, sift_up le zs pos)))"

text \<open>The heap order: no entry is greater than its parent.\<close>

definition heap_inv :: "('a \<Rightarrow> 'a \<Rightarrow> bool) \<Rightarrow> 'a list \<Rightarrow> bool" where
  "heap_inv le xs = (\<forall>i < length xs. 0 < i \<longrightarrow> le (xs ! i) (xs ! parent i))"

text \<open>
  What the two phases keep. In \<open>up_inv\<close> only the entry at \<open>pos\<close> may be greater than its
  parent; in \<open>down_inv\<close> the entry at \<open>pos\<close> may also be less than its children. Either way the
  children of \<open>pos\<close> are not greater than the parent of \<open>pos\<close>.
\<close>

definition bridged :: "('a \<Rightarrow> 'a \<Rightarrow> bool) \<Rightarrow> 'a list \<Rightarrow> nat \<Rightarrow> bool" where
  "bridged le xs pos =
     (0 < pos \<longrightarrow> (\<forall>c < length xs. 0 < c \<and> parent c = pos \<longrightarrow> le (xs ! c) (xs ! parent pos)))"

definition up_inv :: "('a \<Rightarrow> 'a \<Rightarrow> bool) \<Rightarrow> 'a list \<Rightarrow> nat \<Rightarrow> bool" where
  "up_inv le xs pos =
     ((\<forall>i < length xs. 0 < i \<and> i \<noteq> pos \<longrightarrow> le (xs ! i) (xs ! parent i)) \<and> bridged le xs pos)"

definition down_inv :: "('a \<Rightarrow> 'a \<Rightarrow> bool) \<Rightarrow> 'a list \<Rightarrow> nat \<Rightarrow> bool" where
  "down_inv le xs pos =
     ((\<forall>i < length xs. 0 < i \<and> i \<noteq> pos \<and> parent i \<noteq> pos \<longrightarrow> le (xs ! i) (xs ! parent i))
      \<and> bridged le xs pos)"

lemma length_sift_up [simp]: "length (sift_up le xs pos) = length xs"
proof (induction le xs pos rule: sift_up.induct)
  case (1 le xs pos)
  then show ?case by (simp add: sift_up.simps [of le xs pos])
qed

lemma mset_sift_up: "pos < length xs \<Longrightarrow> mset (sift_up le xs pos) = mset xs"
proof (induction le xs pos rule: sift_up.induct)
  case (1 le xs pos)
  then show ?case by (auto simp: sift_up.simps [of le xs pos])
qed

lemma sift_down_mset:
  "sift_down le xs pos = (zs, p) \<Longrightarrow> pos < length xs \<Longrightarrow>
    mset zs = mset xs \<and> p < length zs \<and> length zs = length xs"
proof (induction le xs pos arbitrary: zs p rule: sift_down.induct)
  case (1 le xs pos)
  define child where "child = 2 * pos + 1"
  define c where "c = (if le (xs ! child) (xs ! (child + 1)) then child + 1 else child)"
  have eq: "sift_down le xs pos =
      (if child + 1 < length xs then sift_down le (swap xs pos c) c
       else if child + 1 = length xs then (swap xs pos child, child) else (xs, pos))"
    by (simp add: sift_down.simps [of le xs pos] Let_def child_def c_def)
  show ?case
  proof (cases "child + 1 < length xs")
    case True
    then have "c < length xs" by (simp add: c_def)
    with "1.IH" [OF child_def True c_def, of zs p] "1.prems" True eq show ?thesis
      by simp
  next
    case False
    with "1.prems" eq show ?thesis by (auto split: if_splits)
  qed
qed

lemma heap_pop_length:
  assumes "heap_pop le xs = Some (x, ys)"
  shows "length xs = Suc (length ys)"
proof (cases "butlast xs = []")
  case True
  with assms show ?thesis by (cases xs) (auto simp: heap_pop_def split: if_splits)
next
  case False
  obtain zs p where sd: "sift_down le ((butlast xs)[0 := last xs]) 0 = (zs, p)" by fastforce
  have "length zs = length (butlast xs)"
    using sift_down_mset [OF sd] False by (metis length_greater_0_conv length_list_update)
  with assms False sd show ?thesis
    by (auto simp: heap_pop_def split: if_splits)
qed

lemma heap_pop_None [simp]: "heap_pop le xs = None \<longleftrightarrow> xs = []"
  by (auto simp: heap_pop_def Let_def split: prod.splits)

lemma heap_pop_Nil [simp]: "heap_pop le [] = None"
  by simp

lemma heap_peek_None [simp]: "heap_peek xs = None \<longleftrightarrow> xs = []"
  by (auto simp: heap_peek_def split: list.splits)

text \<open>
  Taking the greatest entries off while they satisfy \<open>P\<close>: what both timer loops do.
\<close>

function pop_while :: "('a \<Rightarrow> 'a \<Rightarrow> bool) \<Rightarrow> ('a \<Rightarrow> bool) \<Rightarrow> 'a list \<Rightarrow> 'a list \<times> 'a list" where
  "pop_while le P xs =
     (case heap_pop le xs of
        None \<Rightarrow> ([], xs)
      | Some (x, ys) \<Rightarrow>
          if P x then (let (ds, rest) = pop_while le P ys in (x # ds, rest)) else ([], xs))"
  by pat_completeness auto
termination
  by (relation "measure (\<lambda>(le, P, xs). length xs)") (auto dest: heap_pop_length)

declare pop_while.simps [simp del]

section \<open>The heap over a total preorder\<close>

locale heap_order =
  fixes le :: "'a \<Rightarrow> 'a \<Rightarrow> bool"
  assumes le_total: "le a b \<or> le b a"
    and le_trans: "le a b \<Longrightarrow> le b c \<Longrightarrow> le a c"
begin

lemma le_refl [simp]: "le a a"
  using le_total by blast

lemma up_inv_swap:
  assumes "up_inv le xs pos" "pos < length xs" "0 < pos" "\<not> le (xs ! pos) (xs ! parent pos)"
  shows "up_inv le (swap xs pos (parent pos)) (parent pos)"
proof -
  let ?p = "parent pos"
  have p: "?p < pos" "?p < length xs" using assms(2,3) by simp_all
  have up: "le (xs ! i) (xs ! parent i)" if "i < length xs" "0 < i" "i \<noteq> pos" for i
    using assms(1) that by (simp add: up_inv_def)
  have br: "le (xs ! c) (xs ! ?p)" if "c < length xs" "0 < c" "parent c = pos" for c
    using assms(1,3) that by (simp add: up_inv_def bridged_def)
  have gt: "le (xs ! ?p) (xs ! pos)" using assms(4) le_total by blast
  have "le (swap xs pos ?p ! i) (swap xs pos ?p ! parent i)"
    if i: "i < length xs" "0 < i" "i \<noteq> ?p" for i
  proof -
    have "parent i \<noteq> i" using parent_less [OF i(2)] by simp
    moreover have "le (xs ! i) (xs ! pos)" if "i \<noteq> pos" "parent i = ?p"
      using le_trans [OF up [OF i(1,2) that(1)]] gt that(2) by simp
    ultimately show ?thesis
      using i p gt up [of i] br [of i] assms(2) by (simp add: nth_swap)
  qed
  moreover have "le (swap xs pos ?p ! c) (swap xs pos ?p ! parent ?p)"
    if c: "0 < ?p" "c < length xs" "0 < c" "parent c = ?p" for c
  proof -
    have pp: "le (xs ! ?p) (xs ! parent ?p)" "parent ?p \<noteq> ?p" "parent ?p \<noteq> pos"
      using up [of ?p] p c(1) parent_less [OF c(1)] by auto
    have "c \<noteq> ?p" using c(4) parent_less [OF c(3)] by auto
    moreover have "le (xs ! c) (xs ! parent ?p)" if "c \<noteq> pos"
      using le_trans [OF up [OF c(2,3) that]] c(4) pp(1) by simp
    ultimately show ?thesis using pp c(2) p assms(2) by (simp add: nth_swap)
  qed
  ultimately show ?thesis by (simp add: up_inv_def bridged_def)
qed

lemma sift_up_heap:
  "up_inv le xs pos \<Longrightarrow> pos < length xs \<Longrightarrow> heap_inv le (sift_up le xs pos)"
proof (induction pos arbitrary: xs rule: less_induct)
  case (less pos)
  show ?case
  proof (cases "pos = 0 \<or> le (xs ! pos) (xs ! parent pos)")
    case True
    then show ?thesis
      using less.prems by (auto simp: sift_up.simps [of le xs pos] up_inv_def heap_inv_def)
  next
    case False
    then have "heap_inv le (sift_up le (swap xs pos (parent pos)) (parent pos))"
      using less.prems by (intro less.IH up_inv_swap) auto
    then show ?thesis using False by (simp add: sift_up.simps [of le xs pos])
  qed
qed

lemma down_inv_swap:
  assumes inv: "down_inv le xs pos" and c: "c < length xs" "0 < c" "parent c = pos"
    and best: "\<And>d. d < length xs \<Longrightarrow> 0 < d \<Longrightarrow> parent d = pos \<Longrightarrow> le (xs ! d) (xs ! c)"
  shows "down_inv le (swap xs pos c) c"
proof -
  have pos: "pos < c" "pos < length xs" using c parent_less by force+
  have old: "le (xs ! i) (xs ! parent i)"
    if "i < length xs" "0 < i" "i \<noteq> pos" "parent i \<noteq> pos" for i
    using inv that by (simp add: down_inv_def)
  have br: "le (xs ! d) (xs ! parent pos)"
    if "0 < pos" "d < length xs" "0 < d" "parent d = pos" for d
    using inv that by (simp add: down_inv_def bridged_def)
  have "le (swap xs pos c ! i) (swap xs pos c ! parent i)"
    if i: "i < length xs" "0 < i" "i \<noteq> c" "parent i \<noteq> c" for i
  proof -
    have "parent i \<noteq> i" using parent_less [OF i(2)] by simp
    then show ?thesis
      using i pos c old [of i] br [of c] best [of i] by (simp add: nth_swap)
  qed
  moreover have "le (swap xs pos c ! d) (swap xs pos c ! parent c)"
    if d: "d < length xs" "0 < d" "parent d = c" for d
  proof -
    have "c < d" using parent_less [OF d(2)] d(3) by simp
    then show ?thesis using d c pos old [of d] by (simp add: nth_swap)
  qed
  ultimately show ?thesis by (simp add: down_inv_def bridged_def)
qed

lemma sift_down_up_inv:
  "sift_down le xs pos = (zs, p) \<Longrightarrow> down_inv le xs pos \<Longrightarrow> pos < length xs \<Longrightarrow> up_inv le zs p"
proof (induction "length xs - pos" arbitrary: xs pos rule: less_induct)
  case less
  define child where "child = 2 * pos + 1"
  define c where "c = (if le (xs ! child) (xs ! (child + 1)) then child + 1 else child)"
  have eq: "sift_down le xs pos =
      (if child + 1 < length xs then sift_down le (swap xs pos c) c
       else if child + 1 = length xs then (swap xs pos child, child) else (xs, pos))"
    by (simp add: sift_down.simps [of le xs pos] Let_def child_def c_def)
  have kids: "d = child \<or> d = child + 1" if "0 < d" "parent d = pos" for d
    using that by (simp add: parent_kids child_def)
  have child: "parent child = pos" "parent (child + 1) = pos" "0 < child" "pos < child"
    by (simp_all add: parent_def child_def)
  consider "child + 1 < length xs" | "child + 1 = length xs" | "length xs < child + 1"
    by linarith
  then show ?case
  proof cases
    case 1
    have c: "c < length xs" "0 < c" "parent c = pos" "pos < c"
      using 1 child by (auto simp: c_def)
    have "le (xs ! d) (xs ! c)" if "0 < d" "parent d = pos" for d
      using kids [OF that] le_total [of "xs ! child" "xs ! (child + 1)"] by (auto simp: c_def)
    then have "down_inv le (swap xs pos c) c"
      using less.prems(2) c by (intro down_inv_swap) auto
    then show ?thesis
      using less.prems(1) eq 1 c by (intro less.hyps [of "swap xs pos c" c]) auto
  next
    case 2
    have "le (xs ! d) (xs ! child)" if "d < length xs" "0 < d" "parent d = pos" for d
      using kids [OF that(2,3)] that(1) 2 by auto
    then have "down_inv le (swap xs pos child) child"
      using less.prems(2) 2 child by (intro down_inv_swap) auto
    moreover have "parent i \<noteq> child" if "0 < i" "i < length xs" for i
      using that 2 by (auto simp: parent_def child_def)
    ultimately show ?thesis using less.prems(1) eq 2 by (auto simp: down_inv_def up_inv_def)
  next
    case 3
    then have "parent i \<noteq> pos" if "0 < i" "i < length xs" for i
      using kids [of i] that by auto
    with less.prems 3 eq show ?thesis by (auto simp: down_inv_def up_inv_def)
  qed
qed

lemma heap_push_inv: "heap_inv le xs \<Longrightarrow> heap_inv le (heap_push le xs x)"
  unfolding heap_push_def
  by (intro sift_up_heap)
    (auto simp: up_inv_def bridged_def heap_inv_def nth_append less_Suc_eq parent_kids)

lemma mset_heap_push: "mset (heap_push le xs x) = add_mset x (mset xs)"
  by (simp add: heap_push_def mset_sift_up)

lemma heap_head_greatest:
  assumes "heap_inv le xs"
  shows "i < length xs \<Longrightarrow> le (xs ! i) (xs ! 0)"
proof (induction i rule: less_induct)
  case (less i)
  show ?case
  proof (cases "i = 0")
    case False
    then have "le (xs ! i) (xs ! parent i)" "le (xs ! parent i) (xs ! 0)"
      using assms less by (auto simp: heap_inv_def)
    then show ?thesis by (rule le_trans)
  qed simp
qed

lemma heap_peek_greatest:
  "heap_inv le xs \<Longrightarrow> heap_peek xs = Some x \<Longrightarrow> y \<in> set xs \<Longrightarrow> le y x"
  using heap_head_greatest [of xs]
  by (auto simp: heap_peek_def in_set_conv_nth split: list.splits)

lemma heap_pop_cases:
  assumes "heap_pop le xs = Some (x, ys)"
  obtains "xs = [x]" "ys = []"
  | y ws zs p where "xs = x # ws @ [y]" "sift_down le ((x # ws)[0 := y]) 0 = (zs, p)"
      "ys = sift_up le zs p"
proof (cases "butlast xs = []")
  case True
  with assms that(1) show ?thesis by (cases xs) (auto simp: heap_pop_def split: if_splits)
next
  case False
  then obtain v ws where vw: "butlast xs = v # ws" by (cases "butlast xs") auto
  then have xs: "xs = v # ws @ [last xs]" by (metis append_butlast_last_id append_Cons butlast.simps(1) list.distinct(1))
  obtain zs p where sd: "sift_down le ((v # ws)[0 := last xs]) 0 = (zs, p)" by fastforce
  have "xs \<noteq> []" "hd xs = v" using vw xs by (auto, metis list.sel(1))
  then have "x = v \<and> ys = sift_up le zs p"
    using assms False sd unfolding heap_pop_def Let_def vw by simp
  then have "x = v" "ys = sift_up le zs p" by auto
  with xs sd that(2) show ?thesis by blast
qed

lemma heap_pop_sound:
  assumes inv: "heap_inv le xs" and pop: "heap_pop le xs = Some (x, ys)"
  shows "heap_inv le ys" "mset xs = add_mset x (mset ys)" "heap_peek xs = Some x"
proof -
  have "heap_inv le ys \<and> mset xs = add_mset x (mset ys) \<and> heap_peek xs = Some x"
    using pop
  proof (cases rule: heap_pop_cases)
    case 1
    then show ?thesis by (simp add: heap_inv_def heap_peek_def)
  next
    case (2 y ws zs p)
    let ?v = "(x # ws)[0 := y]"
    have "le (?v ! i) (?v ! parent i)" if "i < length ?v" "0 < i" "parent i \<noteq> 0" for i
    proof -
      have "le (xs ! i) (xs ! parent i)"
        using inv [unfolded heap_inv_def, rule_format, of i] that 2(1) by simp
      moreover have "i - 1 < length ws" "parent i - 1 < length ws" "0 < parent i"
        using that parent_less [OF that(2)] by auto
      ultimately show ?thesis using that 2(1) by (simp add: nth_append nth_Cons')
    qed
    then have down: "down_inv le ?v 0"
      by (auto simp: down_inv_def bridged_def)
    have "mset zs = mset ?v" "p < length zs"
      using sift_down_mset [OF 2(2)] by auto
    with sift_up_heap [OF sift_down_up_inv [OF 2(2) down]] 2 show ?thesis
      by (simp add: mset_sift_up heap_peek_def)
  qed
  then show "heap_inv le ys" "mset xs = add_mset x (mset ys)" "heap_peek xs = Some x" by auto
qed

text \<open>
  The entries taken come out in order, together with the rest they are the heap, the rest is a
  heap, and where the order respects \<open>P\<close> nothing that satisfies \<open>P\<close> is left.
\<close>

lemma pop_while_steps:
  assumes "heap_inv le xs" "pop_while le P xs = (ds, rest)"
  shows "mset xs = mset ds + mset rest \<and> heap_inv le rest \<and> sorted_wrt (\<lambda>a b. le b a) ds
      \<and> (\<forall>d \<in> set ds. P d) \<and> (\<forall>x. heap_peek rest = Some x \<longrightarrow> \<not> P x)"
  using assms
proof (induction "length xs" arbitrary: xs ds rest rule: less_induct)
  case less
  show ?case
  proof (cases "heap_pop le xs")
    case None
    with less.prems show ?thesis by (auto simp: pop_while.simps [of le P] heap_peek_def)
  next
    case (Some xy)
    obtain x ys where xy: "xy = (x, ys)" by fastforce
    note pop = heap_pop_sound [OF less.prems(1) Some [unfolded xy]]
    show ?thesis
    proof (cases "P x")
      case False
      with less.prems Some xy pop(3) show ?thesis by (auto simp: pop_while.simps [of le P xs])
    next
      case True
      obtain es where es: "pop_while le P ys = (es, rest)" "ds = x # es"
        using less.prems(2) Some xy True
        by (auto simp: pop_while.simps [of le P xs] split: prod.splits)
      have IH: "mset ys = mset es + mset rest \<and> heap_inv le rest \<and> sorted_wrt (\<lambda>a b. le b a) es
          \<and> (\<forall>d \<in> set es. P d) \<and> (\<forall>x. heap_peek rest = Some x \<longrightarrow> \<not> P x)"
        using heap_pop_length [of le xs x ys] Some xy pop(1) es(1) by (intro less.hyps) auto
      have "set es \<subseteq> set xs"
        using arg_cong [OF IH [THEN conjunct1], of set_mset] arg_cong [OF pop(2), of set_mset]
        by auto
      then have "\<forall>y \<in> set es. le y x"
        using heap_peek_greatest [OF less.prems(1) pop(3)] by blast
      with IH es(2) True pop(2) show ?thesis by simp
    qed
  qed
qed

lemma pop_while_sound:
  assumes "heap_inv le xs" "pop_while le P xs = (ds, rest)"
    and mono: "\<forall>a b. P b \<longrightarrow> le b a \<longrightarrow> P a"
  shows "mset xs = mset ds + mset rest" "heap_inv le rest" "sorted_wrt (\<lambda>a b. le b a) ds"
    "\<forall>d \<in> set ds. P d" "\<forall>r \<in> set rest. \<not> P r"
proof -
  note step = pop_while_steps [OF assms(1,2)]
  from step show "mset xs = mset ds + mset rest" "heap_inv le rest" "sorted_wrt (\<lambda>a b. le b a) ds"
    "\<forall>d \<in> set ds. P d" by auto
  show "\<forall>r \<in> set rest. \<not> P r"
  proof (cases rest)
    case (Cons x rest')
    then have peek: "heap_peek rest = Some x" by (simp add: heap_peek_def)
    then have "\<not> P x" using step by blast
    moreover have "le r x" if "r \<in> set rest" for r
      using heap_peek_greatest [OF _ peek that] step by blast
    ultimately show ?thesis using mono by blast
  qed simp
qed

end

interpretation th: heap_order Timer_le
  by unfold_locales (auto simp: Timer_le_iff)

interpretation tth: heap_order TokioTimer_le
  by unfold_locales (auto simp: TokioTimer_le_iff)

section \<open>Draining the expired timers\<close>

text \<open>
  The timer phase of \<^verbatim>\<open>EventLoop::step\<close>: one clock reading \<open>tick\<close>, then every timer not
  after it is popped and its handle appended to the batch.
\<close>

function drain_timers :: "nat \<Rightarrow> 'h Timer list \<Rightarrow> 'h list \<Rightarrow> ('h list \<times> 'h Timer list) outcome" where
  "drain_timers tick sched cb_handles =
     (case heap_peek sched of
        None \<Rightarrow> Ret (cb_handles, sched)
      | Some timer \<Rightarrow>
          if t_when timer > tick then Ret (cb_handles, sched)
          else (case heap_pop Timer_le sched of
                  None \<Rightarrow> Panic UnwrapNone
                | Some (t, sched') \<Rightarrow> drain_timers tick sched' (cb_handles @ [t_handle t])))"
  by pat_completeness auto
termination
  by (relation "measure (\<lambda>(tick, sched, cb). length sched)") (auto dest: heap_pop_length)

text \<open>
  The timer branch of the select in \<^verbatim>\<open>TEventLoop::_run\<close>, once the first timer has expired:
  the same loop, except that a cancelled handle is dropped here.
\<close>

function tokio_drain ::
  "('h \<Rightarrow> bool) \<Rightarrow> nat \<Rightarrow> 'h Timer list \<Rightarrow> 'h list \<Rightarrow> ('h list \<times> 'h Timer list) outcome" where
  "tokio_drain cancelled current_time delayed_tasks sent =
     (case heap_peek delayed_tasks of
        None \<Rightarrow> Ret (sent, delayed_tasks)
      | Some timer \<Rightarrow>
          if t_when timer \<le> current_time then
            (case heap_pop TokioTimer_le delayed_tasks of
               None \<Rightarrow> Panic UnwrapNone
             | Some (t, rest) \<Rightarrow>
                 tokio_drain cancelled current_time rest
                   (if cancelled (t_handle t) then sent else sent @ [t_handle t]))
          else Ret (sent, delayed_tasks))"
  by pat_completeness auto
termination
  by (relation "measure (\<lambda>(c, tick, sched, sent). length sched)") (auto dest: heap_pop_length)

declare drain_timers.simps [simp del] tokio_drain.simps [simp del]

lemma heap_pop_peek: "heap_pop le xs = Some (x, ys) \<Longrightarrow> heap_peek xs = Some x"
  by (cases xs) (auto simp: heap_pop_def heap_peek_def Let_def split: if_splits prod.splits)

text \<open>Both loops are \<open>pop_while\<close>, and never hit the \<^verbatim>\<open>unwrap\<close> of an empty pop.\<close>

lemma drain_timers_pop_while:
  "drain_timers tick sched cb =
     (let (ds, rest) = pop_while Timer_le (\<lambda>t. t_when t \<le> tick) sched
      in Ret (cb @ map t_handle ds, rest))"
proof (induction tick sched cb rule: drain_timers.induct)
  case (1 tick sched cb)
  show ?case
  proof (cases "heap_pop Timer_le sched")
    case None
    then show ?thesis
      by (simp add: drain_timers.simps [of tick] pop_while.simps [of _ _ "[]"] heap_peek_def)
  next
    case (Some ty)
    obtain t ys where ty: "ty = (t, ys)" by fastforce
    note peek = heap_pop_peek [OF Some [unfolded ty]]
    show ?thesis
      using 1 [OF peek _ Some ty [symmetric]] Some ty peek
      by (auto simp: drain_timers.simps [of tick sched] pop_while.simps [of _ _ sched]
          split: prod.splits)
  qed
qed

lemma tokio_drain_pop_while:
  "tokio_drain cancelled now sched sent =
     (let (ds, rest) = pop_while TokioTimer_le (\<lambda>t. t_when t \<le> now) sched
      in Ret (sent @ filter (\<lambda>h. \<not> cancelled h) (map t_handle ds), rest))"
proof (induction cancelled now sched sent rule: tokio_drain.induct)
  case (1 cancelled now sched sent)
  show ?case
  proof (cases "heap_pop TokioTimer_le sched")
    case None
    then show ?thesis
      by (simp add: tokio_drain.simps [of _ now] pop_while.simps [of _ _ "[]"] heap_peek_def)
  next
    case (Some ty)
    obtain t ys where ty: "ty = (t, ys)" by fastforce
    note peek = heap_pop_peek [OF Some [unfolded ty]]
    show ?thesis
      using 1 [OF peek _ Some ty [symmetric]] Some ty peek
      by (auto simp: tokio_drain.simps [of _ now sched] pop_while.simps [of _ _ sched]
          split: prod.splits)
  qed
qed

text \<open>
  C8. Draining a timer heap at time \<open>tick\<close> returns, in order of their deadlines and appended to
  the batch, exactly the timers that have expired; every timer left in the heap is later than
  \<open>tick\<close>, the heap order is kept, and no timer is lost or duplicated.
\<close>

theorem drain_timers_correct:
  assumes "heap_inv Timer_le sched"
  shows "\<exists>ds rest. drain_timers tick sched cb = Ret (cb @ map t_handle ds, rest)
           \<and> mset ds + mset rest = mset sched \<and> sorted (map t_when ds)
           \<and> (\<forall>t \<in> set ds. t_when t \<le> tick) \<and> (\<forall>t \<in> set rest. tick < t_when t)
           \<and> heap_inv Timer_le rest"
proof -
  obtain ds rest where pw: "pop_while Timer_le (\<lambda>t. t_when t \<le> tick) sched = (ds, rest)"
    by fastforce
  have mono: "\<forall>a b :: 'a Timer. t_when b \<le> tick \<longrightarrow> Timer_le b a \<longrightarrow> t_when a \<le> tick"
    by (simp add: Timer_le_iff)
  note snd = th.pop_while_sound [OF assms pw mono]
  have sort: "sorted (map t_when ds)" using snd(3) unfolding sorted_wrt_map Timer_le_iff .
  have eq: "drain_timers tick sched cb = Ret (cb @ map t_handle ds, rest)"
    by (simp add: drain_timers_pop_while pw)
  have late: "\<forall>t \<in> set rest. tick < t_when t" using snd(5) by (simp add: not_le)
  show ?thesis
    using eq snd(1) [symmetric] sort snd(4) late snd(2) by blast
qed

theorem drain_timers_correct_witness:
  "heap_inv Timer_le (heap_push Timer_le (heap_push Timer_le [] \<lparr>t_handle = ''b'', t_when = 9\<rparr>)
       \<lparr>t_handle = ''a'', t_when = 3\<rparr>)
   \<and> drain_timers 5 (heap_push Timer_le (heap_push Timer_le [] \<lparr>t_handle = ''b'', t_when = 9\<rparr>)
       \<lparr>t_handle = ''a'', t_when = 3\<rparr>) [] = Ret ([''a''], [\<lparr>t_handle = ''b'', t_when = 9\<rparr>])"
proof -
  let ?h = "heap_push Timer_le (heap_push Timer_le [] \<lparr>t_handle = ''b'', t_when = 9\<rparr>)
       \<lparr>t_handle = ''a'', t_when = 3 :: nat\<rparr>"
  have inv: "heap_inv Timer_le ?h"
    by (intro th.heap_push_inv) (simp add: heap_inv_def)
  have "drain_timers 5 ?h [] = Ret ([''a''], [\<lparr>t_handle = ''b'', t_when = 9\<rparr>])"
    by (simp add: heap_push_def sift_up.simps [of _ _ 0] sift_up.simps [of _ _ "Suc 0"] parent_def
        swap_def Timer_le_iff drain_timers.simps [of 5] heap_peek_def heap_pop_def
        sift_down.simps [of _ "[x]" 0 for x])
  with inv drain_timers_correct [OF inv, of 5 "[]"] show ?thesis by blast
qed

end
