(* ===== verification/Loop_State.thy ===== *)
theory Loop_State
  imports Timer_Heap
begin

text \<open>
  The state the mio-based loop works on: the \<^verbatim>\<open>EventLoop\<close> fields, the callback handles, the
  TCP and UDP transports, and the trace of what the code asks of the outside.

  Python objects the crate only passes around are opaque numbers. Objects of the crate's own
  classes (\<^verbatim>\<open>CBHandle\<close>, \<^verbatim>\<open>TCPTransport\<close>, \<^verbatim>\<open>UDPTransport\<close>) are shared between the loop and
  Python, so they live in stores indexed by object number: cancelling a handle that Python holds
  changes the one in the queue. What the crate does to code outside the repository (the mio
  poller, the kernel, the Python protocol) is recorded in \<open>trace\<close>; what that code answers is an
  argument of the operation that calls it.
\<close>

section \<open>Interests, handles and calls\<close>

type_synonym pyobj = nat

text \<open>\<^verbatim>\<open>mio::Interest\<close> is a set of these; \<^verbatim>\<open>|\<close> is union, \<^verbatim>\<open>remove\<close> is difference.\<close>

datatype readiness = READABLE | WRITABLE

type_synonym interest = "readiness set"

text \<open>
  The three handle classes of \<^verbatim>\<open>handles.rs\<close>: \<^verbatim>\<open>CBHandle\<close> (an argument tuple),
  \<^verbatim>\<open>CBHandleNoArgs\<close> and \<^verbatim>\<open>CBHandleOneArg\<close>.
\<close>

datatype cb_args = Args pyobj | NoArgs | OneArg pyobj

record CBHandle =
  callback :: pyobj
  cbargs :: cb_args
  cbcontext :: pyobj
  cbcancelled :: bool

text \<open>\<^verbatim>\<open>Box<dyn Handle + Send>\<close>: the implementors of the \<^verbatim>\<open>Handle\<close> trait.\<close>

datatype BoxedHandle =
    HCB nat
  | HTCPRead fd
  | HTCPWrite fd
  | HUDPRead fd
  | HUDPWrite fd
  | HNoOp

record TCPServerRef =
  sref_fd :: fd
  sref_sfamily :: int
  sref_proto_factory :: pyobj
  sref_ssl_config :: "nat option"

record PyHandleData =
  phd_interest :: interest
  phd_cbr :: "nat option"
  phd_cbw :: "nat option"

datatype IOHandle =
    IOPy PyHandleData
  | IOSignals
  | IOTCPListener TCPServerRef
  | IOTCPStream interest
  | IOUDPSocket interest

text \<open>Exceptions the crate raises towards Python, and the address of a datagram.\<close>

datatype pyerr =
    RuntimeError string
  | ValueError string
  | OSError string
  | NotImplementedError string
  | OverflowError
  | PyExc pyobj

type_synonym 'a pyresult = "pyerr + 'a"

type_synonym addr = "string \<times> nat"

text \<open>The context dictionaries of \<^verbatim>\<open>log.rs\<close>.\<close>

datatype LogExc =
    LogCBHandle pyobj nat
  | LogTransport pyobj string pyobj nat

text \<open>The calls into Python, and what they answer: a value with its truth value, or an error.\<close>

datatype pycall =
    RunCB pyobj cb_args pyobj
  | LogException pyobj LogExc pyobj
  | ProtoFactory pyobj
  | ConnectionMade pyobj nat
  | ConnectionLost pyobj "pyerr option"
  | DataReceived pyobj bytes
  | GetBuffer pyobj
  | BufferUpdated pyobj nat
  | EofReceived pyobj
  | PauseWriting pyobj
  | ResumeWriting pyobj
  | DatagramReceived pyobj bytes addr
  | ErrorReceived pyobj pyerr

datatype pyres = PyOk pyobj bool | PyErr pyobj

text \<open>
  The calls on the mio registry. In the trace, \<open>Poll\<close> is a request whose answer the code drops or that
  succeeded, \<open>PollRefused\<close> one whose error the code has seen, \<open>PollWait\<close> a poll with its timeout in
  microseconds.
\<close>

datatype poll_call =
    Register fd interest
  | Reregister fd interest
  | Deregister fd

datatype effect =
    Poll poll_call
  | PollRefused poll_call
  | PollWait "nat option"
  | Wake
  | Py pycall
  | Sent fd bytes
  | SentTo fd bytes addr
  | ShutdownWrite fd
  | FillBuffer pyobj bytes

section \<open>Transports\<close>

text \<open>
  \<^verbatim>\<open>TCPTransportState\<close>; the type variable stands for \<^verbatim>\<open>rustls::Connection\<close>. Instants are in
  milliseconds.
\<close>

record 'c TCPTransportState =
  tls_conn :: "'c option"
  handshake_complete :: bool
  connection_made_called :: bool
  write_buf :: "bytes list"
  write_buf_dsize :: nat
  tls_close_sent :: bool
  tls_close_received :: bool
  tls_close_sent_time :: "nat option"
  tls_pending_close :: bool
  ssl_close_timeout :: nat

text \<open>
  \<^verbatim>\<open>TCPTransport\<close>; \<open>state_mut\<close> says that the \<^verbatim>\<open>RefCell\<close> holding the state is mutably
  borrowed by a caller further up the stack, in which case \<^verbatim>\<open>borrow\<close> and \<^verbatim>\<open>borrow_mut\<close>
  panic.
\<close>

record 'c TCPTransport =
  tfd :: fd
  lfd :: "fd option"
  tstate :: "'c TCPTransportState"
  state_mut :: bool
  closing :: bool
  paused :: bool
  water_hi :: nat
  water_lo :: nat
  weof :: bool
  proto :: pyobj
  proto_buffered :: bool
  proto_paused :: bool

record UDPTransport =
  ufd :: fd
  u_remote_addr :: "addr option"
  u_write_buf :: "(bytes \<times> addr) list"
  u_write_buf_dsize :: nat
  u_state_mut :: bool
  u_closing :: bool
  u_water_hi :: nat
  u_water_lo :: nat
  u_proto :: pyobj
  u_proto_paused :: bool

section \<open>The event loop\<close>

text \<open>
  Fields of \<^verbatim>\<open>EventLoop\<close> that the crate only keeps for the Python side, which reads and writes
  them through attributes (\<open>Loop_Attributes\<close>).
\<close>

record LoopAttrs =
  loop_closed :: bool
  executor :: pyobj
  sig_wfd :: pyobj
  shutdown_called_asyncgens :: bool
  shutdown_called_executor :: bool
  ssock_r :: pyobj
  ssock_w :: pyobj
  task_factory :: pyobj
  thread_id :: "64 word"
  watcher_child :: pyobj

record 'c world =
  idle :: bool
  handles_io :: "fd \<rightharpoonup> IOHandle"
  handles_ready :: "BoxedHandle list"
  handles_sched :: "BoxedHandle Timer list"
  counter_ready :: nat
  ssock :: "(fd \<times> fd) option"
  exc_handler :: pyobj
  exception_handler :: pyobj
  sig_handlers :: "byte \<rightharpoonup> nat"
  sig_listening :: bool
  sig_loop_handled :: bool
  stopping :: bool
  tcp_lstreams :: "fd \<rightharpoonup> fd set"
  tcp_transports :: "fd \<rightharpoonup> nat"
  udp_transports :: "fd \<rightharpoonup> nat"
  base_ctx :: pyobj
  attrs :: LoopAttrs
  cb_objs :: "nat \<rightharpoonup> CBHandle"
  tcp_objs :: "nat \<rightharpoonup> 'c TCPTransport"
  udp_objs :: "nat \<rightharpoonup> UDPTransport"
  next_obj :: nat
  trace :: "effect list"

definition emit :: "effect \<Rightarrow> 'c world \<Rightarrow> 'c world" where
  "emit e w = w\<lparr>trace := trace w @ [e]\<rparr>"

section \<open>The code outside the repository\<close>

text \<open>
  Python code is a parameter: what a call answers and what it does to the loop and its
  transports, which it reaches through their methods; \<open>py_conn_made\<close> is the bound method
  \<^verbatim>\<open>connection_made\<close> of a protocol, if it has one, \<open>py_is_buffered\<close> whether it is a
  \<^verbatim>\<open>BufferedProtocol\<close>, and \<open>py_buffer_len\<close> the length of an object's writable buffer, if it
  has one; \<open>env_close_timeout\<close> is the parsed \<^verbatim>\<open>RLOOP_SSL_CLOSE_TIMEOUT\<close>. So is \<^verbatim>\<open>rustls\<close>, whose connection has
  the type \<open>'c\<close>: an operation maps a connection to its result and the next connection.
  \<open>tls_write_tls\<close> answers whether it succeeded and the bytes it appended to the buffer,
  \<open>tls_process\<close> whether the peer has closed (or an error), \<open>tls_reader_read\<close> the plaintext read into
  a buffer of the given size (or an error), \<open>tls_avail\<close> the plaintext bytes ready to be read.
\<close>

record 'c ext =
  py :: "pycall \<Rightarrow> 'c world \<Rightarrow> pyres \<times> 'c world"
  py_none :: pyobj
  py_conn_made :: "pyobj \<Rightarrow> pyobj option"
  py_is_buffered :: "pyobj \<Rightarrow> bool"
  py_buffer_len :: "pyobj \<Rightarrow> nat option"
  env_close_timeout :: "nat option"
  tls_new_server :: "nat \<Rightarrow> 'c option"
  tls_new_client :: "nat \<Rightarrow> string \<Rightarrow> 'c option"
  tls_wants_write :: "'c \<Rightarrow> bool"
  tls_is_handshaking :: "'c \<Rightarrow> bool"
  tls_send_close_notify :: "'c \<Rightarrow> 'c"
  tls_write_tls :: "'c \<Rightarrow> bool \<times> bytes \<times> 'c"
  tls_read_tls :: "bytes \<Rightarrow> 'c \<Rightarrow> bool \<times> 'c"
  tls_process :: "'c \<Rightarrow> bool option \<times> 'c"
  tls_reader_read :: "nat \<Rightarrow> 'c \<Rightarrow> bytes option \<times> 'c"
  tls_avail :: "'c \<Rightarrow> nat"
  tls_writer_write_all :: "bytes \<Rightarrow> 'c \<Rightarrow> bool \<times> 'c"

definition call_py :: "'c ext \<Rightarrow> pycall \<Rightarrow> 'c world \<Rightarrow> pyres \<times> 'c world" where
  "call_py E c w = py E c (emit (Py c) w)"

text \<open>
  A property of the state that Python code keeps: what a theorem assumes of the Python side when
  the code it is about calls into it.
\<close>

definition py_keeps :: "('c world \<Rightarrow> bool) \<Rightarrow> 'c ext \<Rightarrow> bool" where
  "py_keeps I E = (\<forall>c w. I (emit (Py c) w) \<longrightarrow> I (snd (py E c (emit (Py c) w))))"

lemma py_keeps_call:
  "py_keeps I E \<Longrightarrow> I (emit (Py c) w) \<Longrightarrow> I (snd (call_py E c w))"
  by (simp add: py_keeps_def call_py_def)

text \<open>\<^verbatim>\<open>EventLoop::new\<close>, with the object number of the copied context.\<close>

definition EventLoop_new :: "pyobj \<Rightarrow> pyobj \<Rightarrow> 'c world" where
  "EventLoop_new none ctx =
     \<lparr>idle = False, handles_io = Map.empty, handles_ready = [], handles_sched = [],
      counter_ready = 0, ssock = None, exc_handler = none, exception_handler = none,
      sig_handlers = Map.empty, sig_listening = False, sig_loop_handled = False,
      stopping = False, tcp_lstreams = Map.empty, tcp_transports = Map.empty,
      udp_transports = Map.empty, base_ctx = ctx,
      attrs = \<lparr>loop_closed = False, executor = none, sig_wfd = none, shutdown_called_asyncgens = False,
               shutdown_called_executor = False, ssock_r = none, ssock_w = none,
               task_factory = none, thread_id = 0, watcher_child = none\<rparr>,
      cb_objs = Map.empty, tcp_objs = Map.empty,
      udp_objs = Map.empty, next_obj = 0, trace = []\<rparr>"

text \<open>A fresh loop, for the concrete examples.\<close>

abbreviation loop0 :: "unit world" where
  "loop0 \<equiv> EventLoop_new 0 0"

lemma EventLoop_new_simps [simp]:
  "idle (EventLoop_new n c) = False"
  "handles_io (EventLoop_new n c) = Map.empty"
  "handles_ready (EventLoop_new n c) = []"
  "handles_sched (EventLoop_new n c) = []"
  "counter_ready (EventLoop_new n c) = 0"
  "ssock (EventLoop_new n c) = None"
  "sig_handlers (EventLoop_new n c) = Map.empty"
  "sig_listening (EventLoop_new n c) = False"
  "sig_loop_handled (EventLoop_new n c) = False"
  "stopping (EventLoop_new n c) = False"
  "tcp_lstreams (EventLoop_new n c) = Map.empty"
  "tcp_transports (EventLoop_new n c) = Map.empty"
  "udp_transports (EventLoop_new n c) = Map.empty"
  "base_ctx (EventLoop_new n c) = c"
  "cb_objs (EventLoop_new n c) = Map.empty"
  "tcp_objs (EventLoop_new n c) = Map.empty"
  "udp_objs (EventLoop_new n c) = Map.empty"
  "next_obj (EventLoop_new n c) = 0"
  "trace (EventLoop_new n c) = []"
  by (simp_all add: EventLoop_new_def)

text \<open>\<^verbatim>\<open>EventLoop::wake\<close>.\<close>

definition wake :: "'c world \<Rightarrow> 'c world" where
  "wake w = (if idle w then emit Wake w else w)"

section \<open>Reading the trace\<close>

text \<open>
  What the loop last asked the mio registry to hold for a descriptor. The code drops the answer to
  almost every request, so this is what it relies on, not what the poller does: the registry
  refuses, for example, a regular file. \<open>poller\<close> below is the registry itself.
\<close>

fun reg_step :: "effect \<Rightarrow> (fd \<rightharpoonup> interest) \<Rightarrow> (fd \<rightharpoonup> interest)" where
  "reg_step (Poll (Register f i)) r = r(f \<mapsto> i)"
| "reg_step (Poll (Reregister f i)) r = r(f \<mapsto> i)"
| "reg_step (Poll (Deregister f)) r = r(f := None)"
| "reg_step _ r = r"

definition requested :: "effect list \<Rightarrow> fd \<rightharpoonup> interest" where
  "requested tr = fold reg_step tr Map.empty"

text \<open>
  What the registry holds when the request at position \<open>n\<close> of the trace was accepted if and only if
  \<open>ok n\<close>: a request that is refused changes nothing.
\<close>

fun poller_from :: "(nat \<Rightarrow> bool) \<Rightarrow> nat \<Rightarrow> effect list \<Rightarrow> (fd \<rightharpoonup> interest) \<Rightarrow> (fd \<rightharpoonup> interest)" where
  "poller_from ok n [] r = r"
| "poller_from ok n (e # es) r = poller_from ok (Suc n) es (if ok n then reg_step e r else r)"

definition poller :: "(nat \<Rightarrow> bool) \<Rightarrow> effect list \<Rightarrow> fd \<rightharpoonup> interest" where
  "poller ok tr = poller_from ok 0 tr Map.empty"

lemma poller_from_snoc:
  "poller_from ok n (es @ [e]) r =
     (if ok (n + length es) then reg_step e (poller_from ok n es r) else poller_from ok n es r)"
  by (induction es arbitrary: n r) simp_all

lemma poller_snoc [simp]:
  "poller ok (tr @ [e]) = (if ok (length tr) then reg_step e (poller ok tr) else poller ok tr)"
  by (simp add: poller_def poller_from_snoc)

lemma poller_Nil [simp]: "poller ok [] = Map.empty"
  by (simp add: poller_def)

text \<open>When every request is accepted, the registry holds what was requested.\<close>

lemma poller_all_accepted: "(\<And>n. ok n) \<Longrightarrow> poller ok tr = requested tr"
  by (induction tr rule: rev_induct) (simp_all add: requested_def)

text \<open>The bytes the kernel accepted on a descriptor, in order.\<close>

definition sent_bytes :: "fd \<Rightarrow> effect list \<Rightarrow> bytes" where
  "sent_bytes f tr = concat (map (\<lambda>e. case e of Sent g b \<Rightarrow> if g = f then b else [] | _ \<Rightarrow> []) tr)"

lemma requested_append [simp]: "requested (tr @ us) = fold reg_step us (requested tr)"
  by (simp add: requested_def)

lemma requested_Nil [simp]: "requested [] = Map.empty"
  by (simp add: requested_def)

lemma sent_bytes_append [simp]: "sent_bytes f (tr @ us) = sent_bytes f tr @ sent_bytes f us"
  by (simp add: sent_bytes_def)

lemma sent_bytes_simps [simp]:
  "sent_bytes f [] = []"
  "sent_bytes f [Sent g b] = (if g = f then b else [])"
  "sent_bytes f [Poll c] = []"
  "sent_bytes f [Py p] = []"
  "sent_bytes f [Wake] = []"
  "sent_bytes f [PollWait tmo] = []"
  "sent_bytes f [PollRefused c] = []"
  "sent_bytes f [SentTo g b a] = []"
  "sent_bytes f [ShutdownWrite g] = []"
  "sent_bytes f [FillBuffer x d] = []"
  by (simp_all add: sent_bytes_def)

lemma emit_simps [simp]:
  "trace (emit e w) = trace w @ [e]"
  "handles_io (emit e w) = handles_io w"
  "handles_ready (emit e w) = handles_ready w"
  "handles_sched (emit e w) = handles_sched w"
  "counter_ready (emit e w) = counter_ready w"
  "idle (emit e w) = idle w"
  "ssock (emit e w) = ssock w"
  "sig_handlers (emit e w) = sig_handlers w"
  "stopping (emit e w) = stopping w"
  "tcp_lstreams (emit e w) = tcp_lstreams w"
  "tcp_transports (emit e w) = tcp_transports w"
  "udp_transports (emit e w) = udp_transports w"
  "cb_objs (emit e w) = cb_objs w"
  "tcp_objs (emit e w) = tcp_objs w"
  "udp_objs (emit e w) = udp_objs w"
  "next_obj (emit e w) = next_obj w"
  by (simp_all add: emit_def)

lemma wake_simps [simp]:
  "handles_io (wake w) = handles_io w"
  "handles_ready (wake w) = handles_ready w"
  "handles_sched (wake w) = handles_sched w"
  "counter_ready (wake w) = counter_ready w"
  "idle (wake w) = idle w"
  "stopping (wake w) = stopping w"
  "tcp_lstreams (wake w) = tcp_lstreams w"
  "tcp_transports (wake w) = tcp_transports w"
  "udp_transports (wake w) = udp_transports w"
  "cb_objs (wake w) = cb_objs w"
  "tcp_objs (wake w) = tcp_objs w"
  "udp_objs (wake w) = udp_objs w"
  "next_obj (wake w) = next_obj w"
  "requested (trace (wake w)) = requested (trace w)"
  "sent_bytes f (trace (wake w)) = sent_bytes f (trace w)"
  by (simp_all add: wake_def)

end
