(* ===== verification/Io_Registry.thy ===== *)
theory Io_Registry
  imports Loop_State
begin

text \<open>
  The part of \<^verbatim>\<open>EventLoop\<close> that keeps \<^verbatim>\<open>handles_io\<close> and the mio poller in step:
  listeners, TCP streams, UDP sockets, the readers and writers registered from Python, and the
  signal socket. \<^verbatim>\<open>papaya::HashMap\<close> is used from one thread here, so
  \<^verbatim>\<open>update_or_insert_with\<close>, \<^verbatim>\<open>remove_if\<close> and \<^verbatim>\<open>update\<close> are the map operations of those
  names. Where the source drops the poller's answer (\<^verbatim>\<open>_ = registry.register(..)\<close>) the trace
  has the request, accepted or not; where it uses \<^verbatim>\<open>?\<close> the answer is an argument.
\<close>

section \<open>Operations\<close>

definition set_io :: "fd \<Rightarrow> IOHandle \<Rightarrow> 'c world \<Rightarrow> 'c world" where
  "set_io f h w = w\<lparr>handles_io := (handles_io w)(f \<mapsto> h)\<rparr>"

definition del_io :: "fd \<Rightarrow> 'c world \<Rightarrow> 'c world" where
  "del_io f w = w\<lparr>handles_io := (handles_io w)(f := None)\<rparr>"

definition tcp_listener_add :: "TCPServerRef \<Rightarrow> 'c world \<Rightarrow> 'c world" where
  "tcp_listener_add server w =
     (let f = sref_fd server; w1 = emit (Poll (Register f {READABLE})) w;
          w2 = w1\<lparr>tcp_lstreams := (tcp_lstreams w1)(f \<mapsto> {})\<rparr>
      in set_io f (IOTCPListener server) w2)"

definition tcp_listener_rem :: "fd \<Rightarrow> bool \<Rightarrow> 'c world \<Rightarrow> (bool pyresult \<times> 'c world) outcome" where
  "tcp_listener_rem f dereg_ok w =
     (case handles_io w f of
        Some (IOTCPListener _) \<Rightarrow>
          (let w1 = del_io f w; w2 = w1\<lparr>tcp_lstreams := (tcp_lstreams w1)(f := None)\<rparr>;
               w3 = emit (Poll (Deregister f)) w2
           in Ret (if dereg_ok then Inr True else Inl (OSError ''deregister''), w3))
      | Some _ \<Rightarrow> Panic Unreachable
      | None \<Rightarrow> Ret (Inr False, w))"

definition tcp_stream_add :: "fd \<Rightarrow> interest \<Rightarrow> 'c world \<Rightarrow> 'c world outcome" where
  "tcp_stream_add f interest w =
     (case handles_io w f of
        Some (IOTCPStream interest_prev) \<Rightarrow>
          if interest_prev = interest then Ret (set_io f (IOTCPStream interest) w)
          else (let interests = interest_prev \<union> interest
                in Ret (set_io f (IOTCPStream interests)
                     (wake (emit (Poll (Reregister f interests)) w))))
      | Some _ \<Rightarrow> Panic Unreachable
      | None \<Rightarrow>
          Ret (set_io f (IOTCPStream interest) (wake (emit (Poll (Register f interest)) w))))"

definition tcp_stream_rem :: "fd \<Rightarrow> interest \<Rightarrow> 'c world \<Rightarrow> 'c world outcome" where
  "tcp_stream_rem f interest w =
     (case handles_io w f of
        None \<Rightarrow> Ret w
      | Some (IOTCPStream interest_ex) \<Rightarrow>
          if interest_ex = interest then Ret (emit (Poll (Deregister f)) (del_io f w))
          else if interest_ex - interest = {} then Panic UnwrapNone
          else Ret (set_io f (IOTCPStream (interest_ex - interest))
                 (emit (Poll (Reregister f (interest_ex - interest))) w))
      | Some _ \<Rightarrow> Panic Unreachable)"

definition udp_socket_add :: "fd \<Rightarrow> interest \<Rightarrow> 'c world \<Rightarrow> 'c world outcome" where
  "udp_socket_add f interest w =
     (case handles_io w f of
        Some (IOUDPSocket interest_prev) \<Rightarrow>
          if interest_prev = interest then Ret (set_io f (IOUDPSocket interest) w)
          else (let interests = interest_prev \<union> interest
                in Ret (set_io f (IOUDPSocket interests)
                     (emit (Poll (Reregister f interests)) w)))
      | Some _ \<Rightarrow> Panic Unreachable
      | None \<Rightarrow> Ret (set_io f (IOUDPSocket interest) (emit (Poll (Register f interest)) w)))"

definition udp_socket_rem :: "fd \<Rightarrow> interest \<Rightarrow> 'c world \<Rightarrow> 'c world outcome" where
  "udp_socket_rem f interest w =
     (case handles_io w f of
        None \<Rightarrow> Ret w
      | Some (IOUDPSocket interest_ex) \<Rightarrow>
          if interest_ex = interest then Ret (emit (Poll (Deregister f)) (del_io f w))
          else if interest_ex - interest = {} then Panic UnwrapNone
          else Ret (set_io f (IOUDPSocket (interest_ex - interest))
                 (emit (Poll (Reregister f (interest_ex - interest))) w))
      | Some _ \<Rightarrow> Panic Unreachable)"

text \<open>\<^verbatim>\<open>Py::new(py, CBHandle::new(..))\<close>: a handle object is allocated.\<close>

definition new_handle :: "CBHandle \<Rightarrow> 'c world \<Rightarrow> nat \<times> 'c world" where
  "new_handle h w =
     (next_obj w, w\<lparr>cb_objs := (cb_objs w)(next_obj w \<mapsto> h), next_obj := Suc (next_obj w)\<rparr>)"

text \<open>
  \<^verbatim>\<open>add_reader\<close> and \<^verbatim>\<open>add_writer\<close>. On a descriptor that is already known the poller is
  called with \<^verbatim>\<open>data.interest\<close>, the interest before the change, and the other callback is
  unwrapped.
\<close>

definition add_reader :: "fd \<Rightarrow> CBHandle \<Rightarrow> 'c world \<Rightarrow> (nat \<times> 'c world) outcome" where
  "add_reader f h w0 =
     (let (handle, w) = new_handle h w0 in
      case handles_io w f of
        Some (IOPy data) \<Rightarrow>
          (let w1 = emit (Poll (Reregister f (phd_interest data))) w
           in and_then (unwrap (phd_cbw data)) (\<lambda>cbw.
                Ret (handle,
                  set_io f (IOPy \<lparr>phd_interest = phd_interest data \<union> {READABLE},
                     phd_cbr = Some handle, phd_cbw = Some cbw\<rparr>) w1)))
      | Some _ \<Rightarrow> Panic Unreachable
      | None \<Rightarrow>
          Ret (handle,
            set_io f (IOPy \<lparr>phd_interest = {READABLE}, phd_cbr = Some handle, phd_cbw = None\<rparr>)
              (emit (Poll (Register f {READABLE})) w)))"

definition remove_reader :: "fd \<Rightarrow> 'c world \<Rightarrow> (bool \<times> 'c world) outcome" where
  "remove_reader f w =
     (case handles_io w f of
        None \<Rightarrow> Ret (False, w)
      | Some (IOPy data) \<Rightarrow>
          if phd_interest data = {READABLE} then
            Ret (True, emit (Poll (Deregister f)) (del_io f w))
          else and_then (unwrap (phd_cbw data)) (\<lambda>cbw.
                 Ret (True,
                   set_io f (IOPy \<lparr>phd_interest = {WRITABLE}, phd_cbr = None, phd_cbw = Some cbw\<rparr>)
                     (emit (Poll (Reregister f {WRITABLE})) w)))
      | Some _ \<Rightarrow> Panic Unreachable)"

definition add_writer :: "fd \<Rightarrow> CBHandle \<Rightarrow> 'c world \<Rightarrow> (nat \<times> 'c world) outcome" where
  "add_writer f h w0 =
     (let (handle, w) = new_handle h w0 in
      case handles_io w f of
        Some (IOPy data) \<Rightarrow>
          (let w1 = emit (Poll (Reregister f (phd_interest data))) w
           in and_then (unwrap (phd_cbr data)) (\<lambda>cbr.
                Ret (handle,
                  set_io f (IOPy \<lparr>phd_interest = phd_interest data \<union> {WRITABLE},
                     phd_cbr = Some cbr, phd_cbw = Some handle\<rparr>) w1)))
      | Some _ \<Rightarrow> Panic Unreachable
      | None \<Rightarrow>
          Ret (handle,
            set_io f (IOPy \<lparr>phd_interest = {WRITABLE}, phd_cbr = None, phd_cbw = Some handle\<rparr>)
              (emit (Poll (Register f {WRITABLE})) w)))"

definition remove_writer :: "fd \<Rightarrow> 'c world \<Rightarrow> (bool \<times> 'c world) outcome" where
  "remove_writer f w =
     (case handles_io w f of
        None \<Rightarrow> Ret (False, w)
      | Some (IOPy data) \<Rightarrow>
          if phd_interest data = {WRITABLE} then
            Ret (True, emit (Poll (Deregister f)) (del_io f w))
          else and_then (unwrap (phd_cbr data)) (\<lambda>cbr.
                 Ret (True,
                   set_io f (IOPy \<lparr>phd_interest = {READABLE}, phd_cbr = Some cbr, phd_cbw = None\<rparr>)
                     (emit (Poll (Reregister f {READABLE})) w)))
      | Some _ \<Rightarrow> Panic Unreachable)"

text \<open>
  \<^verbatim>\<open>_ssock_set\<close>: the pair is stored before the descriptor is converted and registered, so it
  stays stored on both errors. \<^verbatim>\<open>_ssock_del\<close>: \<^verbatim>\<open>remove\<close> drops whatever is there, and only
  the signal handle is deregistered.
\<close>

definition ssock_set :: "fd \<Rightarrow> fd \<Rightarrow> bool \<Rightarrow> 'c world \<Rightarrow> unit pyresult \<times> 'c world" where
  "ssock_set fd_r fd_w reg_ok w =
     (let w1 = w\<lparr>ssock := Some (fd_r, fd_w)\<rparr> in
      if \<not> fd_r < 2 ^ 31 then (Inl OverflowError, w1)
      else if \<not> reg_ok then (Inl (OSError ''register''), emit (PollRefused (Register fd_r {READABLE})) w1)
      else (Inr (), set_io fd_r IOSignals (emit (Poll (Register fd_r {READABLE})) w1)))"

definition ssock_del :: "fd \<Rightarrow> bool \<Rightarrow> 'c world \<Rightarrow> unit pyresult \<times> 'c world" where
  "ssock_del fd_r dereg_ok w =
     (let w1 = del_io fd_r w in
      if handles_io w fd_r = Some IOSignals then
        (let w2 = emit (Poll (Deregister fd_r)) w1 in
         if \<not> dereg_ok then (Inl (OSError ''deregister''), w2)
         else (Inr (), w2\<lparr>ssock := None\<rparr>))
      else (Inr (), w1\<lparr>ssock := None\<rparr>))"

section \<open>Agreement with the requests\<close>

text \<open>The interest \<^verbatim>\<open>handles_io\<close> records for a descriptor.\<close>

fun handle_interest :: "IOHandle \<Rightarrow> interest" where
  "handle_interest (IOPy d) = phd_interest d"
| "handle_interest IOSignals = {READABLE}"
| "handle_interest (IOTCPListener _) = {READABLE}"
| "handle_interest (IOTCPStream i) = i"
| "handle_interest (IOUDPSocket i) = i"

text \<open>
  The last request about each descriptor was to watch it for exactly the interest the loop has
  recorded, or not to watch it when there is no entry.
\<close>

definition poll_agrees :: "'c world \<Rightarrow> bool" where
  "poll_agrees w = (\<forall>f. requested (trace w) f = map_option handle_interest (handles_io w f))"

text \<open>
  What the poller was last asked to watch for one entry: the recorded interest; for callbacks of
  Python perhaps less, because a second callback is registered under the interest of the first.
\<close>

definition watch_ok :: "interest \<Rightarrow> IOHandle \<Rightarrow> bool" where
  "watch_ok i h = (i \<noteq> {} \<and> i \<subseteq> handle_interest h \<and> ((\<exists>d. h = IOPy d) \<or> i = handle_interest h))"

lemma watch_ok_simps [simp]:
  "watch_ok i (IOPy d) = (i \<noteq> {} \<and> i \<subseteq> phd_interest d)" "watch_ok i IOSignals = (i = {READABLE})"
  "watch_ok i (IOTCPListener s) = (i = {READABLE})" "watch_ok i (IOTCPStream j) = (i \<noteq> {} \<and> i = j)"
  "watch_ok i (IOUDPSocket j) = (i \<noteq> {} \<and> i = j)"
  by (auto simp: watch_ok_def)

text \<open>A handle registered from Python has a callback for each readiness it watches, and no other.\<close>

definition py_data_ok :: "PyHandleData \<Rightarrow> bool" where
  "py_data_ok d =
     (phd_interest d \<noteq> {} \<and> (READABLE \<in> phd_interest d \<longleftrightarrow> phd_cbr d \<noteq> None)
      \<and> (WRITABLE \<in> phd_interest d \<longleftrightarrow> phd_cbw d \<noteq> None))"

definition io_wf :: "'c world \<Rightarrow> bool" where
  "io_wf w =
     (\<forall>f h. handles_io w f = Some h \<longrightarrow>
        handle_interest h \<noteq> {} \<and> (case h of IOPy d \<Rightarrow> py_data_ok d | _ \<Rightarrow> True))"

text \<open>Only \<^verbatim>\<open>handles_io\<close> and the trace change, and nothing is sent and no Python code is called.\<close>

definition py_calls :: "effect list \<Rightarrow> pycall list" where
  "py_calls tr = concat (map (\<lambda>e. case e of Py c \<Rightarrow> [c] | _ \<Rightarrow> []) tr)"

lemma py_calls_simps [simp]:
  "py_calls [] = []"
  "py_calls (tr @ us) = py_calls tr @ py_calls us"
  "py_calls [Py c] = [c]"
  "py_calls [Poll p] = []"
  "py_calls [Wake] = []"
  "py_calls [PollRefused p] = []"
  "py_calls [PollWait tmo] = []"
  "py_calls [Sent g b] = []"
  "py_calls [SentTo g b a] = []"
  "py_calls [ShutdownWrite g] = []"
  "py_calls [FillBuffer x d] = []"
  by (simp_all add: py_calls_def)

definition io_frame :: "'c world \<Rightarrow> 'c world \<Rightarrow> bool" where
  "io_frame w w' =
     (w' = w\<lparr>handles_io := handles_io w', trace := trace w'\<rparr>
      \<and> (\<exists>us. trace w' = trace w @ us)
      \<and> (\<forall>f. sent_bytes f (trace w') = sent_bytes f (trace w))
      \<and> py_calls (trace w') = py_calls (trace w))"

lemma io_frame_trans: "io_frame u v \<Longrightarrow> io_frame v w \<Longrightarrow> io_frame u w"
  unfolding io_frame_def by (cases u, cases v, cases w) force

lemma io_frame_simps [simp]:
  "io_frame w w"
  "io_frame w (set_io f h w') = io_frame w w'"
  "io_frame w (del_io f w') = io_frame w w'"
  by (cases w, cases w', simp add: io_frame_def set_io_def del_io_def emit_def)+

lemma io_frame_emit [simp]: "io_frame w w' \<Longrightarrow> io_frame w (emit (Poll p) w')"
  by (cases w, cases w') (force simp: io_frame_def emit_def)

lemma io_frame_wake [simp]: "io_frame w w' \<Longrightarrow> io_frame w (wake w')"
  by (cases w, cases w') (force simp: io_frame_def wake_def emit_def)

lemma set_io_triv: "handles_io w f = Some h \<Longrightarrow> set_io f h w = w"
  by (simp add: set_io_def map_upd_triv)

lemma set_io_simps [simp]:
  "handles_io (set_io f h w) = (handles_io w)(f \<mapsto> h)"
  "trace (set_io f h w) = trace w"
  "handles_io (del_io f w) = (handles_io w)(f := None)"
  "trace (del_io f w) = trace w"
  "cb_objs (set_io f h w) = cb_objs w"
  "cb_objs (del_io f w) = cb_objs w"
  by (simp_all add: set_io_def del_io_def)

lemma poll_agrees_set:
  "poll_agrees w \<Longrightarrow> requested (trace w') = (requested (trace w))(f \<mapsto> handle_interest h) \<Longrightarrow>
    handles_io w' = (handles_io w)(f \<mapsto> h) \<Longrightarrow> poll_agrees w'"
  by (simp add: poll_agrees_def)

lemma io_wf_upd:
  assumes "io_wf w" "handles_io w' = (handles_io w)(f := x)"
    and "\<And>h. x = Some h \<Longrightarrow> handle_interest h \<noteq> {} \<and> (case h of IOPy d \<Rightarrow> py_data_ok d | _ \<Rightarrow> True)"
  shows "io_wf w'"
  using assms by (simp add: io_wf_def)

section \<open>Sources with an add and a remove operation\<close>

text \<open>
  TCP streams and UDP sockets share one contract. \<open>mk\<close> is the kind of handle the source owns;
  the operations are called on descriptors that are free or hold such a handle.
\<close>

definition owns :: "(interest \<Rightarrow> IOHandle) \<Rightarrow> fd \<Rightarrow> 'c world \<Rightarrow> bool" where
  "owns mk f w = (\<forall>h. handles_io w f = Some h \<longrightarrow> (\<exists>i. h = mk i))"

definition watching :: "(interest \<Rightarrow> IOHandle) \<Rightarrow> fd \<Rightarrow> 'c world \<Rightarrow> interest" where
  "watching mk f w = (case handles_io w f of None \<Rightarrow> {} | Some h \<Rightarrow> handle_interest h)"

declare poll_agrees_def [registry_defs] io_wf_def [registry_defs]
  owns_def [registry_defs] watching_def [registry_defs]

locale io_source =
  fixes mk :: "interest \<Rightarrow> IOHandle"
    and add :: "fd \<Rightarrow> interest \<Rightarrow> 'c world \<Rightarrow> 'c world outcome"
    and rem :: "fd \<Rightarrow> interest \<Rightarrow> 'c world \<Rightarrow> 'c world outcome"
  assumes mk_interest [simp]: "handle_interest (mk i) = i"
    and mk_not_py [simp]: "mk i \<noteq> IOPy d"
    and add_new: "handles_io w f = None \<Longrightarrow> \<exists>w'. add f i w = Ret w' \<and> io_frame w w'
        \<and> handles_io w' = (handles_io w)(f \<mapsto> mk i)
        \<and> requested (trace w') = (requested (trace w))(f \<mapsto> i)"
    and add_same: "handles_io w f = Some (mk i) \<Longrightarrow> add f i w = Ret w"
    and add_more: "handles_io w f = Some (mk j) \<Longrightarrow> i \<noteq> j \<Longrightarrow> \<exists>w'. add f i w = Ret w'
        \<and> io_frame w w' \<and> handles_io w' = (handles_io w)(f \<mapsto> mk (j \<union> i))
        \<and> requested (trace w') = (requested (trace w))(f \<mapsto> j \<union> i)"
    and rem_absent: "handles_io w f = None \<Longrightarrow> rem f i w = Ret w"
    and rem_last: "handles_io w f = Some (mk i) \<Longrightarrow> \<exists>w'. rem f i w = Ret w' \<and> io_frame w w'
        \<and> handles_io w' = (handles_io w)(f := None)
        \<and> requested (trace w') = (requested (trace w))(f := None)"
    and rem_some: "handles_io w f = Some (mk j) \<Longrightarrow> i \<noteq> j \<Longrightarrow> j - i \<noteq> {} \<Longrightarrow> \<exists>w'. rem f i w = Ret w'
        \<and> io_frame w w' \<and> handles_io w' = (handles_io w)(f \<mapsto> mk (j - i))
        \<and> requested (trace w') = (requested (trace w))(f \<mapsto> j - i)"
begin

lemma mk_inject [simp]: "mk i = mk j \<longleftrightarrow> i = j"
  using mk_interest by metis

lemma mk_wf: "i \<noteq> {} \<Longrightarrow>
    handle_interest (mk i) \<noteq> {} \<and> (case mk i of IOPy d \<Rightarrow> py_data_ok d | _ \<Rightarrow> True)"
  using mk_not_py [of i] by (cases "mk i") (auto simp del: mk_not_py dest: arg_cong [of _ _ handle_interest])

lemma owns_cases:
  assumes "owns mk f w"
  obtains "handles_io w f = None" | j where "handles_io w f = Some (mk j)"
  using assms by (cases "handles_io w f") (auto simp: owns_def)

text \<open>
  Adding an interest to an owned or free descriptor succeeds, watches the union, keeps the poller
  in agreement and touches nothing else.
\<close>

lemma add_spec:
  assumes "owns mk f w" "i \<noteq> {}"
  obtains w' where "add f i w = Ret w'" "io_frame w w'"
    "handles_io w' = (handles_io w)(f \<mapsto> mk (watching mk f w \<union> i))"
    "poll_agrees w \<Longrightarrow> poll_agrees w'"
  using assms(1)
proof (cases rule: owns_cases)
  case 1
  then show ?thesis
    using add_new [OF 1, of i] that
    by (auto simp: watching_def poll_agrees_def)
next
  case (2 j)
  show ?thesis
  proof (cases "i = j")
    case True
    with 2 add_same [of w f i] that [of w] show ?thesis
      by (simp add: watching_def map_upd_triv)
  next
    case False
    obtain w' where "add f i w = Ret w'" "io_frame w w'"
      "handles_io w' = (handles_io w)(f \<mapsto> mk (j \<union> i))"
      "requested (trace w') = (requested (trace w))(f \<mapsto> j \<union> i)"
      using add_more [OF 2 False] by blast
    with 2 that [of w'] show ?thesis by (simp add: watching_def poll_agrees_def)
  qed
qed

text \<open>
  Removing a single readiness never panics on an owned or free descriptor: what is left stays
  watched, and with nothing left the descriptor is forgotten.
\<close>

lemma rem_spec:
  assumes "owns mk f w" "io_wf w"
  obtains w' where "rem f {r} w = Ret w'" "io_frame w w'"
    "handles_io w' = (handles_io w)(f := (if watching mk f w - {r} = {} then None
                                          else Some (mk (watching mk f w - {r}))))"
    "poll_agrees w \<Longrightarrow> poll_agrees w'"
  using assms(1)
proof (cases rule: owns_cases)
  case 1
  then show ?thesis
    using rem_absent [OF 1, of "{r}"] that [of w]
    by (auto simp: watching_def fun_upd_idem)
next
  case (2 j)
  then have ne: "j \<noteq> {}" using assms(2) [unfolded io_wf_def, rule_format, OF 2] by simp
  show ?thesis
  proof (cases "j = {r}")
    case True
    then show ?thesis
      using rem_last [of w f "{r}"] 2 that by (auto simp: watching_def poll_agrees_def)
  next
    case False
    then have "j - {r} \<noteq> {}" using ne by blast
    with rem_some [OF 2, of "{r}"] False obtain w' where "rem f {r} w = Ret w'" "io_frame w w'"
      "handles_io w' = (handles_io w)(f \<mapsto> mk (j - {r}))"
      "requested (trace w') = (requested (trace w))(f \<mapsto> j - {r})"
      by metis
    with 2 that [of w'] \<open>j - {r} \<noteq> {}\<close> show ?thesis by (simp add: watching_def poll_agrees_def)
  qed
qed

lemma add_keeps:
  assumes "owns mk f w" "io_wf w" "poll_agrees w"
  shows "\<exists>w'. add f {r} w = Ret w' \<and> watching mk f w' = watching mk f w \<union> {r}
           \<and> poll_agrees w' \<and> io_wf w' \<and> io_frame w w' \<and> owns mk f w'
           \<and> (\<forall>g. g \<noteq> f \<longrightarrow> handles_io w' g = handles_io w g)"
proof -
  obtain w' where w': "add f {r} w = Ret w'" "io_frame w w'" "poll_agrees w'"
    "handles_io w' = (handles_io w)(f \<mapsto> mk (watching mk f w \<union> {r}))"
    using add_spec [OF assms(1), of "{r}"] assms(3) by blast
  have "io_wf w'"
    by (rule io_wf_upd [OF assms(2) w'(4)]) (metis Un_insert_right insert_not_empty mk_wf option.inject)
  moreover have "watching mk f w' = watching mk f w \<union> {r}"
    by (subst watching_def) (simp add: w'(4))
  moreover have "owns mk f w'" "\<forall>g. g \<noteq> f \<longrightarrow> handles_io w' g = handles_io w g"
    by (simp_all add: owns_def w'(4))
  ultimately show ?thesis using w' by blast
qed

lemma rem_keeps:
  assumes "owns mk f w" "io_wf w" "poll_agrees w"
  shows "\<exists>w'. rem f {r} w = Ret w' \<and> watching mk f w' = watching mk f w - {r}
           \<and> (watching mk f w \<subseteq> {r} \<longrightarrow> handles_io w' f = None)
           \<and> poll_agrees w' \<and> io_wf w' \<and> io_frame w w' \<and> owns mk f w'
           \<and> (\<forall>g. g \<noteq> f \<longrightarrow> handles_io w' g = handles_io w g)"
proof -
  let ?i = "watching mk f w - {r}"
  obtain w' where w': "rem f {r} w = Ret w'" "io_frame w w'" "poll_agrees w'"
    "handles_io w' = (handles_io w)(f := (if ?i = {} then None else Some (mk ?i)))"
    using rem_spec [OF assms(1,2), of r] assms(3) by blast
  have "io_wf w'"
    by (rule io_wf_upd [OF assms(2) w'(4)]) (metis mk_wf option.distinct(1) option.inject)
  moreover have "watching mk f w' = ?i"
    by (subst watching_def) (simp add: w'(4))
  moreover have "watching mk f w \<subseteq> {r} \<longrightarrow> handles_io w' f = None"
    by (auto simp: w'(4))
  moreover have "owns mk f w'" "\<forall>g. g \<noteq> f \<longrightarrow> handles_io w' g = handles_io w g"
    by (auto simp: owns_def w'(4))
  ultimately show ?thesis using w' by blast
qed

lemma add_then_rem:
  assumes "handles_io w f = Some (mk i)" "r \<notin> i" "i \<noteq> {}" "io_wf w"
  shows "\<exists>w1 w2. add f {r} w = Ret w1 \<and> rem f {r} w1 = Ret w2 \<and> handles_io w2 = handles_io w"
proof -
  have o: "owns mk f w" "watching mk f w = i" using assms(1) by (auto simp: owns_def watching_def)
  obtain w1 where w1: "add f {r} w = Ret w1" "handles_io w1 = (handles_io w)(f \<mapsto> mk (i \<union> {r}))"
    using add_spec [OF o(1), of "{r}"] o(2) by auto
  then have wf1: "io_wf w1" "owns mk f w1" "watching mk f w1 = i \<union> {r}"
    using assms(4) mk_not_py by (auto simp: registry_defs split: IOHandle.splits)
  have "i \<union> {r} - {r} = i" using assms(2) by auto
  then have left: "watching mk f w1 - {r} = i" using wf1(3) by simp
  obtain w2 where
    "rem f {r} w1 = Ret w2" "handles_io w2 = (handles_io w1)(f \<mapsto> mk i)"
    using rem_spec [OF wf1(2,1), of r, unfolded left] assms(3) by (simp only: if_False) blast
  with w1 assms(1) show ?thesis by (simp add: map_upd_triv)
qed

end

interpretation tcp_src: io_source IOTCPStream tcp_stream_add tcp_stream_rem
  by unfold_locales (simp_all add: tcp_stream_add_def tcp_stream_rem_def Let_def set_io_triv)

interpretation udp_src: io_source IOUDPSocket udp_socket_add udp_socket_rem
  by unfold_locales (simp_all add: udp_socket_add_def udp_socket_rem_def Let_def set_io_triv)

section \<open>Properties\<close>

text \<open>
  On a descriptor that is free or holds a TCP stream, \<^verbatim>\<open>tcp_stream_add\<close> and
  \<^verbatim>\<open>tcp_stream_rem\<close> of one readiness never panic; afterwards the stream is watched for exactly
  the old interest with that readiness added or removed (and forgotten when none is left), the
  poller agrees with \<^verbatim>\<open>handles_io\<close> on every descriptor, the table is well formed, and nothing
  else of the loop has changed.
\<close>

theorem tcp_stream_interest_correct:
  assumes "owns IOTCPStream f w" "io_wf w" "poll_agrees w"
  shows "(\<exists>w'. tcp_stream_add f {r} w = Ret w'
            \<and> watching IOTCPStream f w' = watching IOTCPStream f w \<union> {r}
            \<and> poll_agrees w' \<and> io_wf w' \<and> io_frame w w')
       \<and> (\<exists>w'. tcp_stream_rem f {r} w = Ret w'
            \<and> watching IOTCPStream f w' = watching IOTCPStream f w - {r}
            \<and> (watching IOTCPStream f w \<subseteq> {r} \<longrightarrow> handles_io w' f = None)
            \<and> poll_agrees w' \<and> io_wf w' \<and> io_frame w w')"
  using tcp_src.add_keeps [OF assms, of r] tcp_src.rem_keeps [OF assms, of r] by blast

theorem tcp_stream_interest_correct_witness:
  "owns IOTCPStream 7 loop0 \<and> io_wf loop0 \<and> poll_agrees loop0
   \<and> (\<exists>w'. tcp_stream_add 7 {READABLE} loop0 = Ret w'
        \<and> watching IOTCPStream 7 w' = {READABLE} \<and> poll_agrees w')"
proof -
  have h: "owns IOTCPStream 7 loop0" "io_wf loop0"
    "poll_agrees loop0"
    by (simp_all add: registry_defs EventLoop_new_def requested_def)
  have "watching IOTCPStream 7 loop0 = {}"
    by (simp add: watching_def EventLoop_new_def)
  then show ?thesis
    using h tcp_stream_interest_correct [OF h, of READABLE] by auto
qed

text \<open>
  The same contract holds of \<^verbatim>\<open>udp_socket_add\<close> and \<^verbatim>\<open>udp_socket_rem\<close> on descriptors that
  are free or hold a UDP socket.
\<close>

theorem udp_socket_interest_correct:
  assumes "owns IOUDPSocket f w" "io_wf w" "poll_agrees w"
  shows "(\<exists>w'. udp_socket_add f {r} w = Ret w'
            \<and> watching IOUDPSocket f w' = watching IOUDPSocket f w \<union> {r}
            \<and> poll_agrees w' \<and> io_wf w' \<and> io_frame w w')
       \<and> (\<exists>w'. udp_socket_rem f {r} w = Ret w'
            \<and> watching IOUDPSocket f w' = watching IOUDPSocket f w - {r}
            \<and> (watching IOUDPSocket f w \<subseteq> {r} \<longrightarrow> handles_io w' f = None)
            \<and> poll_agrees w' \<and> io_wf w' \<and> io_frame w w')"
  using udp_src.add_keeps [OF assms, of r] udp_src.rem_keeps [OF assms, of r] by blast

theorem udp_socket_interest_correct_witness:
  "owns IOUDPSocket 7 loop0 \<and> io_wf loop0 \<and> poll_agrees loop0
   \<and> (\<exists>w'. udp_socket_add 7 {READABLE} loop0 = Ret w'
        \<and> watching IOUDPSocket 7 w' = {READABLE} \<and> poll_agrees w')"
proof -
  have h: "owns IOUDPSocket 7 loop0" "io_wf loop0"
    "poll_agrees loop0"
    by (simp_all add: registry_defs EventLoop_new_def requested_def)
  have "watching IOUDPSocket 7 loop0 = {}"
    by (simp add: watching_def EventLoop_new_def)
  then show ?thesis
    using h udp_socket_interest_correct [OF h, of READABLE] by auto
qed

text \<open>
  The reader and the writer Python has registered on a descriptor, and the interest that goes with
  them, none when there is neither. An operation on one descriptor that brings it to callbacks \<open>cs\<close>.
\<close>

definition py_cbs :: "fd \<Rightarrow> 'c world \<Rightarrow> nat option \<times> nat option" where
  "py_cbs f w = (case handles_io w f of Some (IOPy d) \<Rightarrow> (phd_cbr d, phd_cbw d) | _ \<Rightarrow> (None, None))"

definition py_watch :: "nat option \<times> nat option \<Rightarrow> interest option" where
  "py_watch cs =
     (let i = (if fst cs \<noteq> None then {READABLE} else {}) \<union> (if snd cs \<noteq> None then {WRITABLE} else {})
      in if i = {} then None else Some i)"

definition py_brings :: "fd \<Rightarrow> nat option \<times> nat option \<Rightarrow> 'c world \<Rightarrow> 'c world \<Rightarrow> bool" where
  "py_brings f cs w w' =
     (py_cbs f w' = cs \<and> io_wf w'
      \<and> map_option handle_interest (handles_io w' f) = py_watch cs
      \<and> (\<forall>g. g \<noteq> f \<longrightarrow> handles_io w' g = handles_io w g \<and> requested (trace w') g = requested (trace w) g))"

lemmas py_side_defs = py_brings_def py_cbs_def py_watch_def io_wf_def py_data_ok_def Let_def

lemma py_add_free:
  assumes "io_wf w" "handles_io w f = None"
  shows "\<exists>w'. add_reader f cb w = Ret (next_obj w, w') \<and> cb_objs w' = (cb_objs w)(next_obj w \<mapsto> cb)
      \<and> py_brings f (Some (next_obj w), None) w w' \<and> trace w' = trace w @ [Poll (Register f {READABLE})]"
    "\<exists>w'. add_writer f cb w = Ret (next_obj w, w') \<and> cb_objs w' = (cb_objs w)(next_obj w \<mapsto> cb)
      \<and> py_brings f (None, Some (next_obj w)) w w' \<and> trace w' = trace w @ [Poll (Register f {WRITABLE})]"
  using assms by (simp_all add: add_reader_def add_writer_def new_handle_def py_side_defs set_io_def)

lemma py_rem_known:
  assumes "io_wf w" "handles_io w f = Some (IOPy d)"
  shows "\<exists>w'. remove_reader f w = Ret (True, w') \<and> cb_objs w' = cb_objs w
      \<and> py_brings f (None, snd (py_cbs f w)) w w' \<and> requested (trace w') f = py_watch (None, snd (py_cbs f w))"
    "\<exists>w'. remove_writer f w = Ret (True, w') \<and> cb_objs w' = cb_objs w
      \<and> py_brings f (fst (py_cbs f w), None) w w' \<and> requested (trace w') f = py_watch (fst (py_cbs f w), None)"
proof -
  have ok: "py_data_ok d" using assms by (fastforce simp: io_wf_def)
  have i: "phd_interest d = {READABLE} \<longleftrightarrow> phd_cbw d = None" "phd_interest d = {WRITABLE} \<longleftrightarrow> phd_cbr d = None"
    using ok by (auto simp: py_data_ok_def) (metis insert_absorb insert_iff readiness.exhaust singletonI subset_antisym subset_iff)+
  have wf: "\<And>g h. handles_io w g = Some h \<Longrightarrow> handle_interest h \<noteq> {} \<and> (case h of IOPy d \<Rightarrow> py_data_ok d | _ \<Rightarrow> True)"
    using assms(1) by (simp add: io_wf_def)
  show "\<exists>w'. remove_reader f w = Ret (True, w') \<and> cb_objs w' = cb_objs w
      \<and> py_brings f (None, snd (py_cbs f w)) w w' \<and> requested (trace w') f = py_watch (None, snd (py_cbs f w))"
    using assms(2) i(1) wf
    by (cases "phd_cbw d") (simp_all add: remove_reader_def py_side_defs set_io_def del_io_def)
  show "\<exists>w'. remove_writer f w = Ret (True, w') \<and> cb_objs w' = cb_objs w
      \<and> py_brings f (fst (py_cbs f w), None) w w' \<and> requested (trace w') f = py_watch (fst (py_cbs f w), None)"
    using assms(2) i(2) wf
    by (cases "phd_cbr d") (simp_all add: remove_writer_def py_side_defs set_io_def del_io_def)
qed

text \<open>
  C19. Readers and writers registered from Python, on any descriptor that has no entry yet or one made
  by these operations. \<^verbatim>\<open>add_reader\<close> and \<^verbatim>\<open>add_writer\<close> on a free descriptor answer a new handle with the
  given callback, which becomes its only reader or writer; one request is made, for that readiness,
  and if the poller refuses it (as for a regular file) the call does the same, although the poller
  does not watch the descriptor. \<^verbatim>\<open>remove_reader\<close> and \<^verbatim>\<open>remove_writer\<close> drop the reader or the writer if
  there is one and keep the other callback; the interest recorded and last requested is that of
  what is left, and the entry is gone and deregistered when nothing is left; they answer whether
  the descriptor was known (not whether it had such a callback), and do nothing when it was not. Other
  descriptors are not touched.
\<close>

theorem py_handles_correct:
  assumes wf: "io_wf w" and py: "\<forall>h. handles_io w f = Some h \<longrightarrow> (\<exists>d. h = IOPy d)"
  shows "(handles_io w f = None \<longrightarrow>
            (\<exists>w'. add_reader f cb w = Ret (next_obj w, w') \<and> cb_objs w' (next_obj w) = Some cb
               \<and> py_brings f (Some (next_obj w), None) w w' \<and> requested (trace w') f = Some {READABLE}
               \<and> poller ok (trace w') = (if ok (length (trace w)) then (poller ok (trace w))(f \<mapsto> {READABLE})
                                          else poller ok (trace w)))
          \<and> (\<exists>w'. add_writer f cb w = Ret (next_obj w, w') \<and> cb_objs w' (next_obj w) = Some cb
               \<and> py_brings f (None, Some (next_obj w)) w w' \<and> requested (trace w') f = Some {WRITABLE}
               \<and> poller ok (trace w') = (if ok (length (trace w)) then (poller ok (trace w))(f \<mapsto> {WRITABLE})
                                          else poller ok (trace w)))
          \<and> remove_reader f w = Ret (False, w) \<and> remove_writer f w = Ret (False, w))
       \<and> (handles_io w f \<noteq> None \<longrightarrow>
            (\<exists>w'. remove_reader f w = Ret (True, w') \<and> cb_objs w' = cb_objs w
               \<and> py_brings f (None, snd (py_cbs f w)) w w'
               \<and> requested (trace w') f = py_watch (None, snd (py_cbs f w)))
          \<and> (\<exists>w'. remove_writer f w = Ret (True, w') \<and> cb_objs w' = cb_objs w
               \<and> py_brings f (fst (py_cbs f w), None) w w'
               \<and> requested (trace w') f = py_watch (fst (py_cbs f w), None)))"
proof (cases "handles_io w f")
  case None
  then show ?thesis
    using py_add_free [OF wf None, of cb] by (auto simp: remove_reader_def remove_writer_def)
next
  case (Some h)
  then obtain d where "handles_io w f = Some (IOPy d)" using py by blast
  then show ?thesis using py_rem_known [OF wf] by simp
qed

theorem py_handles_correct_witness:
  "let cb = \<lparr>callback = 1, cbargs = Args 2, cbcontext = 3, cbcancelled = False\<rparr> in
   \<exists>w w'. add_writer 4 cb loop0 = Ret (0, w) \<and> handles_io w 4 \<noteq> None \<and> requested (trace w) 4 = Some {WRITABLE}
     \<and> poller (\<lambda>_. False) (trace w) 4 = None
     \<and> remove_writer 4 w = Ret (True, w') \<and> handles_io w' 4 = None \<and> requested (trace w') 4 = None"
proof -
  let ?cb = "\<lparr>callback = 1, cbargs = Args 2, cbcontext = 3, cbcancelled = False\<rparr>"
  have wf: "io_wf loop0" by (simp add: io_wf_def)
  obtain w where w: "add_writer 4 ?cb loop0 = Ret (0, w)" "py_brings 4 (None, Some 0) loop0 w"
    "requested (trace w) 4 = Some {WRITABLE}" "poller (\<lambda>_. False) (trace w) = Map.empty"
    using py_handles_correct [OF wf, of 4 ?cb "\<lambda>_. False"] by auto
  have e: "py_cbs 4 w = (None, Some 0)" "io_wf w" using w(2) by (simp_all add: py_brings_def)
  then have p: "\<forall>h. handles_io w 4 = Some h \<longrightarrow> (\<exists>d. h = IOPy d)" "handles_io w 4 \<noteq> None"
    by (auto simp: py_cbs_def split: option.splits IOHandle.splits)
  obtain w' where w': "remove_writer 4 w = Ret (True, w')" "py_brings 4 (None, None) w w'"
    "requested (trace w') 4 = py_watch (None, None)"
    using py_handles_correct [OF e(2) p(1), of ?cb "\<lambda>_. False"] p(2) e(1) by auto
  then have "handles_io w' 4 = None" "requested (trace w') 4 = None"
    by (simp_all add: py_brings_def py_watch_def)
  then show ?thesis using w(1,3,4) w'(1) p(2) unfolding Let_def by (intro exI [of _ w] exI [of _ w']) simp
qed

text \<open>
  C35. Registering a second kind of callback on a known descriptor records the wider interest but
  reregisters the old one: after \<^verbatim>\<open>add_reader\<close> on a descriptor with a writer the loop believes
  it watches both, while the poller is still asked to watch it for writing only, so that the
  reader is not called; likewise for \<^verbatim>\<open>add_writer\<close> after a reader. Replacing the only reader (or the only
  writer) panics.
\<close>

theorem add_second_callback_unpolled:
  assumes "poll_agrees w"
  shows "(handles_io w f = Some (IOPy \<lparr>phd_interest = {WRITABLE}, phd_cbr = None, phd_cbw = Some c\<rparr>) \<longrightarrow>
            (\<exists>h w'. add_reader f cb w = Ret (h, w')
               \<and> handles_io w' f = Some (IOPy \<lparr>phd_interest = {READABLE, WRITABLE}, phd_cbr = Some h, phd_cbw = Some c\<rparr>)
               \<and> requested (trace w') f = Some {WRITABLE})
            \<and> add_writer f cb w = Panic UnwrapNone)
       \<and> (handles_io w f = Some (IOPy \<lparr>phd_interest = {READABLE}, phd_cbr = Some r, phd_cbw = None\<rparr>) \<longrightarrow>
            (\<exists>h w'. add_writer f cb w = Ret (h, w')
               \<and> handles_io w' f = Some (IOPy \<lparr>phd_interest = {READABLE, WRITABLE}, phd_cbr = Some r, phd_cbw = Some h\<rparr>)
               \<and> requested (trace w') f = Some {READABLE})
            \<and> add_reader f cb w = Panic UnwrapNone)"
  by (auto simp: add_reader_def add_writer_def new_handle_def insert_commute)

theorem add_second_callback_unpolled_witness:
  "\<exists>w :: unit world. poll_agrees w \<and>
     handles_io w 4 = Some (IOPy \<lparr>phd_interest = {READABLE}, phd_cbr = Some 0, phd_cbw = None\<rparr>) \<and>
     add_reader 4 \<lparr>callback = 1, cbargs = Args 2, cbcontext = 3, cbcancelled = False\<rparr> w = Panic UnwrapNone"
proof -
  let ?w = "set_io 4 (IOPy \<lparr>phd_interest = {READABLE}, phd_cbr = Some 0, phd_cbw = None\<rparr>)
      (emit (Poll (Register 4 {READABLE})) loop0) :: unit world"
  have h: "poll_agrees ?w"
    by (simp add: poll_agrees_def EventLoop_new_def requested_def)
  have k: "handles_io ?w 4 = Some (IOPy \<lparr>phd_interest = {READABLE}, phd_cbr = Some 0, phd_cbw = None\<rparr>)"
    by simp
  show ?thesis
    using h k add_second_callback_unpolled [OF h, of 4 0
      "\<lparr>callback = 1, cbargs = Args 2, cbcontext = 3, cbcancelled = False\<rparr>" 0] by blast
qed

end
