(* ===== verification/Scheduling.thy ===== *)
theory Scheduling
  imports Io_Registry
begin

text \<open>
  Callback handles (\<^verbatim>\<open>handles.rs\<close>) and the operations that queue them
  (\<^verbatim>\<open>call_soon\<close>, \<^verbatim>\<open>call_soon_threadsafe\<close>, \<^verbatim>\<open>_call_later\<close> and the \<^verbatim>\<open>schedule*\<close> family of
  \<^verbatim>\<open>event_loop.rs\<close>), and the table of signal handlers. These operations release the locks they
  take before they return or call Python, with one exception: \<^verbatim>\<open>log_exception\<close> holds the two
  handlers' locks for reading while the handler runs, so a handler that replaces itself waits for
  itself; that is not modelled. (The mutex of the poller, which is held while a listener's protocol
  factory runs, is: see \<open>Tcp_Server\<close>.) A lock is never poisoned because a panic aborts.
\<close>

section \<open>Handles\<close>

definition CBHandle_new :: "pyobj \<Rightarrow> pyobj \<Rightarrow> pyobj \<Rightarrow> CBHandle" where
  "CBHandle_new cb args ctx =
     \<lparr>callback = cb, cbargs = Args args, cbcontext = ctx, cbcancelled = False\<rparr>"

definition CBHandle_new0 :: "pyobj \<Rightarrow> pyobj \<Rightarrow> CBHandle" where
  "CBHandle_new0 cb ctx =
     \<lparr>callback = cb, cbargs = NoArgs, cbcontext = ctx, cbcancelled = False\<rparr>"

definition CBHandle_new1 :: "pyobj \<Rightarrow> pyobj \<Rightarrow> pyobj \<Rightarrow> CBHandle" where
  "CBHandle_new1 cb arg ctx =
     \<lparr>callback = cb, cbargs = OneArg arg, cbcontext = ctx, cbcancelled = False\<rparr>"

text \<open>\<^verbatim>\<open>cancel\<close>, the same for the three classes and for \<^verbatim>\<open>TimerHandle\<close>, which forwards it.\<close>

definition cancel :: "nat \<Rightarrow> 'c world \<Rightarrow> 'c world" where
  "cancel h w =
     w\<lparr>cb_objs := (cb_objs w)(h := map_option (\<lambda>c. c\<lparr>cbcancelled := True\<rparr>) (cb_objs w h))\<rparr>"

text \<open>
  \<^verbatim>\<open>Handle::cancelled\<close>. \<^verbatim>\<open>CBHandle\<close> and \<^verbatim>\<open>CBHandleNoArgs\<close> read the flag;
  \<^verbatim>\<open>CBHandleOneArg\<close> and the I/O handles have the default of the trait, \<^verbatim>\<open>false\<close>.
\<close>

definition cb_cancelled :: "CBHandle \<Rightarrow> bool" where
  "cb_cancelled c = (case cbargs c of OneArg _ \<Rightarrow> False | _ \<Rightarrow> cbcancelled c)"

fun handle_cancelled :: "BoxedHandle \<Rightarrow> 'c world \<Rightarrow> bool" where
  "handle_cancelled (HCB h) w = (case cb_objs w h of None \<Rightarrow> False | Some c \<Rightarrow> cb_cancelled c)"
| "handle_cancelled _ w = False"

text \<open>\<^verbatim>\<open>EventLoop::log_exception\<close>, and the context dictionaries of \<^verbatim>\<open>log.rs\<close>.\<close>

definition log_exception :: "'c ext \<Rightarrow> LogExc \<Rightarrow> 'c world \<Rightarrow> 'c world" where
  "log_exception E ctx w =
     snd (call_py E (LogException (exc_handler w) ctx (exception_handler w)) w)"

text \<open>
  \<^verbatim>\<open>Handle::run\<close> of the three callback classes: the call runs in the handle's context with its
  own arguments, and an exception goes to the loop's exception handler.
\<close>

definition CBHandle_run :: "'c ext \<Rightarrow> nat \<Rightarrow> 'c world \<Rightarrow> 'c world" where
  "CBHandle_run E h w =
     (case cb_objs w h of
        None \<Rightarrow> w
      | Some c \<Rightarrow>
          (case call_py E (RunCB (callback c) (cbargs c) (cbcontext c)) w of
             (PyOk _ _, w1) \<Rightarrow> w1
           | (PyErr e, w1) \<Rightarrow> log_exception E (LogCBHandle e h) w1))"

section \<open>Queueing\<close>

definition push_ready :: "BoxedHandle \<Rightarrow> 'c world \<Rightarrow> 'c world" where
  "push_ready h w =
     (let w1 = w\<lparr>handles_ready := handles_ready w @ [h]\<rparr>
      in w1\<lparr>counter_ready := usize_add (counter_ready w1) 1\<rparr>)"

definition push_sched :: "BoxedHandle \<Rightarrow> nat \<Rightarrow> 'c world \<Rightarrow> 'c world" where
  "push_sched h when w =
     w\<lparr>handles_sched := heap_push Timer_le (handles_sched w) \<lparr>t_handle = h, t_when = when\<rparr>\<rparr>"

text \<open>
  A context given by the caller, or the loop's base context; \<^verbatim>\<open>call_soon\<close> copies the current
  Python context instead.
\<close>

definition ctx_or_base :: "pyobj option \<Rightarrow> 'c world \<Rightarrow> pyobj" where
  "ctx_or_base context w = (case context of None \<Rightarrow> base_ctx w | Some c \<Rightarrow> c)"

definition call_soon ::
  "pyobj \<Rightarrow> pyobj \<Rightarrow> pyobj option \<Rightarrow> pyobj \<Rightarrow> 'c world \<Rightarrow> nat \<times> 'c world" where
  "call_soon cb args context current_ctx w =
     (let ctx = (case context of None \<Rightarrow> current_ctx | Some c \<Rightarrow> c);
          (h, w1) = new_handle (CBHandle_new cb args ctx) w
      in (h, push_ready (HCB h) w1))"

definition call_soon_threadsafe ::
  "pyobj \<Rightarrow> pyobj \<Rightarrow> pyobj option \<Rightarrow> 'c world \<Rightarrow> nat \<times> 'c world" where
  "call_soon_threadsafe cb args context w =
     (let (h, w1) = new_handle (CBHandle_new cb args (ctx_or_base context w)) w
      in (h, wake (push_ready (HCB h) w1)))"

text \<open>
  \<^verbatim>\<open>_call_later\<close>: \<open>now\<close> is the clock in microseconds since the epoch, \<open>delay\<close> is in
  microseconds. The returned \<^verbatim>\<open>TimerHandle\<close> is the handle and its deadline.
\<close>

definition call_later ::
  "nat \<Rightarrow> nat \<Rightarrow> pyobj \<Rightarrow> pyobj \<Rightarrow> pyobj \<Rightarrow> 'c world \<Rightarrow> (nat \<times> nat) \<times> 'c world" where
  "call_later now delay cb args context w =
     (let when = now + delay; (h, w1) = new_handle (CBHandle_new cb args context) w
      in ((h, when), push_sched (HCB h) when w1))"

definition schedule0 :: "pyobj \<Rightarrow> pyobj option \<Rightarrow> 'c world \<Rightarrow> 'c world" where
  "schedule0 cb context w =
     (let (h, w1) = new_handle (CBHandle_new0 cb (ctx_or_base context w)) w
      in wake (push_ready (HCB h) w1))"

definition schedule1 :: "pyobj \<Rightarrow> pyobj \<Rightarrow> pyobj option \<Rightarrow> 'c world \<Rightarrow> 'c world" where
  "schedule1 cb arg context w =
     (let (h, w1) = new_handle (CBHandle_new1 cb arg (ctx_or_base context w)) w
      in wake (push_ready (HCB h) w1))"

text \<open>\<^verbatim>\<open>schedule\<close> builds a one-argument handle from the argument tuple (\<^verbatim>\<open>CBHandle::new1\<close>).\<close>

definition schedule :: "pyobj \<Rightarrow> pyobj \<Rightarrow> pyobj option \<Rightarrow> 'c world \<Rightarrow> 'c world" where
  "schedule cb args context w =
     (let (h, w1) = new_handle (CBHandle_new1 cb args (ctx_or_base context w)) w
      in wake (push_ready (HCB h) w1))"

text \<open>
  The delayed variants take durations, here in nanoseconds, and truncate their sum to
  microseconds.
\<close>

definition schedule_later0 ::
  "nat \<Rightarrow> nat \<Rightarrow> pyobj \<Rightarrow> pyobj option \<Rightarrow> 'c world \<Rightarrow> 'c world" where
  "schedule_later0 now_ns delay_ns cb context w =
     (let when = (now_ns + delay_ns) div 1000;
          (h, w1) = new_handle (CBHandle_new0 cb (ctx_or_base context w)) w
      in wake (push_sched (HCB h) when w1))"

definition schedule_later1 ::
  "nat \<Rightarrow> nat \<Rightarrow> pyobj \<Rightarrow> pyobj \<Rightarrow> pyobj option \<Rightarrow> 'c world \<Rightarrow> 'c world" where
  "schedule_later1 now_ns delay_ns cb arg context w =
     (let when = (now_ns + delay_ns) div 1000;
          (h, w1) = new_handle (CBHandle_new1 cb arg (ctx_or_base context w)) w
      in wake (push_sched (HCB h) when w1))"

definition schedule_later ::
  "nat \<Rightarrow> nat \<Rightarrow> pyobj \<Rightarrow> pyobj \<Rightarrow> pyobj option \<Rightarrow> 'c world \<Rightarrow> 'c world" where
  "schedule_later now_ns delay_ns cb args context w =
     (let when = (now_ns + delay_ns) div 1000;
          (h, w1) = new_handle (CBHandle_new cb args (ctx_or_base context w)) w
      in wake (push_sched (HCB h) when w1))"

definition schedule_handle :: "nat \<Rightarrow> BoxedHandle \<Rightarrow> nat option \<Rightarrow> 'c world \<Rightarrow> 'c world" where
  "schedule_handle now_ns handle delay_ns w =
     (case delay_ns of
        Some delay \<Rightarrow> wake (push_sched handle ((now_ns + delay) div 1000) w)
      | None \<Rightarrow> wake (push_ready handle w))"

section \<open>Signal handlers\<close>

definition sig_add :: "byte \<Rightarrow> pyobj \<Rightarrow> pyobj \<Rightarrow> pyobj \<Rightarrow> 'c world \<Rightarrow> 'c world" where
  "sig_add sig cb args context w =
     (let (h, w1) = new_handle (CBHandle_new cb args context) w
      in w1\<lparr>sig_handlers := (sig_handlers w1)(sig \<mapsto> h)\<rparr>)"

definition sig_rem :: "byte \<Rightarrow> 'c world \<Rightarrow> bool \<times> 'c world" where
  "sig_rem sig w =
     (sig_handlers w sig \<noteq> None, w\<lparr>sig_handlers := (sig_handlers w)(sig := None)\<rparr>)"

definition sig_clear :: "'c world \<Rightarrow> 'c world" where
  "sig_clear w = w\<lparr>sig_handlers := Map.empty\<rparr>"

section \<open>The queue invariant\<close>

text \<open>
  The counter that decides whether the loop may sleep counts the ready queue (modulo the word
  size), the timer heap is ordered, and every queued callback is an allocated object.
\<close>

definition handle_known :: "'c world \<Rightarrow> BoxedHandle \<Rightarrow> bool" where
  "handle_known w h = (\<forall>n. h = HCB n \<longrightarrow> cb_objs w n \<noteq> None)"

definition objs_below :: "'c world \<Rightarrow> bool" where
  "objs_below w = (\<forall>n. cb_objs w n \<noteq> None \<longrightarrow> n < next_obj w)"

definition queue_inv :: "'c world \<Rightarrow> bool" where
  "queue_inv w =
     (counter_ready w = length (handles_ready w) mod usize_max1
      \<and> heap_inv Timer_le (handles_sched w)
      \<and> (\<forall>h \<in> set (handles_ready w). handle_known w h)
      \<and> (\<forall>t \<in> set (handles_sched w). handle_known w (t_handle t))
      \<and> (\<forall>s h. sig_handlers w s = Some h \<longrightarrow> cb_objs w h \<noteq> None)
      \<and> objs_below w)"

lemma new_handle_inv:
  assumes "queue_inv w" "new_handle c w = (h, w1)"
  shows "queue_inv w1" "handle_known w1 (HCB h)" "cb_objs w1 h = Some c"
  using assms
  by (auto simp: queue_inv_def new_handle_def handle_known_def objs_below_def less_Suc_eq
      split: if_splits)

lemma queue_inv_cong:
  "handles_ready w' = handles_ready w \<Longrightarrow> handles_sched w' = handles_sched w \<Longrightarrow>
   counter_ready w' = counter_ready w \<Longrightarrow> cb_objs w' = cb_objs w \<Longrightarrow> next_obj w' = next_obj w \<Longrightarrow>
   sig_handlers w' = sig_handlers w \<Longrightarrow> queue_inv w' = queue_inv w"
  by (simp add: queue_inv_def handle_known_def objs_below_def)

lemma sig_handlers_wake [simp]: "sig_handlers (wake w) = sig_handlers w"
  by (simp add: wake_def)

lemma queue_inv_emit [simp]: "queue_inv (emit e w) = queue_inv w"
  by (rule queue_inv_cong) simp_all

lemma queue_inv_wake [simp]: "queue_inv (wake w) = queue_inv w"
  by (rule queue_inv_cong) simp_all

text \<open>
  The contract of an operation that queues one handle: it keeps the invariant and allocates
  nothing. Every scheduling call is one allocation followed by one such operation.
\<close>

locale enqueue =
  fixes enq :: "BoxedHandle \<Rightarrow> 'c world \<Rightarrow> 'c world"
  assumes enq_inv: "queue_inv w \<Longrightarrow> handle_known w h \<Longrightarrow> queue_inv (enq h w)"
    and enq_objs: "cb_objs (enq h w) = cb_objs w"
begin

lemma new_then_enq:
  assumes "queue_inv w" "new_handle c w = (h, w1)"
  shows "queue_inv (enq (HCB h) w1)" "cb_objs (enq (HCB h) w1) h = Some c"
  using new_handle_inv [OF assms] by (simp_all add: enq_inv enq_objs)

end

lemma push_ready_inv: "queue_inv w \<Longrightarrow> handle_known w h \<Longrightarrow> queue_inv (push_ready h w)"
  by (auto simp: queue_inv_def push_ready_def Let_def handle_known_def objs_below_def usize_add_def
      mod_Suc_eq)

lemma push_sched_inv: "queue_inv w \<Longrightarrow> handle_known w h \<Longrightarrow> queue_inv (push_sched h when w)"
proof -
  assume inv: "queue_inv w" "handle_known w h"
  have "set (heap_push Timer_le (handles_sched w) t) = insert t (set (handles_sched w))" for t
    using arg_cong [OF th.mset_heap_push [of "handles_sched w" t], of set_mset] by simp
  with inv show ?thesis
    by (auto simp: queue_inv_def push_sched_def handle_known_def objs_below_def th.heap_push_inv)
qed

lemma push_objs [simp]:
  "cb_objs (push_ready h w) = cb_objs w" "cb_objs (push_sched h when w) = cb_objs w"
  by (simp_all add: push_ready_def push_sched_def Let_def)

interpretation q_ready: enqueue push_ready
  by unfold_locales (simp_all add: push_ready_inv)

interpretation q_ready_wake: enqueue "\<lambda>h w. wake (push_ready h w)"
  by unfold_locales (simp_all add: push_ready_inv)

interpretation q_sched: enqueue "\<lambda>h. push_sched h tm" for tm
  by unfold_locales (simp_all add: push_sched_inv)

interpretation q_sched_wake: enqueue "\<lambda>h w. wake (push_sched h tm w)" for tm
  by unfold_locales (simp_all add: push_sched_inv)

lemmas queueing_defs =
  call_soon_def call_soon_threadsafe_def call_later_def schedule0_def schedule1_def schedule_def
  schedule_later0_def schedule_later1_def schedule_later_def

section \<open>Properties\<close>

text \<open>
  Every operation that schedules a callback keeps the queue invariant: the counter the loop
  sleeps on counts the ready queue, the timers stay a heap, and only allocated handles are queued.
\<close>

theorem scheduling_keeps_queue_inv:
  assumes "queue_inv w"
  shows "queue_inv (snd (call_soon cb args context cur w))
       \<and> queue_inv (snd (call_soon_threadsafe cb args context w))
       \<and> queue_inv (snd (call_later now delay cb args ctx w))
       \<and> queue_inv (schedule0 cb context w)
       \<and> queue_inv (schedule1 cb arg context w)
       \<and> queue_inv (schedule cb args context w)
       \<and> queue_inv (schedule_later0 now delay cb context w)
       \<and> queue_inv (schedule_later1 now delay cb arg context w)
       \<and> queue_inv (schedule_later now delay cb args context w)
       \<and> (handle_known w h \<longrightarrow> queue_inv (schedule_handle now h dly w))
       \<and> queue_inv (sig_add sig cb args ctx w)
       \<and> queue_inv (snd (sig_rem sig w))
       \<and> queue_inv (sig_clear w)
       \<and> queue_inv (cancel n w)"
proof -
  note q = q_ready.new_then_enq(1) [OF assms] q_ready_wake.new_then_enq(1) [OF assms]
    q_sched.new_then_enq(1) [OF assms] q_sched_wake.new_then_enq(1) [OF assms]
  have "queue_inv (snd (call_soon cb args context cur w))"
       "queue_inv (snd (call_soon_threadsafe cb args context w))"
       "queue_inv (snd (call_later now delay cb args ctx w))"
       "queue_inv (schedule0 cb context w)"
       "queue_inv (schedule1 cb arg context w)"
       "queue_inv (schedule cb args context w)"
       "queue_inv (schedule_later0 now delay cb context w)"
       "queue_inv (schedule_later1 now delay cb arg context w)"
       "queue_inv (schedule_later now delay cb args context w)"
    by (simp_all add: queueing_defs Let_def q split: prod.split)
  moreover have "handle_known w h \<longrightarrow> queue_inv (schedule_handle now h dly w)"
    using assms by (simp add: schedule_handle_def push_ready_inv push_sched_inv split: option.split)
  moreover have "queue_inv (sig_add sig cb args ctx w)" "queue_inv (snd (sig_rem sig w))"
    "queue_inv (sig_clear w)" "queue_inv (cancel n w)"
    using assms
    by (auto simp: queue_inv_def sig_add_def sig_rem_def sig_clear_def cancel_def new_handle_def
        handle_known_def objs_below_def less_Suc_eq split: if_splits)
  ultimately show ?thesis by blast
qed

theorem scheduling_keeps_queue_inv_witness:
  "queue_inv loop0 \<and> queue_inv (snd (call_soon 1 2 None 3 loop0))"
proof -
  have h: "queue_inv loop0"
    by (simp add: queue_inv_def EventLoop_new_def heap_inv_def objs_below_def)
  show ?thesis using h scheduling_keeps_queue_inv [OF h, of 1 2 None 3] by blast
qed

text \<open>
  \<^verbatim>\<open>call_soon\<close> and \<^verbatim>\<open>call_soon_threadsafe\<close> append to the ready queue, so callbacks keep the
  order in which they were scheduled; they allocate one fresh, uncancelled handle with the given
  callback and arguments, in the given context or, without one, in the copied context and the
  loop's base context respectively; the poller is woken by the thread-safe variant exactly when
  the loop is idle, and never by \<^verbatim>\<open>call_soon\<close>. \<^verbatim>\<open>_call_later\<close> adds one timer with deadline
  \<open>now + delay\<close> and leaves the ready queue alone.
\<close>

theorem call_soon_appends:
  "(let (h, w') = call_soon cb args context cur w in
      h = next_obj w \<and> handles_ready w' = handles_ready w @ [HCB h] \<and> trace w' = trace w
      \<and> handles_sched w' = handles_sched w
      \<and> cb_objs w' = (cb_objs w)(h \<mapsto> CBHandle_new cb args (case context of None \<Rightarrow> cur | Some c \<Rightarrow> c)))
   \<and> (let (h, w') = call_soon_threadsafe cb args context w in
      h = next_obj w \<and> handles_ready w' = handles_ready w @ [HCB h]
      \<and> trace w' = trace w @ (if idle w then [Wake] else [])
      \<and> handles_sched w' = handles_sched w
      \<and> cb_objs w' = (cb_objs w)(h \<mapsto> CBHandle_new cb args (case context of None \<Rightarrow> base_ctx w | Some c \<Rightarrow> c)))
   \<and> (let ((h, when), w') = call_later now delay cb args ctx w in
      h = next_obj w \<and> when = now + delay \<and> handles_ready w' = handles_ready w \<and> trace w' = trace w
      \<and> mset (handles_sched w') = add_mset \<lparr>t_handle = HCB h, t_when = when\<rparr> (mset (handles_sched w))
      \<and> cb_objs w' = (cb_objs w)(h \<mapsto> CBHandle_new cb args ctx))"
  by (auto simp: call_soon_def call_soon_threadsafe_def call_later_def new_handle_def push_ready_def
      push_sched_def ctx_or_base_def wake_def emit_def th.mset_heap_push Let_def)

text \<open>
  Cancelling. A cancelled \<^verbatim>\<open>CBHandle\<close> or no-argument handle reports itself cancelled
  wherever it is queued, and cancelling changes no queue. A one-argument handle, which is what
  \<^verbatim>\<open>schedule1\<close>, \<^verbatim>\<open>schedule\<close> and \<^verbatim>\<open>schedule_later1\<close> queue, has no \<^verbatim>\<open>cancelled\<close> of its own
  and never reports cancellation, although it has a \<^verbatim>\<open>cancel\<close> method that sets its flag.
\<close>

theorem cancel_one_arg_ignored:
  assumes "cb_objs w h = Some c"
  shows "handle_cancelled (HCB h) (cancel h w) = (\<not> (\<exists>a. cbargs c = OneArg a))
       \<and> handles_ready (cancel h w) = handles_ready w \<and> handles_sched (cancel h w) = handles_sched w
       \<and> (k \<noteq> HCB h \<longrightarrow> handle_cancelled k (cancel h w) = handle_cancelled k w)"
  using assms by (cases k) (auto simp: cancel_def cb_cancelled_def split: cb_args.splits)

theorem cancel_one_arg_ignored_witness:
  "cb_objs (schedule1 1 2 None loop0) 0 = Some (CBHandle_new1 1 2 0)
   \<and> \<not> handle_cancelled (HCB 0) (cancel 0 (schedule1 1 2 None loop0))"
proof -
  have h: "cb_objs (schedule1 1 2 None loop0) 0 = Some (CBHandle_new1 1 2 0)"
    by (simp add: schedule1_def new_handle_def ctx_or_base_def)
  show ?thesis using h cancel_one_arg_ignored [OF h, of HNoOp] by (simp add: CBHandle_new1_def)
qed

end
