(* ===== verification/Tcp_Transport.thy ===== *)
theory Tcp_Transport
  imports Scheduling
begin

text \<open>
  \<^verbatim>\<open>TCPTransport\<close> of \<^verbatim>\<open>tcp.rs\<close>: construction, writing, flow control, closing, and the two
  operations of \<^verbatim>\<open>EventLoop\<close> that look a transport up or drop it.

  A transport is named by its object number; a reference the code holds is always valid, so the
  outcome of \<open>with_tcp\<close> on an unknown number is never reached. The answers of the kernel and of
  the clock that one call may ask for are its argument \<open>K\<close>: the result of the \<^verbatim>\<open>write\<close> system
  call and the time in milliseconds.
\<close>

section \<open>Access to the transport\<close>

datatype sysres = SysOk nat | SysInterrupted | SysWouldBlock | SysErr string

record kernel =
  k_write :: sysres
  k_now :: nat

definition with_tcp :: "nat \<Rightarrow> 'c world \<Rightarrow> ('c TCPTransport \<Rightarrow> 'a outcome) \<Rightarrow> 'a outcome" where
  "with_tcp t w k = (case tcp_objs w t of None \<Rightarrow> Panic UnwrapNone | Some T \<Rightarrow> k T)"

definition upd_tcp :: "nat \<Rightarrow> ('c TCPTransport \<Rightarrow> 'c TCPTransport) \<Rightarrow> 'c world \<Rightarrow> 'c world" where
  "upd_tcp t g w = w\<lparr>tcp_objs := (tcp_objs w)(t := map_option g (tcp_objs w t))\<rparr>"

definition upd_state ::
  "nat \<Rightarrow> ('c TCPTransportState \<Rightarrow> 'c TCPTransportState) \<Rightarrow> 'c world \<Rightarrow> 'c world" where
  "upd_state t g = upd_tcp t (\<lambda>T. T\<lparr>tstate := g (tstate T)\<rparr>)"

text \<open>\<^verbatim>\<open>self.state.borrow()\<close>, and \<^verbatim>\<open>borrow_mut()\<close> for a statement that calls nothing else.\<close>

definition borrow ::
  "nat \<Rightarrow> 'c world \<Rightarrow> ('c TCPTransportState \<Rightarrow> 'a outcome) \<Rightarrow> 'a outcome" where
  "borrow t w k =
     with_tcp t w (\<lambda>T. if state_mut T then Panic AlreadyBorrowed else k (tstate T))"

section \<open>Construction\<close>

definition TCPTransport_new ::
  "fd \<Rightarrow> pyobj \<Rightarrow> bool \<Rightarrow> fd option \<Rightarrow> nat option \<Rightarrow> 'c TCPTransport" where
  "TCPTransport_new f pyproto buffered lf env_timeout =
     (let wh = 1024 * 64; wl = wh div 4 in
      \<lparr>tfd = f, lfd = lf,
       tstate = \<lparr>tls_conn = None, handshake_complete = False, connection_made_called = False,
                 write_buf = [], write_buf_dsize = 0, tls_close_sent = False,
                 tls_close_received = False, tls_close_sent_time = None,
                 tls_pending_close = False,
                 ssl_close_timeout = (case env_timeout of None \<Rightarrow> 1000 | Some v \<Rightarrow> v)\<rparr>,
       state_mut = False, closing = False, paused = False, water_hi = wh, water_lo = wl,
       weof = False, proto = pyproto, proto_buffered = buffered, proto_paused = False\<rparr>)"

text \<open>\<^verbatim>\<open>from_py\<close>: the protocol factory is called, and an exception of it is unwrapped.\<close>

definition TCPTransport_from_py ::
  "'c ext \<Rightarrow> fd \<Rightarrow> pyobj \<Rightarrow> 'c world \<Rightarrow> ('c TCPTransport \<times> 'c world) outcome" where
  "TCPTransport_from_py E f proto_factory w =
     (case call_py E (ProtoFactory proto_factory) w of
        (PyErr _, _) \<Rightarrow> Panic UnwrapErr
      | (PyOk p _, w1) \<Rightarrow>
          Ret (TCPTransport_new f p (py_is_buffered E p) None (env_close_timeout E), w1))"

definition new_transport :: "'c TCPTransport \<Rightarrow> 'c world \<Rightarrow> nat \<times> 'c world" where
  "new_transport T w =
     (next_obj w, w\<lparr>tcp_objs := (tcp_objs w)(next_obj w \<mapsto> T), next_obj := Suc (next_obj w)\<rparr>)"

definition initialize_tls_server :: "'c \<Rightarrow> 'c TCPTransport \<Rightarrow> 'c TCPTransport" where
  "initialize_tls_server conn T =
     T\<lparr>tstate := (tstate T)\<lparr>tls_conn := Some conn, handshake_complete := False\<rparr>\<rparr>"

definition initialize_tls_client ::
  "'c ext \<Rightarrow> 'c \<Rightarrow> 'c TCPTransport \<Rightarrow> 'c world \<Rightarrow> ('c TCPTransport \<times> 'c world) outcome" where
  "initialize_tls_client E conn T w =
     (let T1 = T\<lparr>tstate := (tstate T)\<lparr>tls_conn := Some conn, handshake_complete := False\<rparr>\<rparr> in
      if tls_wants_write E conn
      then and_then (tcp_stream_add (tfd T) {WRITABLE} w) (\<lambda>w1. Ret (T1, w1))
      else Ret (T1, w))"

definition attach :: "'c ext \<Rightarrow> nat \<Rightarrow> 'c world \<Rightarrow> (pyobj pyresult \<times> 'c world) outcome" where
  "attach E t w =
     with_tcp t w (\<lambda>T. borrow t w (\<lambda>st.
       if tls_conn st = None then
         (case call_py E (ConnectionMade (proto T) t) w of
            (PyOk _ _, w1) \<Rightarrow> Ret (Inr (proto T), w1)
          | (PyErr e, w1) \<Rightarrow> Ret (Inl (PyExc e), w1))
       else Ret (Inr (proto T), w)))"

section \<open>Flow control\<close>

definition proto_pause :: "'c ext \<Rightarrow> nat \<Rightarrow> 'c world \<Rightarrow> 'c world outcome" where
  "proto_pause E t w =
     with_tcp t w (\<lambda>T.
       case call_py E (PauseWriting (proto T)) w of
         (PyOk _ _, w1) \<Rightarrow> Ret w1
       | (PyErr e, w1) \<Rightarrow>
           Ret (log_exception E
             (LogTransport e ''protocol.pause_writing() failed'' (proto T) t) w1))"

definition proto_resume :: "'c ext \<Rightarrow> nat \<Rightarrow> 'c world \<Rightarrow> 'c world outcome" where
  "proto_resume E t w =
     with_tcp t w (\<lambda>T.
       case call_py E (ResumeWriting (proto T)) w of
         (PyOk _ _, w1) \<Rightarrow> Ret w1
       | (PyErr e, w1) \<Rightarrow>
           Ret (log_exception E
             (LogTransport e ''protocol.resume_writing() failed'' (proto T) t) w1))"

definition write_buf_size_decr :: "'c ext \<Rightarrow> nat \<Rightarrow> 'c world \<Rightarrow> 'c world outcome" where
  "write_buf_size_decr E t w =
     with_tcp t w (\<lambda>T. borrow t w (\<lambda>st.
       if write_buf_dsize st \<le> water_lo T \<and> proto_paused T
       then proto_resume E t (upd_tcp t (\<lambda>T. T\<lparr>proto_paused := False\<rparr>) w)
       else Ret w))"

text \<open>The marks of \<^verbatim>\<open>set_write_buffer_limits\<close>, high mark first.\<close>

definition buffer_limits :: "nat option \<Rightarrow> nat option \<Rightarrow> nat \<times> nat" where
  "buffer_limits high low =
     (let wh = (case high of None \<Rightarrow> (case low of None \<Rightarrow> 1024 * 64 | Some v \<Rightarrow> usize_mul v 4)
                | Some v \<Rightarrow> v);
          wl = (case low of None \<Rightarrow> wh div 4 | Some v \<Rightarrow> v)
      in (wh, wl))"

definition set_write_buffer_limits ::
  "'c ext \<Rightarrow> nat \<Rightarrow> nat option \<Rightarrow> nat option \<Rightarrow> 'c world \<Rightarrow> (unit pyresult \<times> 'c world) outcome" where
  "set_write_buffer_limits E t high low w =
     (case buffer_limits high low of (wh, wl) \<Rightarrow>
      if wh < wl then Ret (Inl (ValueError ''high must be >= low must be >= 0''), w)
      else (let w1 = upd_tcp t (\<lambda>T. T\<lparr>water_hi := wh, water_lo := wl\<rparr>) w in
            with_tcp t w1 (\<lambda>T. borrow t w1 (\<lambda>st.
              if write_buf_dsize st > wh \<and> \<not> proto_paused T
              then and_then (proto_pause E t (upd_tcp t (\<lambda>T. T\<lparr>proto_paused := True\<rparr>) w1))
                     (\<lambda>w2. Ret (Inr (), w2))
              else Ret (Inr (), w1)))))"

definition get_write_buffer_size :: "nat \<Rightarrow> 'c world \<Rightarrow> nat outcome" where
  "get_write_buffer_size t w = borrow t w (\<lambda>st. Ret (write_buf_dsize st))"

definition get_write_buffer_limits :: "'c TCPTransport \<Rightarrow> nat \<times> nat" where
  "get_write_buffer_limits T = (water_lo T, water_hi T)"

section \<open>Closing\<close>

definition is_tls :: "nat \<Rightarrow> 'c world \<Rightarrow> bool outcome" where
  "is_tls t w = borrow t w (\<lambda>st. Ret (tls_conn st \<noteq> None))"

definition get_tcp_transport :: "fd \<Rightarrow> 'c world \<Rightarrow> nat option" where
  "get_tcp_transport f w = tcp_transports w f"

text \<open>
  The bytes a \<^verbatim>\<open>write\<close> system call gave to the kernel, as the trace records them.
\<close>

definition sys_write :: "fd \<Rightarrow> bytes \<Rightarrow> sysres \<Rightarrow> 'c world \<Rightarrow> 'c world" where
  "sys_write f data r w =
     (case r of SysOk n \<Rightarrow> emit (Sent f (take n data)) w | _ \<Rightarrow> w)"

text \<open>
  Queueing and flushing the close alert: \<^verbatim>\<open>send_close_notify\<close>, \<^verbatim>\<open>write_tls\<close> into a local
  buffer, the flags, and one unchecked \<^verbatim>\<open>write\<close>.
\<close>

definition send_close_alert :: "'c ext \<Rightarrow> kernel \<Rightarrow> nat \<Rightarrow> 'c world \<Rightarrow> 'c world outcome" where
  "send_close_alert E K t w =
     with_tcp t w (\<lambda>T. borrow t w (\<lambda>st.
       case tls_conn st of
         None \<Rightarrow> Ret w
       | Some c \<Rightarrow>
           (let (_, tls_buf, c') = tls_write_tls E (tls_send_close_notify E c);
                w1 = upd_state t (\<lambda>st. st\<lparr>tls_conn := Some c', tls_close_sent := True,
                        tls_close_sent_time := Some (k_now K)\<rparr>) w
            in Ret (if tls_buf \<noteq> [] then sys_write (tfd T) tls_buf (k_write K) w1 else w1))))"

text \<open>
  \<^verbatim>\<open>TCPTransport::close\<close> after the flag has been set, for a transport with a TLS connection.
  The last step looks the transport up in the loop and unwraps the result; it only fetches the
  attribute \<^verbatim>\<open>call_connection_lost\<close>, it does not call it.
\<close>

definition close_tls :: "'c ext \<Rightarrow> kernel \<Rightarrow> nat \<Rightarrow> 'c world \<Rightarrow> 'c world outcome" where
  "close_tls E K t w =
     with_tcp t w (\<lambda>T. borrow t w (\<lambda>st.
       if write_buf st \<noteq> [] then Ret (upd_state t (\<lambda>st. st\<lparr>tls_pending_close := True\<rparr>) w)
       else and_then (send_close_alert E K t w) (\<lambda>w1.
            and_then (tcp_stream_rem (tfd T) {WRITABLE} w1) (\<lambda>w2.
            and_then (unwrap (get_tcp_transport (tfd T) w2)) (\<lambda>_. Ret w2)))))"

text \<open>
  \<^verbatim>\<open>EventLoop::tcp_stream_close\<close>. Its call of \<^verbatim>\<open>close\<close> is made on transports with TLS only, so
  it is the flag test followed by \<open>close_tls\<close>.
\<close>

definition tcp_stream_close :: "'c ext \<Rightarrow> kernel \<Rightarrow> fd \<Rightarrow> 'c world \<Rightarrow> 'c world outcome" where
  "tcp_stream_close E K f w =
     (case tcp_transports w f of
        None \<Rightarrow> Ret w
      | Some t \<Rightarrow>
          (let w1 = w\<lparr>tcp_transports := (tcp_transports w)(f := None)\<rparr> in
           and_then (is_tls t w1) (\<lambda>tls.
           and_then (if tls then
                       with_tcp t w1 (\<lambda>T.
                         if closing T then Ret w1
                         else close_tls E K t (upd_tcp t (\<lambda>T. T\<lparr>closing := True\<rparr>) w1))
                     else Ret w1) (\<lambda>w2.
           with_tcp t w2 (\<lambda>T.
             case lfd T of
               None \<Rightarrow> Ret w2
             | Some l \<Rightarrow>
                 Ret (case tcp_lstreams w2 l of
                        None \<Rightarrow> w2
                      | Some s \<Rightarrow> w2\<lparr>tcp_lstreams := (tcp_lstreams w2)(l \<mapsto> s - {f})\<rparr>))))))"

definition call_conn_lost ::
  "'c ext \<Rightarrow> kernel \<Rightarrow> nat \<Rightarrow> pyerr option \<Rightarrow> 'c world \<Rightarrow> 'c world outcome" where
  "call_conn_lost E K t err w =
     with_tcp t w (\<lambda>T.
       tcp_stream_close E K (tfd T) (snd (call_py E (ConnectionLost (proto T) err) w)))"

definition tcp_close :: "'c ext \<Rightarrow> kernel \<Rightarrow> nat \<Rightarrow> 'c world \<Rightarrow> 'c world outcome" where
  "tcp_close E K t w =
     with_tcp t w (\<lambda>T.
       if closing T then Ret w
       else (let w1 = upd_tcp t (\<lambda>T. T\<lparr>closing := True\<rparr>) w in
             and_then (is_tls t w1) (\<lambda>tls.
               if tls then close_tls E K t w1
               else and_then (tcp_stream_rem (tfd T) {READABLE} w1) (\<lambda>w2.
                    borrow t w2 (\<lambda>st.
                      if write_buf_dsize st = 0 \<or> tls_conn st \<noteq> None
                      then and_then (tcp_stream_rem (tfd T) {WRITABLE} w2) (\<lambda>w3.
                           call_conn_lost E K t None w3)
                      else Ret w2)))))"

definition tcp_abort :: "'c ext \<Rightarrow> kernel \<Rightarrow> nat \<Rightarrow> 'c world \<Rightarrow> 'c world outcome" where
  "tcp_abort E K t w =
     with_tcp t w (\<lambda>T. borrow t w (\<lambda>st.
       and_then (if write_buf_dsize st > 0 then tcp_stream_rem (tfd T) {WRITABLE} w else Ret w) (\<lambda>w1.
       and_then (if \<not> closing T
                 then tcp_stream_rem (tfd T) {READABLE} (upd_tcp t (\<lambda>T. T\<lparr>closing := True\<rparr>) w1)
                 else Ret w1) (\<lambda>w2.
       call_conn_lost E K t None w2))))"

definition close_from_read_handle ::
  "'c ext \<Rightarrow> kernel \<Rightarrow> nat \<Rightarrow> 'c world \<Rightarrow> (bool \<times> 'c world) outcome" where
  "close_from_read_handle E K t w =
     with_tcp t w (\<lambda>T.
       if closing T then Ret (False, w)
       else (let w1 = upd_tcp t (\<lambda>T. T\<lparr>closing := True\<rparr>) w in
             borrow t w1 (\<lambda>st.
               if tls_conn st \<noteq> None then
                 and_then (tcp_close E K t w1) (\<lambda>w2. Ret (True, w2))
               else if write_buf st \<noteq> [] then Ret (False, w1)
               else and_then (tcp_stream_rem (tfd T) {WRITABLE} w1) (\<lambda>w2.
                    Ret (True, snd (call_py E (ConnectionLost (proto T) None) w2))))))"

definition close_from_write_handle ::
  "'c ext \<Rightarrow> nat \<Rightarrow> bool \<Rightarrow> 'c world \<Rightarrow> (bool option \<times> 'c world) outcome" where
  "close_from_write_handle E t errored w =
     with_tcp t w (\<lambda>T.
       if closing T then
         Ret (Some True,
              snd (call_py E (ConnectionLost (proto T)
                (if errored then Some (RuntimeError ''socket transport failed'') else None)) w))
       else Ret (if weof T then Some False else None, w))"

section \<open>Writing\<close>

text \<open>
  The error branch of the direct write: the state is still mutably borrowed when the connection
  is reported lost.
\<close>

definition try_write_failed ::
  "'c ext \<Rightarrow> kernel \<Rightarrow> nat \<Rightarrow> string \<Rightarrow> 'c world \<Rightarrow> 'c world outcome" where
  "try_write_failed E K t err w =
     with_tcp t w (\<lambda>T.
       and_then (if write_buf_dsize (tstate T) > 0 then tcp_stream_rem (tfd T) {WRITABLE} w
                 else Ret w) (\<lambda>w1.
       and_then (if \<not> closing T
                 then tcp_stream_rem (tfd T) {READABLE} (upd_tcp t (\<lambda>T. T\<lparr>closing := True\<rparr>) w1)
                 else Ret w1) (\<lambda>w2.
       call_conn_lost E K t (Some (RuntimeError err)) w2)))"

text \<open>The amount buffered, and the state after the attempt to write directly.\<close>

definition try_write_data ::
  "'c ext \<Rightarrow> kernel \<Rightarrow> nat \<Rightarrow> bytes \<Rightarrow> 'c world \<Rightarrow> (nat \<times> 'c world) outcome" where
  "try_write_data E K t data w =
     with_tcp t w (\<lambda>T.
       let buffer = (\<lambda>d. upd_state t (\<lambda>st. st\<lparr>write_buf := write_buf st @ [d]\<rparr>)) in
       if tls_conn (tstate T) \<noteq> None then Ret (length data, buffer data w)
       else if write_buf_dsize (tstate T) = 0 then
         (case k_write K of
            SysOk written \<Rightarrow>
              (let w1 = sys_write (tfd T) data (SysOk written) w in
               if written = length data then Ret (0, w1)
               else Ret (length data - written, buffer (drop written data) w1))
          | SysInterrupted \<Rightarrow> Ret (length data, buffer data w)
          | SysWouldBlock \<Rightarrow> Ret (length data, buffer data w)
          | SysErr err \<Rightarrow>
              and_then (try_write_failed E K t err w) (\<lambda>w1. Ret (0, w1)))
       else Ret (length data, buffer data w))"

definition try_write_account ::
  "'c ext \<Rightarrow> nat \<Rightarrow> nat \<Rightarrow> 'c world \<Rightarrow> 'c world outcome" where
  "try_write_account E t buf_added w =
     (if buf_added > 0 then
        with_tcp t w (\<lambda>T.
          and_then (if write_buf_dsize (tstate T) = 0 then tcp_stream_add (tfd T) {WRITABLE} w
                    else Ret w) (\<lambda>w1.
          let dsize = usize_add (write_buf_dsize (tstate T)) buf_added;
              w2 = upd_state t (\<lambda>st. st\<lparr>write_buf_dsize := dsize\<rparr>) w1
          in if dsize > water_hi T \<and> \<not> proto_paused T
             then proto_pause E t (upd_tcp t (\<lambda>T. T\<lparr>proto_paused := True\<rparr>) w2)
             else Ret w2))
      else Ret w)"

text \<open>\<^verbatim>\<open>try_write\<close>: the state is borrowed mutably from the first step on data to the end.\<close>

definition try_write ::
  "'c ext \<Rightarrow> kernel \<Rightarrow> nat \<Rightarrow> bytes \<Rightarrow> 'c world \<Rightarrow> (unit pyresult \<times> 'c world) outcome" where
  "try_write E K t data w =
     with_tcp t w (\<lambda>T.
       if weof T then Ret (Inl (RuntimeError ''Cannot write after EOF''), w)
       else if data = [] then Ret (Inr (), w)
       else and_then (is_tls t w) (\<lambda>_.
            and_then (try_write_data E K t data (upd_tcp t (\<lambda>T. T\<lparr>state_mut := True\<rparr>) w))
              (\<lambda>(buf_added, w1).
            and_then (try_write_account E t buf_added w1) (\<lambda>w2.
            Ret (Inr (), upd_tcp t (\<lambda>T. T\<lparr>state_mut := False\<rparr>) w2)))))"

text \<open>\<^verbatim>\<open>writelines\<close> joins its chunks first (\<^verbatim>\<open>b''.join(data)\<close>).\<close>

definition writelines ::
  "'c ext \<Rightarrow> kernel \<Rightarrow> nat \<Rightarrow> bytes list \<Rightarrow> 'c world \<Rightarrow> (unit pyresult \<times> 'c world) outcome" where
  "writelines E K t data w = try_write E K t (concat data) w"

definition write_eof :: "nat \<Rightarrow> 'c world \<Rightarrow> 'c world outcome" where
  "write_eof t w =
     with_tcp t w (\<lambda>T.
       if closing T then Ret w
       else if weof T then Ret w
       else (let w1 = upd_tcp t (\<lambda>T. T\<lparr>weof := True\<rparr>) w in
             borrow t w1 (\<lambda>st.
               Ret (if write_buf_dsize st = 0 then emit (ShutdownWrite (tfd T)) w1 else w1))))"

definition can_write_eof :: "'c TCPTransport \<Rightarrow> bool" where
  "can_write_eof T = (\<not> weof T)"

section \<open>Pausing the reading side\<close>

definition is_reading :: "'c TCPTransport \<Rightarrow> bool" where
  "is_reading T = (\<not> closing T \<and> \<not> paused T)"

definition pause_reading :: "nat \<Rightarrow> 'c world \<Rightarrow> 'c world outcome" where
  "pause_reading t w =
     with_tcp t w (\<lambda>T.
       if closing T then Ret w
       else if paused T then Ret w
       else tcp_stream_rem (tfd T) {READABLE} (upd_tcp t (\<lambda>T. T\<lparr>paused := True\<rparr>) w))"

definition resume_reading :: "nat \<Rightarrow> 'c world \<Rightarrow> 'c world outcome" where
  "resume_reading t w =
     with_tcp t w (\<lambda>T.
       if closing T then Ret w
       else if \<not> paused T then Ret w
       else tcp_stream_add (tfd T) {READABLE} (upd_tcp t (\<lambda>T. T\<lparr>paused := False\<rparr>) w))"

section \<open>The invariant and what Python leaves alone\<close>

text \<open>
  A transport at rest: the byte count is the number of bytes buffered, there are no empty chunks,
  the marks are ordered and nobody holds the state.
\<close>

definition tcp_ok :: "'c TCPTransport \<Rightarrow> bool" where
  "tcp_ok T =
     (write_buf_dsize (tstate T) = buf_len (write_buf (tstate T))
      \<and> buf_len (write_buf (tstate T)) < usize_max1 \<and> [] \<notin> set (write_buf (tstate T))
      \<and> water_lo T \<le> water_hi T \<and> \<not> state_mut T)"

text \<open>
  The same seen from the loop: the descriptor is free or holds this stream, and while the
  transport is attached and has data buffered, the stream is watched for writing.
\<close>

definition tcp_inv :: "nat \<Rightarrow> 'c world \<Rightarrow> bool" where
  "tcp_inv t w =
     (case tcp_objs w t of
        None \<Rightarrow> False
      | Some T \<Rightarrow>
          tcp_ok T \<and> owns IOTCPStream (tfd T) w \<and> io_wf w \<and> poll_agrees w
          \<and> (write_buf (tstate T) \<noteq> [] \<and> tcp_transports w (tfd T) = Some t
               \<longrightarrow> WRITABLE \<in> watching IOTCPStream (tfd T) w))"

text \<open>The abstract view of the sending side: what the kernel has, then what is buffered.\<close>

definition outgoing :: "'c TCPTransport \<Rightarrow> 'c world \<Rightarrow> bytes" where
  "outgoing T w = sent_bytes (tfd T) (trace w) @ concat (write_buf (tstate T))"

text \<open>
  A Python callback that does not use the transport: it stays as it is, nothing is sent on its
  descriptor, its registration stays, and the rest of the loop stays well formed.
\<close>

definition spared :: "nat \<Rightarrow> 'c TCPTransport \<Rightarrow> 'c world \<Rightarrow> 'c world \<Rightarrow> bool" where
  "spared t T w w' =
     (tcp_objs w' t = Some T
      \<and> (\<exists>us. trace w' = trace w @ us \<and> sent_bytes (tfd T) us = [])
      \<and> handles_io w' (tfd T) = handles_io w (tfd T)
      \<and> tcp_transports w' (tfd T) = tcp_transports w (tfd T)
      \<and> (io_wf w \<and> poll_agrees w \<longrightarrow> io_wf w' \<and> poll_agrees w'))"

definition py_spares :: "nat \<Rightarrow> 'c ext \<Rightarrow> bool" where
  "py_spares t E = (\<forall>c w T. tcp_objs w t = Some T \<longrightarrow> spared t T w (snd (py E c w)))"

text \<open>Python and TLS for the concrete examples: calls succeed and do nothing.\<close>

definition demo_ext :: "unit ext" where
  "demo_ext =
     \<lparr>py = (\<lambda>c w. (PyOk 0 False, w)), py_none = 0, py_conn_made = (\<lambda>p. Some p), py_is_buffered = (\<lambda>_. False),
      py_buffer_len = (\<lambda>_. Some 4), env_close_timeout = None, tls_new_server = (\<lambda>_. None),
      tls_new_client = (\<lambda>_ _. None), tls_wants_write = (\<lambda>_. False),
      tls_is_handshaking = (\<lambda>_. False), tls_send_close_notify = (\<lambda>c. c),
      tls_write_tls = (\<lambda>c. (True, [21], c)), tls_read_tls = (\<lambda>_ c. (True, c)),
      tls_process = (\<lambda>c. (Some False, c)), tls_reader_read = (\<lambda>_ c. (Some [], c)),
      tls_avail = (\<lambda>_. 0), tls_writer_write_all = (\<lambda>_ c. (True, c))\<rparr>"

lemma upd_tcp_simps [simp]:
  "tcp_objs (upd_tcp t g w) = (tcp_objs w)(t := map_option g (tcp_objs w t))"
  "trace (upd_tcp t g w) = trace w"
  "handles_io (upd_tcp t g w) = handles_io w"
  "tcp_transports (upd_tcp t g w) = tcp_transports w"
  "tcp_lstreams (upd_tcp t g w) = tcp_lstreams w"
  "next_obj (upd_tcp t g w) = next_obj w"
  by (simp_all add: upd_tcp_def)

lemma with_tcp_simps [simp]:
  "tcp_objs w t = Some T \<Longrightarrow> with_tcp t w k = k T"
  "tcp_objs w t = Some T \<Longrightarrow> \<not> state_mut T \<Longrightarrow> borrow t w h = h (tstate T)"
  "tcp_objs w t = Some T \<Longrightarrow> state_mut T \<Longrightarrow> borrow t w h = Panic AlreadyBorrowed"
  by (simp_all add: with_tcp_def borrow_def)

lemma io_preds_cong:
  "handles_io w' = handles_io w \<Longrightarrow> io_wf w' = io_wf w"
  "handles_io w' f = handles_io w f \<Longrightarrow> owns mk f w' = owns mk f w"
  "handles_io w' f = handles_io w f \<Longrightarrow> watching mk f w' = watching mk f w"
  "handles_io w' = handles_io w \<Longrightarrow> requested (trace w') = requested (trace w)
     \<Longrightarrow> poll_agrees w' = poll_agrees w"
  by (simp_all add: registry_defs)

lemma io_preds_upd_tcp [simp]:
  "io_wf (upd_tcp t g w) = io_wf w"
  "owns mk f (upd_tcp t g w) = owns mk f w"
  "watching mk f (upd_tcp t g w) = watching mk f w"
  "poll_agrees (upd_tcp t g w) = poll_agrees w"
  by (simp_all add: registry_defs)

lemma io_preds_transports [simp]:
  "io_wf (w\<lparr>tcp_transports := x\<rparr>) = io_wf w"
  "owns mk f (w\<lparr>tcp_transports := x\<rparr>) = owns mk f w"
  "watching mk f (w\<lparr>tcp_transports := x\<rparr>) = watching mk f w"
  "poll_agrees (w\<lparr>tcp_transports := x\<rparr>) = poll_agrees w"
  by (simp_all add: registry_defs)

lemma io_frame_fields:
  assumes "io_frame w w'"
  shows "tcp_objs w' = tcp_objs w" "tcp_transports w' = tcp_transports w"
    "tcp_lstreams w' = tcp_lstreams w" "sent_bytes f (trace w') = sent_bytes f (trace w)"
    "py_calls (trace w') = py_calls (trace w)"
proof -
  have w': "w' = w\<lparr>handles_io := handles_io w', trace := trace w'\<rparr>"
    using assms by (simp add: io_frame_def)
  show "tcp_objs w' = tcp_objs w" "tcp_transports w' = tcp_transports w"
    "tcp_lstreams w' = tcp_lstreams w"
    by (subst w', simp)+
  show "sent_bytes f (trace w') = sent_bytes f (trace w)"
    "py_calls (trace w') = py_calls (trace w)"
    using assms by (simp_all add: io_frame_def)
qed

lemma spared_refl [simp]: "tcp_objs w t = Some T \<Longrightarrow> spared t T w w"
  by (simp add: spared_def)

lemma spared_trans: "spared t T u v \<Longrightarrow> spared t T v w \<Longrightarrow> spared t T u w"
  unfolding spared_def by fastforce

lemma spared_sent: "spared t T w w' \<Longrightarrow> sent_bytes (tfd T) (trace w') = sent_bytes (tfd T) (trace w)"
  unfolding spared_def by fastforce

lemma spared_fields:
  assumes "spared t T w w'"
  shows "tcp_objs w' t = Some T" "owns mk (tfd T) w' = owns mk (tfd T) w"
    "watching mk (tfd T) w' = watching mk (tfd T) w"
    "tcp_transports w' (tfd T) = tcp_transports w (tfd T)"
    "io_wf w \<and> poll_agrees w \<longrightarrow> io_wf w' \<and> poll_agrees w'"
  using assms by (simp_all add: spared_def owns_def watching_def)

lemma spared_call_py:
  assumes "py_spares t E" "tcp_objs w t = Some T"
  shows "spared t T w (snd (call_py E c w))"
proof (rule spared_trans)
  show "spared t T w (emit (Py c) w)"
    using assms(2) by (simp add: spared_def poll_agrees_def io_wf_def)
  show "spared t T (emit (Py c) w) (snd (call_py E c w))"
    using assms by (simp add: py_spares_def call_py_def)
qed

lemma spared_log:
  assumes "py_spares t E" "tcp_objs w t = Some T"
  shows "spared t T w (log_exception E x w)"
  using spared_call_py [OF assms] by (simp add: log_exception_def split: prod.split)

lemma call_py_trace:
  assumes "py_spares t E" "tcp_objs w t = Some T"
  shows "\<exists>us. trace (snd (call_py E c w)) = trace w @ Py c # us"
proof -
  have "spared t T (emit (Py c) w) (snd (call_py E c w))"
    using assms by (simp add: py_spares_def call_py_def)
  then show ?thesis by (auto simp: spared_def)
qed

lemma spared_then_log:
  assumes "py_spares t E" "tcp_objs w t = Some T"
  shows "\<exists>w'. (case call_py E c w of (PyOk _ _, w1) \<Rightarrow> Ret w1
                | (PyErr e, w1) \<Rightarrow> Ret (log_exception E (x e) w1)) = Ret w'
           \<and> spared t T w w' \<and> (\<exists>us. trace w' = trace w @ Py c # us)"
proof -
  obtain r w1 where c: "call_py E c w = (r, w1)" by (cases "call_py E c w")
  have s1: "spared t T w w1" "\<exists>us. trace w1 = trace w @ Py c # us"
    using spared_call_py [OF assms, of c] call_py_trace [OF assms, of c] c by simp_all
  show ?thesis
  proof (cases r)
    case (PyErr e)
    have "tcp_objs w1 t = Some T" using s1 by (simp add: spared_def)
    then have s2: "spared t T w1 (log_exception E (x e) w1)" by (rule spared_log [OF assms(1)])
    then have "\<exists>us. trace (log_exception E (x e) w1) = trace w @ Py c # us"
      using s1(2) by (auto simp: spared_def)
    then show ?thesis using c PyErr s1 s2 spared_trans [OF s1(1) s2] by simp
  qed (use c s1 in simp)
qed

lemma spared_pause:
  assumes "py_spares t E" "tcp_objs w t = Some T"
  shows "\<exists>w'. proto_pause E t w = Ret w' \<and> spared t T w w'
           \<and> (\<exists>us. trace w' = trace w @ Py (PauseWriting (proto T)) # us)"
  using spared_then_log [OF assms, where c = "PauseWriting (proto T)"
      and x = "\<lambda>e. LogTransport e ''protocol.pause_writing() failed'' (proto T) t"] assms(2)
  by (simp add: proto_pause_def)

lemma spared_resume:
  assumes "py_spares t E" "tcp_objs w t = Some T"
  shows "\<exists>w'. proto_resume E t w = Ret w' \<and> spared t T w w'
           \<and> (\<exists>us. trace w' = trace w @ Py (ResumeWriting (proto T)) # us)"
  using spared_then_log [OF assms, where c = "ResumeWriting (proto T)"
      and x = "\<lambda>e. LogTransport e ''protocol.resume_writing() failed'' (proto T) t"] assms(2)
  by (simp add: proto_resume_def)

section \<open>Writing keeps the stream\<close>

text \<open>The first half of \<^verbatim>\<open>try_write\<close>: the bytes are with the kernel or at the end of the buffer.\<close>

definition write_answer_ok :: "bytes \<Rightarrow> sysres \<Rightarrow> bool" where
  "write_answer_ok data r = (case r of SysOk n \<Rightarrow> n \<le> length data | SysErr _ \<Rightarrow> False | _ \<Rightarrow> True)"

abbreviation set_buf :: "bytes list \<Rightarrow> 'c TCPTransport \<Rightarrow> 'c TCPTransport" where
  "set_buf B T \<equiv> T\<lparr>tstate := (tstate T)\<lparr>write_buf := B\<rparr>\<rparr>"

lemma buf_len_0: "[] \<notin> set bs \<Longrightarrow> buf_len bs = 0 \<longleftrightarrow> bs = []"
  by (cases bs) auto

lemma try_write_data_spec:
  assumes "tcp_objs w t = Some T" "data \<noteq> []"
    and "write_buf_dsize (tstate T) = buf_len (write_buf (tstate T))"
    and "[] \<notin> set (write_buf (tstate T))"
    and "write_answer_ok data (k_write K)"
  shows "\<exists>added w1 B. try_write_data E K t data w = Ret (added, w1)
           \<and> tcp_objs w1 t = Some (set_buf B T)
           \<and> sent_bytes (tfd T) (trace w1) @ concat B = outgoing T w @ data
           \<and> buf_len B = buf_len (write_buf (tstate T)) + added \<and> [] \<notin> set B
           \<and> added \<le> length data \<and> (added = 0 \<longrightarrow> B = [])
           \<and> handles_io w1 = handles_io w \<and> tcp_transports w1 = tcp_transports w
           \<and> requested (trace w1) = requested (trace w)"
proof -
  have buffered: ?thesis
    if "try_write_data E K t data w =
          Ret (length data, upd_state t (\<lambda>st. st\<lparr>write_buf := write_buf st @ [data]\<rparr>) w)"
    using that assms
    by (auto simp: upd_state_def outgoing_def intro!: exI [of _ "write_buf (tstate T) @ [data]"])
  show ?thesis
  proof (cases "tls_conn (tstate T) = None \<and> write_buf_dsize (tstate T) = 0")
    case False
    then show ?thesis using assms(1) by (intro buffered) (auto simp: try_write_data_def)
  next
    case True
    then have e: "write_buf (tstate T) = []" using assms(3,4) by (simp add: buf_len_0)
    show ?thesis
    proof (cases "k_write K")
      case (SysOk n)
      then have "n \<le> length data" using assms(5) by (simp add: write_answer_ok_def)
      with SysOk True e assms(1,2) show ?thesis
        by (cases "n = length data")
           (auto simp: try_write_data_def sys_write_def upd_state_def outgoing_def Let_def
             intro!: exI [of _ "[drop n data]"])
    next
      case (SysErr x)
      then show ?thesis using assms(5) by (simp add: write_answer_ok_def)
    qed (use True buffered assms(1) in \<open>simp_all add: try_write_data_def\<close>)
  qed
qed

lemma try_write_account_spec:
  assumes T: "tcp_objs w t = Some T" "state_mut T" "py_spares t E"
    and d: "write_buf_dsize (tstate T) + added = buf_len (write_buf (tstate T))"
      "buf_len (write_buf (tstate T)) < usize_max1"
    and io: "owns IOTCPStream (tfd T) w" "io_wf w" "poll_agrees w"
    and watch: "write_buf_dsize (tstate T) \<noteq> 0 \<and> tcp_transports w (tfd T) = Some t
        \<longrightarrow> WRITABLE \<in> watching IOTCPStream (tfd T) w"
  shows "\<exists>w' T'. try_write_account E t added w = Ret w' \<and> tcp_objs w' t = Some T'
      \<and> T' = T\<lparr>tstate := (tstate T)\<lparr>write_buf_dsize := buf_len (write_buf (tstate T))\<rparr>,
               proto_paused := (proto_paused T \<or> added > 0 \<and> buf_len (write_buf (tstate T)) > water_hi T)\<rparr>
      \<and> sent_bytes (tfd T) (trace w') = sent_bytes (tfd T) (trace w)
      \<and> owns IOTCPStream (tfd T) w' \<and> io_wf w' \<and> poll_agrees w'
      \<and> tcp_transports w' (tfd T) = tcp_transports w (tfd T)
      \<and> (buf_len (write_buf (tstate T)) \<noteq> 0 \<and> tcp_transports w' (tfd T) = Some t
            \<longrightarrow> WRITABLE \<in> watching IOTCPStream (tfd T) w')"
proof (cases "added = 0")
  case True
  then show ?thesis using assms by (simp add: try_write_account_def)
next
  case False
  let ?B = "buf_len (write_buf (tstate T))"
  let ?T2 = "T\<lparr>tstate := (tstate T)\<lparr>write_buf_dsize := ?B\<rparr>\<rparr>"
  obtain w1 where w1: "(if write_buf_dsize (tstate T) = 0 then tcp_stream_add (tfd T) {WRITABLE} w
        else Ret w) = Ret w1" "io_frame w w1" "io_wf w1" "poll_agrees w1"
      "owns IOTCPStream (tfd T) w1"
      "tcp_transports w (tfd T) = Some t \<longrightarrow> WRITABLE \<in> watching IOTCPStream (tfd T) w1"
  proof (cases "write_buf_dsize (tstate T) = 0")
    case True
    then show ?thesis using tcp_src.add_keeps [OF io, of WRITABLE] that by auto
  qed (use io watch that in auto)
  let ?w2 = "upd_state t (\<lambda>st. st\<lparr>write_buf_dsize := ?B\<rparr>) w1"
  note fr = io_frame_fields [OF w1(2)]
  have run: "try_write_account E t added w =
      (if ?B > water_hi T \<and> \<not> proto_paused T
       then proto_pause E t (upd_tcp t (\<lambda>T. T\<lparr>proto_paused := True\<rparr>) ?w2) else Ret ?w2)"
    using False w1(1) T(1) d by (simp add: try_write_account_def Let_def)
  show ?thesis
  proof (cases "?B > water_hi T \<and> \<not> proto_paused T")
    case True
    have "tcp_objs (upd_tcp t (\<lambda>T. T\<lparr>proto_paused := True\<rparr>) ?w2) t = Some (?T2\<lparr>proto_paused := True\<rparr>)"
      using T(1) fr(1) by (simp add: upd_state_def)
    from spared_pause [OF T(3) this] obtain w' where w': "proto_pause E t (upd_tcp t (\<lambda>T. T\<lparr>proto_paused := True\<rparr>) ?w2) = Ret w'"
      "spared t (?T2\<lparr>proto_paused := True\<rparr>) (upd_tcp t (\<lambda>T. T\<lparr>proto_paused := True\<rparr>) ?w2) w'"
      by blast
    note sp = spared_fields [OF w'(2)] spared_sent [OF w'(2)]
    show ?thesis using run True False T w1 fr w'(1) sp by (simp add: upd_state_def)
  next
    case False
    then have paused: "(proto_paused T \<or> added > 0 \<and> ?B > water_hi T) = proto_paused T" by blast
    have "try_write_account E t added w = Ret ?w2" using run False by simp
    moreover have "tcp_objs ?w2 t = Some ?T2" using T(1) fr(1) by (simp add: upd_state_def)
    ultimately show ?thesis unfolding paused using w1(3-6) fr(2,4) by (simp add: upd_state_def)
  qed
qed

lemma tcp_inv_SomeD:
  assumes "tcp_inv t w" "tcp_objs w t = Some T"
  shows "tcp_ok T" "owns IOTCPStream (tfd T) w" "io_wf w" "poll_agrees w"
    "write_buf (tstate T) \<noteq> [] \<Longrightarrow> tcp_transports w (tfd T) = Some t
       \<Longrightarrow> WRITABLE \<in> watching IOTCPStream (tfd T) w"
  using assms by (auto simp: tcp_inv_def)

lemma tcp_inv_SomeI:
  assumes "tcp_objs w t = Some T" "tcp_ok T" "owns IOTCPStream (tfd T) w" "io_wf w" "poll_agrees w"
    and "write_buf (tstate T) \<noteq> [] \<and> tcp_transports w (tfd T) = Some t
       \<longrightarrow> WRITABLE \<in> watching IOTCPStream (tfd T) w"
  shows "tcp_inv t w"
  using assms by (simp add: tcp_inv_def)

lemma tcp_okD:
  assumes "tcp_ok T"
  shows "write_buf_dsize (tstate T) = buf_len (write_buf (tstate T))"
    "buf_len (write_buf (tstate T)) < usize_max1" "[] \<notin> set (write_buf (tstate T))"
    "water_lo T \<le> water_hi T" "\<not> state_mut T"
    "write_buf_dsize (tstate T) = 0 \<longleftrightarrow> write_buf (tstate T) = []"
  using assms buf_len_0 by (auto simp: tcp_ok_def)

section \<open>Properties of writing and flow control\<close>

lemma try_write_spec:
  assumes inv: "tcp_inv t w" and T: "tcp_objs w t = Some T" "\<not> weof T" and data: "data \<noteq> []"
    and py: "py_spares t E" and k: "write_answer_ok data (k_write K)"
    and fits: "buf_len (write_buf (tstate T)) + length data < usize_max1"
  shows "\<exists>w' T' B. try_write E K t data w = Ret (Inr (), w') \<and> tcp_objs w' t = Some T'
           \<and> T' = T\<lparr>tstate := (tstate T)\<lparr>write_buf := B, write_buf_dsize := buf_len B\<rparr>,
                    proto_paused := (proto_paused T \<or> buf_len B > water_hi T)\<rparr>
           \<and> outgoing T' w' = outgoing T w @ data \<and> tcp_inv t w'
           \<and> tcp_transports w' (tfd T) = tcp_transports w (tfd T)
           \<and> buf_len B \<le> buf_len (write_buf (tstate T)) + length data"
proof -
  note ok = tcp_okD [OF tcp_inv_SomeD(1) [OF inv T(1)]]
  let ?w0 = "upd_tcp t (\<lambda>T. T\<lparr>state_mut := True\<rparr>) w" and ?T0 = "T\<lparr>state_mut := True\<rparr>"
  have T0: "tcp_objs ?w0 t = Some ?T0" using T by simp
  obtain added w1 B where w1: "try_write_data E K t data ?w0 = Ret (added, w1)"
    "tcp_objs w1 t = Some (set_buf B ?T0)"
    "sent_bytes (tfd T) (trace w1) @ concat B = outgoing T w @ data"
    "buf_len B = buf_len (write_buf (tstate T)) + added" "[] \<notin> set B" "added \<le> length data"
    "added = 0 \<longrightarrow> B = []" "handles_io w1 = handles_io ?w0"
    "tcp_transports w1 = tcp_transports ?w0" "requested (trace w1) = requested (trace ?w0)"
    using try_write_data_spec [OF T0 data _ _ k, of E] ok by (auto simp: outgoing_def)
  have io: "owns IOTCPStream (tfd T) w1" "io_wf w1" "poll_agrees w1"
    "watching IOTCPStream (tfd T) w1 = watching IOTCPStream (tfd T) w"
    using tcp_inv_SomeD(2-4) [OF inv T(1)] w1(8,10)
    by (simp_all add: registry_defs)
  obtain w2 where w2: "try_write_account E t added w1 = Ret w2"
    "tcp_objs w2 t = Some (?T0\<lparr>tstate := (tstate T)\<lparr>write_buf := B, write_buf_dsize := buf_len B\<rparr>,
       proto_paused := (proto_paused T \<or> added > 0 \<and> buf_len B > water_hi T)\<rparr>)"
    "sent_bytes (tfd T) (trace w2) = sent_bytes (tfd T) (trace w1)"
    "owns IOTCPStream (tfd T) w2" "io_wf w2" "poll_agrees w2"
    "buf_len B \<noteq> 0 \<and> tcp_transports w2 (tfd T) = Some t \<longrightarrow> WRITABLE \<in> watching IOTCPStream (tfd T) w2"
    "tcp_transports w2 (tfd T) = tcp_transports w (tfd T)"
  proof -
    let ?T1 = "set_buf B ?T0"
    have "write_buf_dsize (tstate ?T1) \<noteq> 0 \<and> tcp_transports w1 (tfd ?T1) = Some t
        \<longrightarrow> WRITABLE \<in> watching IOTCPStream (tfd ?T1) w1"
      using io(4) w1(9) ok(6) tcp_inv_SomeD(5) [OF inv T(1)] by auto
    note watch = this
    have acc: "state_mut ?T1" "write_buf_dsize (tstate ?T1) + added = buf_len (write_buf (tstate ?T1))"
      "buf_len (write_buf (tstate ?T1)) < usize_max1" "owns IOTCPStream (tfd ?T1) w1"
      using io(1) w1(4,6) ok(1) fits by simp_all
    obtain w2 T2 where "try_write_account E t added w1 = Ret w2" "tcp_objs w2 t = Some T2"
      "T2 = ?T1\<lparr>tstate := (tstate ?T1)\<lparr>write_buf_dsize := buf_len (write_buf (tstate ?T1))\<rparr>,
         proto_paused := (proto_paused ?T1 \<or> added > 0 \<and> buf_len (write_buf (tstate ?T1)) > water_hi ?T1)\<rparr>"
      "sent_bytes (tfd ?T1) (trace w2) = sent_bytes (tfd ?T1) (trace w1)"
      "owns IOTCPStream (tfd ?T1) w2" "io_wf w2" "poll_agrees w2"
      "tcp_transports w2 (tfd ?T1) = tcp_transports w1 (tfd ?T1)"
      "buf_len (write_buf (tstate ?T1)) \<noteq> 0 \<and> tcp_transports w2 (tfd ?T1) = Some t
         \<longrightarrow> WRITABLE \<in> watching IOTCPStream (tfd ?T1) w2"
      using try_write_account_spec [OF w1(2) acc(1) py acc(2-4) io(2,3) watch] by (elim exE conjE)
    then show ?thesis using w1(9) by (intro that [of w2]) simp_all
  qed
  let ?w3 = "upd_tcp t (\<lambda>T. T\<lparr>state_mut := False\<rparr>) w2"
  let ?T3 = "T\<lparr>tstate := (tstate T)\<lparr>write_buf := B, write_buf_dsize := buf_len B\<rparr>,
       proto_paused := (proto_paused T \<or> buf_len B > water_hi T)\<rparr>"
  have run: "try_write E K t data w = Ret (Inr (), ?w3)"
    using T data ok(5) w1(1) w2(1) by (simp add: try_write_def is_tls_def)
  have T3: "tcp_objs ?w3 t = Some ?T3"
    using w2(2) w1(7) ok(5) by (cases "added = 0") simp_all
  have "tcp_ok ?T3" using w1(4-6) fits ok by (simp add: tcp_ok_def)
  then have "tcp_inv t ?w3" using w2(4-7) w1(5) by (intro tcp_inv_SomeI [OF T3]) (auto simp: buf_len_0)
  moreover have "outgoing ?T3 ?w3 = outgoing T w @ data"
    using w1(3) w2(3) by (simp add: outgoing_def)
  moreover have "buf_len B \<le> buf_len (write_buf (tstate T)) + length data" using w1(4,6) by simp
  ultimately show ?thesis using run T3 w2(8) by (intro exI [of _ ?w3] exI [of _ ?T3] exI [of _ B]) simp
qed

text \<open>
  C9. \<^verbatim>\<open>write\<close> on a transport at rest, with any answer of the kernel but an error: it
  succeeds; the bytes given to the kernel followed by the bytes still buffered are exactly those
  of before followed by the new data, so nothing is lost, repeated or reordered; the protocol is
  paused exactly if it was or the buffer is now above the high mark; and the invariant holds
  again, in particular an attached stream with buffered data is watched for writing.
\<close>

theorem try_write_correct:
  assumes inv: "tcp_inv t w" and T: "tcp_objs w t = Some T" "\<not> weof T" and data: "data \<noteq> []"
    and py: "py_spares t E" and k: "write_answer_ok data (k_write K)"
    and fits: "buf_len (write_buf (tstate T)) + length data < usize_max1"
  shows "\<exists>w' T' B. try_write E K t data w = Ret (Inr (), w') \<and> tcp_objs w' t = Some T'
           \<and> T' = T\<lparr>tstate := (tstate T)\<lparr>write_buf := B, write_buf_dsize := buf_len B\<rparr>,
                    proto_paused := (proto_paused T \<or> buf_len B > water_hi T)\<rparr>
           \<and> outgoing T' w' = outgoing T w @ data \<and> tcp_inv t w'"
  using try_write_spec [OF assms] by blast

text \<open>A loop with one attached transport, for the concrete examples.\<close>

definition demo_world :: "unit TCPTransport \<Rightarrow> unit world" where
  "demo_world T =
     (EventLoop_new 0 0)\<lparr>tcp_objs := [0 \<mapsto> T], tcp_transports := [tfd T \<mapsto> 0],
        handles_io := [tfd T \<mapsto> IOTCPStream {READABLE}],
        trace := [Poll (Register (tfd T) {READABLE})], next_obj := 1\<rparr>"

abbreviation demo_tcp :: "unit TCPTransport" where
  "demo_tcp \<equiv> TCPTransport_new 7 5 False None None"

lemma demo_world_inv:
  "tcp_ok T \<Longrightarrow> write_buf (tstate T) = [] \<Longrightarrow> tcp_inv 0 (demo_world T)"
  by (simp add: demo_world_def tcp_inv_def registry_defs requested_def)

lemma demo_tcp_ok: "tcp_ok demo_tcp"
  by (simp add: tcp_ok_def TCPTransport_new_def Let_def)

lemma demo_world_simps [simp]:
  "tcp_objs (demo_world T) 0 = Some T"
  "tcp_transports (demo_world T) = [tfd T \<mapsto> 0]"
  "watching mk (tfd T) (demo_world T) = {READABLE}"
  by (simp_all add: demo_world_def watching_def)

lemma demo_ext_spares: "py_spares t demo_ext"
  by (simp add: py_spares_def demo_ext_def)

lemma demo_tcp_simps [simp]:
  "tfd demo_tcp = 7" "lfd demo_tcp = None" "weof demo_tcp = False" "closing demo_tcp = False"
  "paused demo_tcp = False" "state_mut demo_tcp = False" "proto demo_tcp = 5"
  "tls_conn (tstate demo_tcp) = None" "write_buf (tstate demo_tcp) = []"
  "write_buf_dsize (tstate demo_tcp) = 0" "tls_pending_close (tstate demo_tcp) = False"
  "proto_paused demo_tcp = False" "proto_buffered demo_tcp = False"
  by (simp_all add: TCPTransport_new_def Let_def)

theorem try_write_correct_witness:
  "tcp_inv 0 (demo_world demo_tcp) \<and> py_spares 0 demo_ext \<and>
   (\<exists>w' T'. try_write demo_ext \<lparr>k_write = SysOk 1, k_now = 0\<rparr> 0 [10, 20, 30] (demo_world demo_tcp)
        = Ret (Inr (), w') \<and> tcp_objs w' 0 = Some T'
      \<and> outgoing T' w' = [10, 20, 30] \<and> tcp_inv 0 w')"
proof -
  have inv: "tcp_inv 0 (demo_world demo_tcp)" by (rule demo_world_inv [OF demo_tcp_ok]) simp
  have "outgoing demo_tcp (demo_world demo_tcp) = []"
    by (simp add: outgoing_def demo_world_def)
  moreover have "write_answer_ok [10, 20, 30] (k_write \<lparr>k_write = SysOk 1, k_now = 0\<rparr>)"
    by (simp add: write_answer_ok_def)
  ultimately show ?thesis
    using try_write_correct [OF inv _ _ _ demo_ext_spares, of demo_tcp "[10, 20, 30]"
        "\<lparr>k_write = SysOk 1, k_now = 0\<rparr>"] inv demo_ext_spares
    by (simp add: usize_max1_def) blast
qed

text \<open>The marks asyncio documents, low mark first, on unbounded integers.\<close>

definition asyncio_limits :: "nat option \<Rightarrow> nat option \<Rightarrow> (nat \<times> nat) option" where
  "asyncio_limits high low =
     (let hi = (case high of Some h \<Rightarrow> h
                | None \<Rightarrow> (case low of None \<Rightarrow> 64 * 1024 | Some l \<Rightarrow> 4 * l));
          lo = (case low of None \<Rightarrow> hi div 4 | Some l \<Rightarrow> l)
      in if lo \<le> hi then Some (lo, hi) else None)"

lemma asyncio_limits_code:
  assumes "\<forall>l. low = Some l \<longrightarrow> 4 * l < usize_max1"
  shows "asyncio_limits high low =
     (case buffer_limits high low of (wh, wl) \<Rightarrow> if wh < wl then None else Some (wl, wh))"
  using assms
  by (cases high; cases low) (auto simp: asyncio_limits_def buffer_limits_def usize_mul_def Let_def mult.commute)

lemma set_write_buffer_limits_spec:
  assumes inv: "tcp_inv t w" and T: "tcp_objs w t = Some T" and py: "py_spares t E"
    and fits: "\<forall>l. low = Some l \<longrightarrow> 4 * l < usize_max1"
  shows "case asyncio_limits high low of
      None \<Rightarrow> set_write_buffer_limits E t high low w
                = Ret (Inl (ValueError ''high must be >= low must be >= 0''), w)
    | Some (lo, hi) \<Rightarrow>
        (\<exists>w' T'. set_write_buffer_limits E t high low w = Ret (Inr (), w')
           \<and> tcp_objs w' t = Some T' \<and> get_write_buffer_limits T' = (lo, hi)
           \<and> proto_paused T' = (proto_paused T \<or> buf_len (write_buf (tstate T)) > hi)
           \<and> tcp_inv t w' \<and> outgoing T' w' = outgoing T w
           \<and> T' = T\<lparr>water_hi := hi, water_lo := lo,
                    proto_paused := (proto_paused T \<or> buf_len (write_buf (tstate T)) > hi)\<rparr>
           \<and> tcp_transports w' (tfd T) = tcp_transports w (tfd T))"
proof (cases "asyncio_limits high low")
  case None
  then show ?thesis
    by (simp add: asyncio_limits_code [OF fits] set_write_buffer_limits_def split: prod.splits if_splits)
next
  case (Some p)
  then obtain lo hi where p: "p = (lo, hi)" by (cases p)
  note ok = tcp_inv_SomeD [OF inv T] and okT = tcp_okD [OF tcp_inv_SomeD(1) [OF inv T]]
  have lim: "buffer_limits high low = (hi, lo)" "lo \<le> hi"
    using Some p by (simp_all add: asyncio_limits_code [OF fits] split: prod.splits if_splits)
  note le = lim(2)
  let ?w1 = "upd_tcp t (\<lambda>T. T\<lparr>water_hi := hi, water_lo := lo\<rparr>) w"
  let ?T1 = "T\<lparr>water_hi := hi, water_lo := lo\<rparr>"
  let ?w2 = "upd_tcp t (\<lambda>T. T\<lparr>proto_paused := True\<rparr>) ?w1"
  have run: "set_write_buffer_limits E t high low w =
      (if buf_len (write_buf (tstate T)) > hi \<and> \<not> proto_paused T
       then and_then (proto_pause E t ?w2) (\<lambda>w2. Ret (Inr (), w2)) else Ret (Inr (), ?w1))"
    using T okT lim by (simp add: set_write_buffer_limits_def Let_def)
  show ?thesis
  proof (cases "buf_len (write_buf (tstate T)) > hi \<and> \<not> proto_paused T")
    case True
    have T2: "tcp_objs ?w2 t = Some (?T1\<lparr>proto_paused := True\<rparr>)" using T by simp
    obtain w' where w': "proto_pause E t ?w2 = Ret w'" "spared t (?T1\<lparr>proto_paused := True\<rparr>) ?w2 w'"
      using spared_pause [OF py T2] by blast
    note sp = spared_fields [OF w'(2)] spared_sent [OF w'(2)]
    have "tcp_inv t w'"
      by (rule tcp_inv_SomeI [OF sp(1)]) (use sp ok okT le in \<open>auto simp: tcp_ok_def\<close>)
    then show ?thesis using run True w'(1) sp(1,4,6) Some p
      by (simp add: get_write_buffer_limits_def outgoing_def)
  next
    case False
    have T1: "tcp_objs ?w1 t = Some ?T1" using T by simp
    have "tcp_inv t ?w1"
      by (rule tcp_inv_SomeI [OF T1]) (use ok okT le in \<open>auto simp: tcp_ok_def\<close>)
    then show ?thesis using run False T Some p
      by (auto simp: get_write_buffer_limits_def outgoing_def)
  qed
qed

text \<open>
  C24. \<^verbatim>\<open>set_write_buffer_limits\<close> computes the marks asyncio prescribes: from neither argument
  64 KiB and a quarter of it, from the low mark alone four times as much, from the high mark alone
  a quarter of it; marks in the wrong order are a \<^verbatim>\<open>ValueError\<close> that changes nothing; otherwise
  both marks are set and the protocol is paused if the buffer is above the new high mark.
\<close>

theorem set_write_buffer_limits_correct:
  assumes inv: "tcp_inv t w" and T: "tcp_objs w t = Some T" and py: "py_spares t E"
    and fits: "\<forall>l. low = Some l \<longrightarrow> 4 * l < usize_max1"
  shows "case asyncio_limits high low of
      None \<Rightarrow> set_write_buffer_limits E t high low w
                = Ret (Inl (ValueError ''high must be >= low must be >= 0''), w)
    | Some (lo, hi) \<Rightarrow>
        (\<exists>w' T'. set_write_buffer_limits E t high low w = Ret (Inr (), w')
           \<and> tcp_objs w' t = Some T' \<and> get_write_buffer_limits T' = (lo, hi)
           \<and> proto_paused T' = (proto_paused T \<or> buf_len (write_buf (tstate T)) > hi)
           \<and> tcp_inv t w' \<and> outgoing T' w' = outgoing T w)"
  using set_write_buffer_limits_spec [OF assms, of high] by (auto split: option.splits)

theorem set_write_buffer_limits_correct_witness:
  "tcp_inv 0 (demo_world demo_tcp) \<and> py_spares 0 demo_ext \<and> asyncio_limits None (Some 10) = Some (10, 40) \<and>
   (\<exists>w' T'. set_write_buffer_limits demo_ext 0 None (Some 10) (demo_world demo_tcp) = Ret (Inr (), w')
      \<and> tcp_objs w' 0 = Some T' \<and> get_write_buffer_limits T' = (10, 40))"
proof -
  have inv: "tcp_inv 0 (demo_world demo_tcp)" by (rule demo_world_inv [OF demo_tcp_ok]) simp
  have lim: "asyncio_limits None (Some 10) = Some (10, 40)" by (simp add: asyncio_limits_def)
  show ?thesis
    using set_write_buffer_limits_correct [OF inv _ demo_ext_spares, of demo_tcp "Some 10" None]
      lim inv demo_ext_spares
    by (simp add: usize_max1_def) blast
qed

section \<open>Properties of closing and of pausing the reader\<close>

lemma py_calls_Py_Cons: "py_calls (Py c # us) = c # py_calls us"
  by (simp add: py_calls_def)

lemma sent_bytes_Py_Cons: "sent_bytes f (Py c # us) = sent_bytes f us"
  by (simp add: sent_bytes_def)

text \<open>Dropping an attached transport without TLS.\<close>

definition drop_stream :: "'c TCPTransport \<Rightarrow> 'c world \<Rightarrow> 'c world" where
  "drop_stream T w =
     w\<lparr>tcp_transports := (tcp_transports w)(tfd T := None),
       tcp_lstreams := (case lfd T of None \<Rightarrow> tcp_lstreams w
         | Some l \<Rightarrow> (case tcp_lstreams w l of None \<Rightarrow> tcp_lstreams w
             | Some s \<Rightarrow> (tcp_lstreams w)(l \<mapsto> s - {tfd T})))\<rparr>"

lemma drop_stream_simps [simp]:
  "tcp_objs (drop_stream T w) = tcp_objs w"
  "trace (drop_stream T w) = trace w"
  "handles_io (drop_stream T w) = handles_io w"
  "tcp_transports (drop_stream T w) = (tcp_transports w)(tfd T := None)"
  "owns mk f (drop_stream T w) = owns mk f w"
  "watching mk f (drop_stream T w) = watching mk f w"
  "io_wf (drop_stream T w) = io_wf w"
  "poll_agrees (drop_stream T w) = poll_agrees w"
  by (simp_all add: drop_stream_def registry_defs)

lemma drop_stream_listener:
  "lfd T = Some l \<Longrightarrow> tcp_lstreams (drop_stream T w) l = Some s \<Longrightarrow> tfd T \<notin> s"
  by (auto simp: drop_stream_def split: option.splits)

lemma tcp_stream_close_drops:
  assumes "tcp_objs w t = Some T" "\<not> state_mut T" "tls_conn (tstate T) = None \<or> closing T"
    and "tcp_transports w (tfd T) = Some t"
  shows "tcp_stream_close E K (tfd T) w = Ret (drop_stream T w)"
  using assms
  by (auto simp: tcp_stream_close_def is_tls_def Let_def drop_stream_def split: option.splits)

lemma call_conn_lost_drops:
  assumes "tcp_objs w t = Some T" "\<not> state_mut T" "tls_conn (tstate T) = None \<or> closing T"
    and "tcp_transports w (tfd T) = Some t" "py_spares t E"
  shows "\<exists>w1. call_conn_lost E K t err w = Ret (drop_stream T w1) \<and> spared t T w w1
    \<and> (\<exists>us. trace w1 = trace w @ Py (ConnectionLost (proto T) err) # us)
    \<and> snd (call_py E (ConnectionLost (proto T) err) w) = w1"
proof -
  let ?w1 = "snd (call_py E (ConnectionLost (proto T) err) w)"
  have sp: "spared t T w ?w1" by (rule spared_call_py [OF assms(5,1)])
  have "tcp_stream_close E K (tfd T) ?w1 = Ret (drop_stream T ?w1)"
    using assms(2-4) spared_fields [OF sp] by (intro tcp_stream_close_drops) simp_all
  then show ?thesis
    using sp call_py_trace [OF assms(5,1)] assms(1) by (auto simp: call_conn_lost_def)
qed

lemma not_readable_sub: "READABLE \<notin> i \<Longrightarrow> i \<subseteq> {WRITABLE}"
  by (rule subsetI) (metis readiness.exhaust insertI1)

text \<open>The end of a connection, shared by \<open>close\<close> and by the read handle at end of file: the last
readiness is unregistered, the protocol is told, and the loop forgets the stream.\<close>

lemma lose_connection:
  assumes T: "tcp_objs w t = Some T" "tcp_ok T" "closing T" "write_buf (tstate T) = []"
    and io: "owns IOTCPStream (tfd T) w" "io_wf w" "poll_agrees w"
      "READABLE \<notin> watching IOTCPStream (tfd T) w"
    and att: "tcp_transports w (tfd T) = Some t" and py: "py_spares t E"
  obtains w3 w4 us where "tcp_stream_rem (tfd T) {WRITABLE} w = Ret w3"
    "snd (call_py E (ConnectionLost (proto T) None) w3) = w4"
    "call_conn_lost E K t None w3 = Ret (drop_stream T w4)"
    "tcp_stream_close E K (tfd T) w4 = Ret (drop_stream T w4)"
    "tcp_objs (drop_stream T w4) t = Some T" "tcp_inv t (drop_stream T w4)"
    "handles_io (drop_stream T w4) (tfd T) = None"
    "py_calls (trace (drop_stream T w4)) = py_calls (trace w) @ ConnectionLost (proto T) None # us"
    "sent_bytes (tfd T) (trace (drop_stream T w4)) = sent_bytes (tfd T) (trace w)"
proof -
  from tcp_src.rem_keeps [OF io(1-3), of WRITABLE]
  obtain w3 where w3: "tcp_stream_rem (tfd T) {WRITABLE} w = Ret w3"
    "watching IOTCPStream (tfd T) w \<subseteq> {WRITABLE} \<longrightarrow> handles_io w3 (tfd T) = None"
    "poll_agrees w3" "io_wf w3" "io_frame w w3" "owns IOTCPStream (tfd T) w3" by auto
  note f3 = io_frame_fields [OF w3(5)]
  have T3: "tcp_objs w3 t = Some T" "tcp_transports w3 (tfd T) = Some t" using f3(1,2) T(1) att by simp_all
  obtain w4 us where w4: "call_conn_lost E K t None w3 = Ret (drop_stream T w4)" "spared t T w3 w4"
    "trace w4 = trace w3 @ Py (ConnectionLost (proto T) None) # us"
    "snd (call_py E (ConnectionLost (proto T) None) w3) = w4"
    using call_conn_lost_drops [OF T3(1) _ _ T3(2) py, of K None] tcp_okD(5) [OF T(2)] T(3) by blast
  note sp = spared_fields [OF w4(2)] spared_sent [OF w4(2)]
  have T4: "tcp_objs (drop_stream T w4) t = Some T" using sp(1) by simp
  have close: "tcp_stream_close E K (tfd T) w4 = Ret (drop_stream T w4)"
    using tcp_stream_close_drops [OF sp(1)] tcp_okD(5) [OF T(2)] T(3) sp(4) T3(2) by simp
  have inv: "tcp_inv t (drop_stream T w4)"
    using sp(2,5) w3(3,4,6) T(2,4) by (intro tcp_inv_SomeI [OF T4]) simp_all
  have "handles_io (drop_stream T w4) (tfd T) = None"
    using w3(2) not_readable_sub [OF io(4)] w4(2) by (simp add: spared_def)
  from that [OF w3(1) w4(4,1) close T4 inv this, of "py_calls us"] show thesis
    using w4(3) f3(4,5) sp(6) by (simp add: py_calls_Py_Cons)
qed

lemma tcp_close_spec:
  assumes inv: "tcp_inv t w" and T: "tcp_objs w t = Some T" "tls_conn (tstate T) = None" "\<not> closing T"
    and att: "tcp_transports w (tfd T) = Some t" and py: "py_spares t E"
  shows "\<exists>w'. tcp_close E K t w = Ret w' \<and> tcp_objs w' t = Some (T\<lparr>closing := True\<rparr>)
           \<and> tcp_close E K t w' = Ret w' \<and> tcp_inv t w' \<and> outgoing T w' = outgoing T w
           \<and> (if write_buf (tstate T) = []
              then handles_io w' (tfd T) = None \<and> tcp_transports w' (tfd T) = None
                \<and> (\<forall>l s. lfd T = Some l \<and> tcp_lstreams w' l = Some s \<longrightarrow> tfd T \<notin> s)
                \<and> (\<exists>cs. py_calls (trace w') = py_calls (trace w) @ ConnectionLost (proto T) None # cs)
              else watching IOTCPStream (tfd T) w' = {WRITABLE}
                \<and> tcp_transports w' (tfd T) = Some t \<and> py_calls (trace w') = py_calls (trace w))"
proof -
  let ?w1 = "upd_tcp t (\<lambda>T. T\<lparr>closing := True\<rparr>) w" and ?T1 = "T\<lparr>closing := True\<rparr>"
  note ok = tcp_inv_SomeD [OF inv T(1)] and okT = tcp_okD [OF tcp_inv_SomeD(1) [OF inv T(1)]]
  have ok1: "tcp_ok ?T1" using ok(1) by (simp add: tcp_ok_def)
  have "owns IOTCPStream (tfd T) ?w1" "io_wf ?w1" "poll_agrees ?w1" using ok by simp_all
  from tcp_src.rem_keeps [OF this, of READABLE]
  obtain w2 where w2: "tcp_stream_rem (tfd T) {READABLE} ?w1 = Ret w2"
    "watching IOTCPStream (tfd T) w2 = watching IOTCPStream (tfd T) w - {READABLE}"
    "poll_agrees w2" "io_wf w2" "io_frame ?w1 w2" "owns IOTCPStream (tfd T) w2" by auto
  note f2 = io_frame_fields [OF w2(5)]
  have T2: "tcp_objs w2 t = Some ?T1" using f2(1) T by simp
  have run: "tcp_close E K t w = (if write_buf (tstate T) = []
      then and_then (tcp_stream_rem (tfd T) {WRITABLE} w2) (call_conn_lost E K t None) else Ret w2)"
    using T w2(1) T2 okT by (simp add: tcp_close_def is_tls_def Let_def)
  show ?thesis
  proof (cases "write_buf (tstate T) = []")
    case False
    then have "WRITABLE \<in> watching IOTCPStream (tfd T) w" using ok(5) att by simp
    then have "watching IOTCPStream (tfd T) w2 = {WRITABLE}"
      using w2(2) by (auto intro: readiness.exhaust)
    moreover from this have "tcp_inv t w2"
      using ok1 w2 by (intro tcp_inv_SomeI [OF T2]) simp_all
    moreover have "tcp_close E K t w2 = Ret w2" using T2 by (simp add: tcp_close_def)
    ultimately show ?thesis using False run T2 f2 att by (simp add: outgoing_def)
  next
    case True
    have T1: "tcp_ok ?T1" "closing ?T1" "write_buf (tstate ?T1) = []" "tcp_transports w2 (tfd ?T1) = Some t"
      "READABLE \<notin> watching IOTCPStream (tfd ?T1) w2" "owns IOTCPStream (tfd ?T1) w2"
      using ok1 True f2(2) att w2(2,6) by simp_all
    obtain w3 w4 us where w4: "tcp_stream_rem (tfd ?T1) {WRITABLE} w2 = Ret w3"
      "call_conn_lost E K t None w3 = Ret (drop_stream ?T1 w4)" "tcp_objs (drop_stream ?T1 w4) t = Some ?T1"
      "tcp_inv t (drop_stream ?T1 w4)" "handles_io (drop_stream ?T1 w4) (tfd ?T1) = None"
      "py_calls (trace (drop_stream ?T1 w4)) = py_calls (trace w2) @ ConnectionLost (proto ?T1) None # us"
      "sent_bytes (tfd ?T1) (trace (drop_stream ?T1 w4)) = sent_bytes (tfd ?T1) (trace w2)"
      by (rule lose_connection [OF T2 T1(1-3,6) w2(4,3) T1(5,4) py])
    have "tcp_close E K t (drop_stream ?T1 w4) = Ret (drop_stream ?T1 w4)"
      using w4(3) by (simp add: tcp_close_def)
    moreover have "outgoing T (drop_stream ?T1 w4) = outgoing T w" using w4(7) f2(4) by (simp add: outgoing_def)
    ultimately show ?thesis
      using True run w4(1-6) f2(5) drop_stream_listener [of ?T1 _ w4] by auto
  qed
qed

text \<open>
  C20. \<^verbatim>\<open>close\<close> on an attached transport without TLS. With nothing buffered the stream is
  unregistered, \<^verbatim>\<open>connection_lost(None)\<close> is called and the loop (and the listener) forgets the
  transport. With data buffered nothing is lost: Python is not called, the transport stays
  attached and the stream stays watched for writing, only its reading side is unregistered. Either
  way the transport is closing and a second \<^verbatim>\<open>close\<close> does nothing.
\<close>

theorem tcp_close_correct:
  assumes inv: "tcp_inv t w" and T: "tcp_objs w t = Some T" "tls_conn (tstate T) = None" "\<not> closing T"
    and att: "tcp_transports w (tfd T) = Some t" and py: "py_spares t E"
  shows "\<exists>w'. tcp_close E K t w = Ret w' \<and> tcp_objs w' t = Some (T\<lparr>closing := True\<rparr>)
           \<and> tcp_close E K t w' = Ret w' \<and> tcp_inv t w' \<and> outgoing T w' = outgoing T w
           \<and> (if write_buf (tstate T) = []
              then handles_io w' (tfd T) = None \<and> tcp_transports w' (tfd T) = None
                \<and> (\<forall>l s. lfd T = Some l \<and> tcp_lstreams w' l = Some s \<longrightarrow> tfd T \<notin> s)
                \<and> (\<exists>cs. py_calls (trace w') = py_calls (trace w) @ ConnectionLost (proto T) None # cs)
              else watching IOTCPStream (tfd T) w' = {WRITABLE}
                \<and> tcp_transports w' (tfd T) = Some t \<and> py_calls (trace w') = py_calls (trace w))"
  by (rule tcp_close_spec [OF assms])

theorem tcp_close_correct_witness:
  "\<exists>w'. tcp_close demo_ext \<lparr>k_write = SysOk 0, k_now = 0\<rparr> 0 (demo_world demo_tcp) = Ret w'
     \<and> handles_io w' 7 = None \<and> tcp_transports w' 7 = None
     \<and> (\<exists>cs. py_calls (trace w') = py_calls (trace (demo_world demo_tcp)) @ ConnectionLost 5 None # cs)"
proof -
  have inv: "tcp_inv 0 (demo_world demo_tcp)" by (rule demo_world_inv [OF demo_tcp_ok]) simp
  show ?thesis
    using tcp_close_correct [OF inv _ _ _ _ demo_ext_spares, of demo_tcp
        "\<lparr>k_write = SysOk 0, k_now = 0\<rparr>"] by auto
qed

text \<open>
  C36. A direct write that fails ends the process: the error branch of \<^verbatim>\<open>try_write\<close> reports the
  lost connection while it still holds the state mutably borrowed, and \<^verbatim>\<open>tcp_stream_close\<close>
  borrows it again.
\<close>

theorem try_write_error_panics:
  assumes inv: "tcp_inv t w" and T: "tcp_objs w t = Some T" "tls_conn (tstate T) = None" "\<not> weof T"
    and e: "write_buf (tstate T) = []" "data \<noteq> []" "k_write K = SysErr err"
    and att: "tcp_transports w (tfd T) = Some t" and py: "py_spares t E"
  shows "try_write E K t data w = Panic AlreadyBorrowed"
proof -
  note ok = tcp_inv_SomeD [OF inv T(1)] and okT = tcp_okD [OF tcp_inv_SomeD(1) [OF inv T(1)]]
  let ?w0 = "upd_tcp t (\<lambda>T. T\<lparr>state_mut := True\<rparr>) w"
  have lost: "call_conn_lost E K t x w2 = Panic AlreadyBorrowed"
    if "tcp_objs w2 t = Some T2" "state_mut T2" "tcp_transports w2 (tfd T2) = Some t" for w2 T2 x
    using that spared_fields [OF spared_call_py [OF py that(1)]]
    by (simp add: call_conn_lost_def tcp_stream_close_def is_tls_def Let_def)
  have "try_write_failed E K t err ?w0 = Panic AlreadyBorrowed"
  proof (cases "closing T")
    case True
    then show ?thesis using T(1) okT(6) e(1) lost [of ?w0 "T\<lparr>state_mut := True\<rparr>"] att
      by (simp add: try_write_failed_def)
  next
    case False
    let ?w1 = "upd_tcp t (\<lambda>T. T\<lparr>closing := True\<rparr>) ?w0"
    have "owns IOTCPStream (tfd T) ?w1" "io_wf ?w1" "poll_agrees ?w1" using ok by simp_all
    from tcp_src.rem_keeps [OF this, of READABLE]
    obtain w2 where w2: "tcp_stream_rem (tfd T) {READABLE} ?w1 = Ret w2" "io_frame ?w1 w2" by auto
    note f2 = io_frame_fields [OF w2(2)]
    show ?thesis using T(1) okT(6) e(1) False w2(1) att f2(1,2)
        lost [of w2 "T\<lparr>state_mut := True, closing := True\<rparr>"]
      by (simp add: try_write_failed_def)
  qed
  then show ?thesis using T e okT by (simp add: try_write_def is_tls_def try_write_data_def)
qed

theorem try_write_error_panics_witness:
  "try_write demo_ext \<lparr>k_write = SysErr ''EPIPE'', k_now = 0\<rparr> 0 [1] (demo_world demo_tcp)
     = Panic AlreadyBorrowed"
proof -
  have inv: "tcp_inv 0 (demo_world demo_tcp)" by (rule demo_world_inv [OF demo_tcp_ok]) simp
  show ?thesis
    by (rule try_write_error_panics [OF inv _ _ _ _ _ _ _ demo_ext_spares, of demo_tcp]) simp_all
qed

text \<open>
  Pausing and resuming the reader of an open transport: while paused the stream is not
  watched for reading and \<^verbatim>\<open>is_reading\<close> is false; resuming restores the interest and the
  transport exactly; calls in the wrong state, or while closing, do nothing.
\<close>

theorem pause_resume_reading:
  assumes inv: "tcp_inv t w" and T: "tcp_objs w t = Some T" "\<not> closing T" "\<not> paused T"
    and rd: "READABLE \<in> watching IOTCPStream (tfd T) w"
  shows "resume_reading t w = Ret w
    \<and> (\<exists>w1 w2. pause_reading t w = Ret w1 \<and> pause_reading t w1 = Ret w1
         \<and> tcp_objs w1 t = Some (T\<lparr>paused := True\<rparr>) \<and> \<not> is_reading (T\<lparr>paused := True\<rparr>)
         \<and> watching IOTCPStream (tfd T) w1 = watching IOTCPStream (tfd T) w - {READABLE}
         \<and> tcp_inv t w1 \<and> resume_reading t w1 = Ret w2 \<and> tcp_objs w2 t = Some T \<and> is_reading T
         \<and> watching IOTCPStream (tfd T) w2 = watching IOTCPStream (tfd T) w \<and> tcp_inv t w2)"
proof -
  let ?u1 = "upd_tcp t (\<lambda>T. T\<lparr>paused := True\<rparr>) w" and ?T1 = "T\<lparr>paused := True\<rparr>"
  note ok = tcp_inv_SomeD [OF inv T(1)]
  have ok1: "tcp_ok ?T1" using ok(1) by (simp add: tcp_ok_def)
  have "owns IOTCPStream (tfd T) ?u1" "io_wf ?u1" "poll_agrees ?u1" using ok by simp_all
  from tcp_src.rem_keeps [OF this, of READABLE]
  obtain w1 where w1: "tcp_stream_rem (tfd T) {READABLE} ?u1 = Ret w1"
    "watching IOTCPStream (tfd T) w1 = watching IOTCPStream (tfd T) w - {READABLE}"
    "poll_agrees w1" "io_wf w1" "io_frame ?u1 w1" "owns IOTCPStream (tfd T) w1" by auto
  note f1 = io_frame_fields [OF w1(5)]
  have T1: "tcp_objs w1 t = Some ?T1" using f1(1) T by simp
  have inv1: "tcp_inv t w1"
    using w1(2-4,6) ok1 ok(5) f1(2) by (intro tcp_inv_SomeI [OF T1]) auto
  let ?u2 = "upd_tcp t (\<lambda>T. T\<lparr>paused := False\<rparr>) w1"
  have "owns IOTCPStream (tfd T) ?u2" "io_wf ?u2" "poll_agrees ?u2" using w1 by simp_all
  from tcp_src.add_keeps [OF this, of READABLE]
  obtain w2 where w2: "tcp_stream_add (tfd T) {READABLE} ?u2 = Ret w2"
    "watching IOTCPStream (tfd T) w2 = watching IOTCPStream (tfd T) w1 \<union> {READABLE}"
    "poll_agrees w2" "io_wf w2" "io_frame ?u2 w2" "owns IOTCPStream (tfd T) w2" by auto
  note f2 = io_frame_fields [OF w2(5)]
  have T2: "tcp_objs w2 t = Some T" using f2(1) T1 T(3) by simp
  have full: "watching IOTCPStream (tfd T) w2 = watching IOTCPStream (tfd T) w"
    using w2(2) w1(2) rd by auto
  have inv2: "tcp_inv t w2"
    using full w2(3,4,6) ok(1,5) f1(2) f2(2) by (intro tcp_inv_SomeI [OF T2]) auto
  have "pause_reading t w = Ret w1" "pause_reading t w1 = Ret w1" "resume_reading t w = Ret w"
    "resume_reading t w1 = Ret w2"
    using T T1 w1(1) w2(1) by (simp_all add: pause_reading_def resume_reading_def)
  then show ?thesis using T T1 T2 inv1 inv2 full w1(2) by (auto simp: is_reading_def)
qed

theorem pause_resume_reading_witness:
  "\<exists>w1 w2. pause_reading 0 (demo_world demo_tcp) = Ret w1 \<and> resume_reading 0 w1 = Ret w2
     \<and> watching IOTCPStream 7 w1 = {} \<and> watching IOTCPStream 7 w2 = {READABLE}"
proof -
  have inv: "tcp_inv 0 (demo_world demo_tcp)" by (rule demo_world_inv [OF demo_tcp_ok]) simp
  have "watching IOTCPStream 7 (demo_world demo_tcp) = {READABLE}"
    using demo_world_simps(3) [of IOTCPStream demo_tcp] by simp
  then show ?thesis
    using pause_resume_reading [OF inv, of demo_tcp] by auto
qed

text \<open>The bytes of a \<^verbatim>\<open>write\<close> the kernel takes with its answer.\<close>

definition kernel_took :: "bytes \<Rightarrow> sysres \<Rightarrow> bytes" where
  "kernel_took data r = (case r of SysOk n \<Rightarrow> take n data | _ \<Rightarrow> [])"

lemma sys_write_frame:
  "tcp_objs (sys_write f d r w) = tcp_objs w" "handles_io (sys_write f d r w) = handles_io w"
  "tcp_transports (sys_write f d r w) = tcp_transports w"
  "requested (trace (sys_write f d r w)) = requested (trace w)"
  "py_calls (trace (sys_write f d r w)) = py_calls (trace w)"
  "sent_bytes f (trace (sys_write f d r w)) = sent_bytes f (trace w) @ kernel_took d r"
  by (simp_all add: sys_write_def kernel_took_def split: sysres.split)

lemma send_close_alert_spec:
  assumes T: "tcp_objs w t = Some T" "\<not> state_mut T" "tls_conn (tstate T) = Some c"
    and alert: "fst (snd (tls_write_tls E (tls_send_close_notify E c))) = tls_buf"
  shows "\<exists>w1 T1. send_close_alert E K t w = Ret w1 \<and> tcp_objs w1 t = Some T1
     \<and> tfd T1 = tfd T \<and> \<not> state_mut T1 \<and> handles_io w1 = handles_io w
     \<and> requested (trace w1) = requested (trace w) \<and> tcp_transports w1 = tcp_transports w
     \<and> py_calls (trace w1) = py_calls (trace w)
     \<and> sent_bytes (tfd T) (trace w1) = sent_bytes (tfd T) (trace w) @ kernel_took tls_buf (k_write K)"
proof -
  obtain b c' where "tls_write_tls E (tls_send_close_notify E c) = (b, tls_buf, c')"
    using alert by (cases "tls_write_tls E (tls_send_close_notify E c)") auto
  moreover have "kernel_took [] r = []" for r by (simp add: kernel_took_def split: sysres.split)
  ultimately show ?thesis
    using T by (simp add: send_close_alert_def upd_state_def sys_write_frame Let_def)
qed

lemma close_tls_spec:
  assumes T: "tcp_objs w t = Some T" "\<not> state_mut T" "tls_conn (tstate T) = Some c" "write_buf (tstate T) = []"
    and alert: "fst (snd (tls_write_tls E (tls_send_close_notify E c))) = tls_buf"
    and io: "owns IOTCPStream (tfd T) w" "io_wf w" "poll_agrees w"
  shows "\<exists>w2. close_tls E K t w = and_then (unwrap (tcp_transports w (tfd T))) (\<lambda>_. Ret w2)
     \<and> tcp_transports w2 = tcp_transports w \<and> py_calls (trace w2) = py_calls (trace w)
     \<and> sent_bytes (tfd T) (trace w2) = sent_bytes (tfd T) (trace w) @ kernel_took tls_buf (k_write K)"
proof -
  obtain w1 T1 where w1: "send_close_alert E K t w = Ret w1" "handles_io w1 = handles_io w"
    "requested (trace w1) = requested (trace w)" "tcp_transports w1 = tcp_transports w"
    "py_calls (trace w1) = py_calls (trace w)"
    "sent_bytes (tfd T) (trace w1) = sent_bytes (tfd T) (trace w) @ kernel_took tls_buf (k_write K)"
    using send_close_alert_spec [OF T(1-3) alert] by blast
  have "owns IOTCPStream (tfd T) w1" "io_wf w1" "poll_agrees w1"
    using io w1(2,3) by (simp_all add: registry_defs)
  from tcp_src.rem_keeps [OF this, of WRITABLE]
  obtain w2 where w2: "tcp_stream_rem (tfd T) {WRITABLE} w1 = Ret w2" "io_frame w1 w2" by auto
  show ?thesis
    using T w1 w2(1) io_frame_fields(2,4,5) [OF w2(2)]
    by (intro exI [of _ w2]) (simp add: close_tls_def get_tcp_transport_def)
qed

lemma close_tls_pending:
  assumes "tcp_objs w t = Some T" "\<not> state_mut T" "write_buf (tstate T) \<noteq> []"
  shows "close_tls E K t w = Ret (upd_state t (\<lambda>st. st\<lparr>tls_pending_close := True\<rparr>) w)"
  using assms by (simp add: close_tls_def)

lemma tcp_stream_close_pending:
  assumes "tcp_objs v t = Some T" "tcp_transports v (tfd T) = Some t" "tls_conn (tstate T) \<noteq> None" "\<not> closing T"
    "\<not> state_mut T" "write_buf (tstate T) \<noteq> []"
  shows "\<exists>w'. tcp_stream_close E K (tfd T) v = Ret w' \<and> tcp_transports w' (tfd T) = None \<and> trace w' = trace v
     \<and> tcp_objs w' t = Some (T\<lparr>closing := True, tstate := (tstate T)\<lparr>tls_pending_close := True\<rparr>\<rparr>)"
proof -
  let ?w = "upd_tcp t (\<lambda>T. T\<lparr>closing := True\<rparr>) (v\<lparr>tcp_transports := (tcp_transports v)(tfd T := None)\<rparr>)"
  have "close_tls E K t ?w = Ret (upd_state t (\<lambda>st. st\<lparr>tls_pending_close := True\<rparr>) ?w)"
    by (rule close_tls_pending [where T = "T\<lparr>closing := True\<rparr>"]) (use assms in simp_all)
  then show ?thesis
    using assms
    by (simp add: tcp_stream_close_def is_tls_def Let_def upd_state_def split: option.split)
qed

text \<open>What the table and the poller know after Python has been told of the loss and the transport forgotten.\<close>

lemma lost_then_closing:
  assumes inv: "tcp_inv t w" and T: "tcp_objs w t = Some T" and py: "py_spares t E"
  defines "v \<equiv> snd (call_py E (ConnectionLost (proto T) None) w)"
  defines "v1 \<equiv> upd_tcp t (\<lambda>T. T\<lparr>closing := True\<rparr>) (v\<lparr>tcp_transports := (tcp_transports v)(tfd T := None)\<rparr>)"
  shows "tcp_objs v t = Some T" "tcp_transports v (tfd T) = tcp_transports w (tfd T)"
    "tcp_objs v1 t = Some (T\<lparr>closing := True\<rparr>)" "owns IOTCPStream (tfd T) v1" "io_wf v1" "poll_agrees v1"
    "\<exists>us. py_calls (trace v1) = py_calls (trace w) @ ConnectionLost (proto T) None # us"
    "sent_bytes (tfd T) (trace v1) = sent_bytes (tfd T) (trace w)"
proof -
  note ok = tcp_inv_SomeD [OF inv T] and sp = spared_call_py [OF py T, of "ConnectionLost (proto T) None"]
  note f = spared_fields [OF sp]
  show "tcp_objs v t = Some T" "tcp_transports v (tfd T) = tcp_transports w (tfd T)"
    unfolding v_def using f(1,4) by simp_all
  show "tcp_objs v1 t = Some (T\<lparr>closing := True\<rparr>)" "owns IOTCPStream (tfd T) v1" "io_wf v1" "poll_agrees v1"
    unfolding v1_def v_def
    using f(1,2,5) ok(2-4) by (simp_all only: io_preds_upd_tcp io_preds_transports upd_tcp_simps) simp_all
  show "\<exists>us. py_calls (trace v1) = py_calls (trace w) @ ConnectionLost (proto T) None # us"
    using call_py_trace [OF py T, of "ConnectionLost (proto T) None"] unfolding v1_def v_def
    by (auto simp: py_calls_def)
  show "sent_bytes (tfd T) (trace v1) = sent_bytes (tfd T) (trace w)"
    using spared_sent [OF sp] unfolding v1_def v_def by simp
qed

text \<open>
  C40. Closing an attached transport with TLS that is not closing, whatever the kernel answers, with
  Python code that does not use the transport. With nothing buffered, \<^verbatim>\<open>close\<close> gives the close alert to
  the kernel, in one write whose answer is not checked, but it only looks \<^verbatim>\<open>call_connection_lost\<close>
  up: no Python code is called and the transport stays attached; and \<^verbatim>\<open>call_connection_lost\<close>
  panics, since the transport has left the table by the time \<^verbatim>\<open>close\<close> unwraps it. With data
  buffered, \<^verbatim>\<open>close\<close> sends nothing and notes that the close is pending, the data stays; and
  \<^verbatim>\<open>call_connection_lost\<close> returns, the protocol has been told, and the transport has left the
  table with its data unsent. In both cases \<^verbatim>\<open>close_from_read_handle\<close> sets the flag before it calls
  \<^verbatim>\<open>close\<close>, which therefore returns at once: no close alert is sent, against its comment.
\<close>

theorem tls_close_behaviour:
  assumes inv: "tcp_inv t w" and T: "tcp_objs w t = Some T" "tls_conn (tstate T) = Some c" "\<not> closing T"
    and att: "tcp_transports w (tfd T) = Some t" and py: "py_spares t E"
  shows "(write_buf (tstate T) = [] \<longrightarrow>
            (\<exists>w'. tcp_close E K t w = Ret w' \<and> py_calls (trace w') = py_calls (trace w)
               \<and> sent_bytes (tfd T) (trace w') = sent_bytes (tfd T) (trace w)
                    @ kernel_took (fst (snd (tls_write_tls E (tls_send_close_notify E c)))) (k_write K)
               \<and> tcp_transports w' (tfd T) = Some t)
          \<and> call_conn_lost E K t None w = Panic UnwrapNone)
       \<and> (write_buf (tstate T) \<noteq> [] \<longrightarrow>
            (\<exists>w'. tcp_close E K t w = Ret w' \<and> trace w' = trace w \<and> tcp_transports w' (tfd T) = Some t
               \<and> tcp_objs w' t = Some (T\<lparr>closing := True, tstate := (tstate T)\<lparr>tls_pending_close := True\<rparr>\<rparr>))
          \<and> (\<exists>w'. call_conn_lost E K t None w = Ret w' \<and> tcp_transports w' (tfd T) = None
               \<and> tcp_objs w' t = Some (T\<lparr>closing := True, tstate := (tstate T)\<lparr>tls_pending_close := True\<rparr>\<rparr>)
               \<and> (\<exists>us. py_calls (trace w') = py_calls (trace w) @ ConnectionLost (proto T) None # us)
               \<and> sent_bytes (tfd T) (trace w') = sent_bytes (tfd T) (trace w)))
       \<and> (\<exists>w'. close_from_read_handle E K t w = Ret (True, w') \<and> trace w' = trace w)"
proof -
  note ok = tcp_inv_SomeD [OF inv T(1)] and okT = tcp_okD [OF tcp_inv_SomeD(1) [OF inv T(1)]]
  note lost = lost_then_closing [OF inv T(1) py]
  let ?T1 = "T\<lparr>closing := True\<rparr>" and ?w1 = "upd_tcp t (\<lambda>T. T\<lparr>closing := True\<rparr>) w"
  let ?v = "snd (call_py E (ConnectionLost (proto T) None) w)"
  let ?v1 = "upd_tcp t (\<lambda>T. T\<lparr>closing := True\<rparr>) (?v\<lparr>tcp_transports := (tcp_transports ?v)(tfd T := None)\<rparr>)"
  have w1: "tcp_objs ?w1 t = Some ?T1" "\<not> state_mut ?T1" "tls_conn (tstate ?T1) = Some c" using T okT(5) by simp_all
  have close: "tcp_close E K t w = close_tls E K t ?w1"
    using T okT(5) by (simp add: tcp_close_def is_tls_def Let_def)
  have conn_lost: "call_conn_lost E K t None w = and_then (close_tls E K t ?v1) (\<lambda>w2.
      with_tcp t w2 (\<lambda>T'. case lfd T' of None \<Rightarrow> Ret w2
        | Some l \<Rightarrow> Ret (case tcp_lstreams w2 l of None \<Rightarrow> w2
             | Some s \<Rightarrow> w2\<lparr>tcp_lstreams := (tcp_lstreams w2)(l \<mapsto> s - {tfd T})\<rparr>)))"
    using T okT(5) att lost(1,2) by (simp add: call_conn_lost_def tcp_stream_close_def is_tls_def Let_def)
  have "close_from_read_handle E K t w = Ret (True, ?w1)"
    using T okT(5) by (simp add: close_from_read_handle_def tcp_close_def Let_def)
  moreover have "(\<exists>w'. tcp_close E K t w = Ret w' \<and> py_calls (trace w') = py_calls (trace w)
               \<and> sent_bytes (tfd T) (trace w') = sent_bytes (tfd T) (trace w)
                    @ kernel_took (fst (snd (tls_write_tls E (tls_send_close_notify E c)))) (k_write K)
               \<and> tcp_transports w' (tfd T) = Some t)
          \<and> call_conn_lost E K t None w = Panic UnwrapNone" if e: "write_buf (tstate T) = []"
  proof -
    have e1: "write_buf (tstate ?T1) = []" using e by simp
    obtain v2 where "close_tls E K t ?v1 = and_then (unwrap (tcp_transports ?v1 (tfd ?T1))) (\<lambda>_. Ret v2)"
      using close_tls_spec [OF lost(3) w1(2,3) e1 refl] lost(4-6) by auto
    then have "close_tls E K t ?v1 = Panic UnwrapNone" by simp
    moreover from close_tls_spec [OF w1 e1 refl, of E K] ok(2-4) att
    obtain w2 where "close_tls E K t ?w1 = Ret w2" "tcp_transports w2 (tfd T) = Some t"
      "py_calls (trace w2) = py_calls (trace w)"
      "sent_bytes (tfd T) (trace w2) = sent_bytes (tfd T) (trace w)
         @ kernel_took (fst (snd (tls_write_tls E (tls_send_close_notify E c)))) (k_write K)" by auto
    ultimately show ?thesis using close conn_lost by simp
  qed
  moreover have "(\<exists>w'. tcp_close E K t w = Ret w' \<and> trace w' = trace w \<and> tcp_transports w' (tfd T) = Some t
               \<and> tcp_objs w' t = Some (T\<lparr>closing := True, tstate := (tstate T)\<lparr>tls_pending_close := True\<rparr>\<rparr>))
          \<and> (\<exists>w'. call_conn_lost E K t None w = Ret w' \<and> tcp_transports w' (tfd T) = None
               \<and> tcp_objs w' t = Some (T\<lparr>closing := True, tstate := (tstate T)\<lparr>tls_pending_close := True\<rparr>\<rparr>)
               \<and> (\<exists>us. py_calls (trace w') = py_calls (trace w) @ ConnectionLost (proto T) None # us)
               \<and> sent_bytes (tfd T) (trace w') = sent_bytes (tfd T) (trace w))" if e: "write_buf (tstate T) \<noteq> []"
  proof -
    have e1: "write_buf (tstate ?T1) \<noteq> []" using e by simp
    let ?T2 = "T\<lparr>closing := True, tstate := (tstate T)\<lparr>tls_pending_close := True\<rparr>\<rparr>"
    have "\<exists>w'. call_conn_lost E K t None w = Ret w' \<and> tcp_transports w' (tfd T) = None \<and> tcp_objs w' t = Some ?T2
        \<and> trace w' = trace ?v"
      using tcp_stream_close_pending [OF lost(1) lost(2) [unfolded att], of E K] T okT(5) e
      by (simp add: call_conn_lost_def conj_commute)
    moreover have "tcp_close E K t w = Ret (upd_state t (\<lambda>st. st\<lparr>tls_pending_close := True\<rparr>) ?w1)"
      using close close_tls_pending [OF w1(1,2) e1, of E K] by simp
    ultimately show ?thesis using lost(7,8) att T(1) by (auto simp: upd_state_def)
  qed
  ultimately show ?thesis by simp
qed

theorem tls_close_behaviour_witness:
  "let T = initialize_tls_server () demo_tcp; K = \<lparr>k_write = SysWouldBlock, k_now = 0\<rparr>;
       T2 = T\<lparr>tstate := (tstate T)\<lparr>write_buf := [[1]], write_buf_dsize := 1\<rparr>\<rparr>;
       w2 = set_io 7 (IOTCPStream {READABLE, WRITABLE}) (emit (Poll (Reregister 7 {READABLE, WRITABLE})) (demo_world T2)) in
   call_conn_lost demo_ext K 0 None (demo_world T) = Panic UnwrapNone
   \<and> (\<exists>w'. close_from_read_handle demo_ext K 0 (demo_world T) = Ret (True, w') \<and> trace w' = trace (demo_world T))
   \<and> (\<exists>w'. call_conn_lost demo_ext K 0 None w2 = Ret w' \<and> tcp_transports w' 7 = None \<and> sent_bytes 7 (trace w') = [])"
proof -
  let ?T = "initialize_tls_server () demo_tcp" and ?K = "\<lparr>k_write = SysWouldBlock, k_now = 0\<rparr>"
  let ?S = "?T\<lparr>tstate := (tstate ?T)\<lparr>write_buf := [[1]], write_buf_dsize := 1\<rparr>\<rparr>"
  let ?u = "set_io 7 (IOTCPStream {READABLE, WRITABLE}) (emit (Poll (Reregister 7 {READABLE, WRITABLE})) (demo_world ?S))"
  have simps: "tls_conn (tstate ?T) = Some ()" "write_buf (tstate ?T) = []" "closing ?T = False" "tfd ?T = 7"
    by (simp_all add: initialize_tls_server_def)
  have ok: "tcp_ok ?T" "tcp_ok ?S" using demo_tcp_ok by (simp_all add: tcp_ok_def initialize_tls_server_def usize_max1_def)
  have inv: "tcp_inv 0 (demo_world ?T)" by (rule demo_world_inv [OF ok(1)]) (simp add: simps)
  have inv2: "tcp_inv 0 ?u"
    using ok(2) simps(4) by (simp add: demo_world_def tcp_inv_def registry_defs requested_def set_io_def)
  have u: "tcp_objs ?u 0 = Some ?S" "tcp_transports ?u 7 = Some 0" "sent_bytes 7 (trace ?u) = []"
    using simps(4) by (simp_all add: set_io_def demo_world_def) (simp add: sent_bytes_def)
  have "call_conn_lost demo_ext ?K 0 None (demo_world ?T) = Panic UnwrapNone"
    "\<exists>w'. close_from_read_handle demo_ext ?K 0 (demo_world ?T) = Ret (True, w') \<and> trace w' = trace (demo_world ?T)"
    using tls_close_behaviour [OF inv _ simps(1) _ _ demo_ext_spares, of ?K] simps by simp_all
  moreover have "\<exists>w'. call_conn_lost demo_ext ?K 0 None ?u = Ret w' \<and> tcp_transports w' 7 = None
      \<and> sent_bytes 7 (trace w') = []"
    using tls_close_behaviour [OF inv2 u(1) _ _ _ demo_ext_spares, of "()" ?K] simps u(2,3) by auto
  ultimately show ?thesis unfolding Let_def by blast
qed

end
