(* ===== verification/Tcp_Handles.thy ===== *)
theory Tcp_Handles
  imports Tcp_Transport
begin

text \<open>
  \<^verbatim>\<open>TCPReadHandle\<close> and \<^verbatim>\<open>TCPWriteHandle\<close> of \<^verbatim>\<open>tcp.rs\<close>: what the loop runs when a stream
  is readable or writable.

  What the kernel has for the handle is a script: for reading, the results of the consecutive
  \<^verbatim>\<open>read\<close> calls, where a chunk longer than the buffer is delivered in pieces, the end of the
  stream (\<open>RdOk []\<close>) stays, and an exhausted script would block; for writing, the results of the
  \<^verbatim>\<open>write\<close> calls, where an exhausted script would block.
\<close>

section \<open>Reading\<close>

datatype rdres = RdOk bytes | RdInterrupted | RdWouldBlock | RdErr string

text \<open>
  \<^verbatim>\<open>read_into\<close>: the bytes read, whether the end was seen, and the rest of the script. Once the
  buffer is full the next \<^verbatim>\<open>read\<close> is into an empty slice, which yields nothing and does not
  count as the end.
\<close>

fun read_into :: "nat \<Rightarrow> rdres list \<Rightarrow> bytes \<times> bool \<times> rdres list" where
  "read_into room [] = ([], False, [])"
| "read_into room (r # s) =
     (if room = 0 then ([], False, r # s)
      else case r of
        RdWouldBlock \<Rightarrow> ([], False, s)
      | RdErr _ \<Rightarrow> ([], False, s)
      | RdInterrupted \<Rightarrow> read_into room s
      | RdOk d \<Rightarrow>
          if d = [] then ([], True, r # s)
          else if length d \<le> room then
            (case read_into (room - length d) s of (b, closed, s') \<Rightarrow> (d @ b, closed, s'))
          else (take room d, False, RdOk (drop room d) # s))"

datatype recvd = RData bytes | RCount nat

text \<open>The plaintext rustls has ready; the fuel is one more than the number of bytes it holds.\<close>

fun tls_read_all :: "'c ext \<Rightarrow> nat \<Rightarrow> 'c \<Rightarrow> bytes \<times> 'c" where
  "tls_read_all E 0 c = ([], c)"
| "tls_read_all E (Suc n) c =
     (case tls_reader_read E 4096 c of
        (Some d, c1) \<Rightarrow>
          if d = [] then ([], c1)
          else (case tls_read_all E n c1 of (b, c2) \<Rightarrow> (d @ b, c2))
      | (None, c1) \<Rightarrow> ([], c1))"

text \<open>The handshake has just completed: \<^verbatim>\<open>connection_made\<close> is scheduled once.\<close>

definition tls_handshake_done :: "'c ext \<Rightarrow> nat \<Rightarrow> fd \<Rightarrow> 'c world \<Rightarrow> 'c world" where
  "tls_handshake_done E t f w =
     (case tcp_objs w t of
        None \<Rightarrow> w
      | Some T \<Rightarrow>
          (case tls_conn (tstate T) of
             None \<Rightarrow> w
           | Some c \<Rightarrow>
               if \<not> handshake_complete (tstate T) \<and> \<not> tls_is_handshaking E c then
                 (let w1 = upd_state t (\<lambda>st. st\<lparr>handshake_complete := True\<rparr>) w in
                  if \<not> connection_made_called (tstate T) then
                    (let w2 = upd_state t (\<lambda>st. st\<lparr>connection_made_called := True\<rparr>) w1;
                         arg = (case get_tcp_transport f w2 of None \<Rightarrow> py_none E | Some x \<Rightarrow> x)
                     in case py_conn_made E (proto T) of
                          None \<Rightarrow> w2
                        | Some m \<Rightarrow> schedule1 m arg None w2)
                  else w1)
               else w))"

text \<open>
  The end of the TLS branch: the check whether the peer has closed reads into an empty buffer, so
  it never sees the end; the handle reports the end exactly if our alert has been sent.
\<close>

definition tls_closed_check ::
  "nat \<Rightarrow> 'c world \<Rightarrow> rdres list \<Rightarrow> (recvd option \<times> bool \<times> 'c world \<times> rdres list) outcome" where
  "tls_closed_check t w s =
     borrow t w (\<lambda>st.
       case read_into 0 s of (b, closed, s') \<Rightarrow>
         if b = [] \<and> tls_close_sent st then Ret (None, True, w, s')
         else Ret (None, closed, w, s'))"

text \<open>
  Feeding what was read to rustls: the answer is whether to stop, because of an error or of the
  peer's close alert.
\<close>

definition tls_feed :: "'c ext \<Rightarrow> nat \<Rightarrow> bytes \<Rightarrow> 'c world \<Rightarrow> (bool \<times> 'c world) outcome" where
  "tls_feed E t b w =
     borrow t w (\<lambda>st. and_then (unwrap (tls_conn st)) (\<lambda>c.
       let (fed, c1) = tls_read_tls E b c;
           w1 = upd_state t (\<lambda>st. st\<lparr>tls_conn := Some c1\<rparr>) w
       in if \<not> fed then Ret (True, w1)
          else let (answer, c2) = tls_process E c1;
                   w2 = upd_state t (\<lambda>st. st\<lparr>tls_conn := Some c2\<rparr>) w
               in case answer of
                    None \<Rightarrow> Ret (True, w2)
                  | Some peer_has_closed \<Rightarrow>
                      if peer_has_closed then
                        Ret (True, upd_state t (\<lambda>st. st\<lparr>tls_conn := Some (tls_send_close_notify E c2),
                                                     tls_close_received := True\<rparr>) w)
                      else Ret (False, w2)))"

definition tls_want_write :: "'c ext \<Rightarrow> nat \<Rightarrow> 'c world \<Rightarrow> 'c world outcome" where
  "tls_want_write E t w =
     with_tcp t w (\<lambda>T. borrow t w (\<lambda>st.
       case tls_conn st of
         None \<Rightarrow> Ret w
       | Some c \<Rightarrow> if tls_wants_write E c then tcp_stream_add (tfd T) {WRITABLE} w else Ret w))"

definition tls_app_data :: "'c ext \<Rightarrow> nat \<Rightarrow> 'c world \<Rightarrow> (bytes \<times> 'c world) outcome" where
  "tls_app_data E t w =
     borrow t w (\<lambda>st.
       if handshake_complete st then
         and_then (unwrap (tls_conn st)) (\<lambda>c.
           let (app_data, c') = tls_read_all E (Suc (tls_avail E c)) c
           in Ret (app_data, upd_state t (\<lambda>st. st\<lparr>tls_conn := Some c'\<rparr>) w))
       else Ret ([], w))"

definition recv_tls ::
  "'c ext \<Rightarrow> nat \<Rightarrow> fd \<Rightarrow> nat \<Rightarrow> 'c world \<Rightarrow> rdres list
     \<Rightarrow> (recvd option \<times> bool \<times> 'c world \<times> rdres list) outcome" where
  "recv_tls E t f room w s =
     (case read_into room s of (b, _, s1) \<Rightarrow>
      if b = [] then tls_closed_check t w s1
      else and_then (tls_feed E t b w) (\<lambda>(stop, w1).
        if stop then Ret (None, True, w1, s1)
        else and_then (tls_want_write E t (tls_handshake_done E t f w1)) (\<lambda>w2.
             and_then (tls_app_data E t w2) (\<lambda>(app_data, w3).
               if app_data \<noteq> [] then Ret (Some (RData app_data), False, w3, s1)
               else tls_closed_check t w3 s1))))"

definition recv_direct ::
  "'c ext \<Rightarrow> nat \<Rightarrow> fd \<Rightarrow> nat \<Rightarrow> 'c world \<Rightarrow> rdres list
     \<Rightarrow> (recvd option \<times> bool \<times> 'c world \<times> rdres list) outcome" where
  "recv_direct E t f room w s =
     borrow t w (\<lambda>st.
       if tls_conn st \<noteq> None then recv_tls E t f room w s
       else case read_into room s of (b, closed, s1) \<Rightarrow>
         Ret (if b \<noteq> [] then Some (RData b) else None, closed, w, s1))"

definition recv_buffered ::
  "'c ext \<Rightarrow> nat \<Rightarrow> 'c world \<Rightarrow> rdres list
     \<Rightarrow> (recvd option \<times> bool \<times> 'c world \<times> rdres list) outcome" where
  "recv_buffered E t w s =
     with_tcp t w (\<lambda>T.
       case call_py E (GetBuffer (proto T)) w of
         (PyErr _, _) \<Rightarrow> Panic UnwrapErr
       | (PyOk buf _, w1) \<Rightarrow>
           (case py_buffer_len E buf of
              None \<Rightarrow> Panic UnwrapErr
            | Some n \<Rightarrow>
                borrow t w1 (\<lambda>_.
                  case read_into n s of (b, closed, s1) \<Rightarrow>
                    if b \<noteq> [] then Ret (Some (RCount (length b)), closed, emit (FillBuffer buf b) w1, s1)
                    else Ret (None, closed, w1, s1))))"

definition deliver :: "'c ext \<Rightarrow> nat \<Rightarrow> recvd \<Rightarrow> 'c world \<Rightarrow> 'c world" where
  "deliver E t d w =
     (case tcp_objs w t of
        None \<Rightarrow> w
      | Some T \<Rightarrow>
          snd (call_py E (case d of RData b \<Rightarrow> DataReceived (proto T) b
                          | RCount n \<Rightarrow> BufferUpdated (proto T) n) w))"

definition tcp_recv ::
  "'c ext \<Rightarrow> nat \<Rightarrow> fd \<Rightarrow> nat \<Rightarrow> 'c world \<Rightarrow> rdres list
     \<Rightarrow> (recvd option \<times> bool \<times> 'c world \<times> rdres list) outcome" where
  "tcp_recv E t f room w s =
     with_tcp t w (\<lambda>T. if proto_buffered T then recv_buffered E t w s
                        else recv_direct E t f room w s)"

text \<open>Every round that delivers something takes bytes off the script.\<close>

definition script_size :: "rdres list \<Rightarrow> nat" where
  "script_size s = sum_list (map (\<lambda>r. case r of RdOk d \<Rightarrow> Suc (length d) | _ \<Rightarrow> 1) s)"

lemma script_size_simps [simp]:
  "script_size [] = 0"
  "script_size (RdOk d # s) = Suc (length d) + script_size s"
  "script_size (RdInterrupted # s) = Suc (script_size s)"
  "script_size (RdWouldBlock # s) = Suc (script_size s)"
  "script_size (RdErr e # s) = Suc (script_size s)"
  by (simp_all add: script_size_def)

lemma read_into_size:
  "read_into room s = (b, closed, s') \<Longrightarrow>
     script_size s' + length b \<le> script_size s"
  by (induction room s arbitrary: b closed s' rule: read_into.induct)
     (fastforce split: if_splits rdres.splits prod.splits)+

lemma read_into_bound: "read_into room s = (b, closed, s') \<Longrightarrow> length b \<le> room"
  by (induction room s arbitrary: b closed s' rule: read_into.induct)
     (fastforce split: if_splits rdres.splits prod.splits)+

lemma tls_closed_check_None: "tls_closed_check t w s = Ret (d, e, w', s') \<Longrightarrow> d = None"
  by (auto simp: tls_closed_check_def borrow_def with_tcp_def split: option.splits if_splits prod.splits)

lemma read_into_consumes:
  "read_into room s = (b, closed, s') \<Longrightarrow> b \<noteq> [] \<Longrightarrow> script_size s' < script_size s"
  using read_into_size [of room s b closed s'] by (cases b) auto

lemma recv_tls_consumes:
  assumes "recv_tls E t f room w s = Ret (Some d, e, w1, s1)"
  shows "script_size s1 < script_size s"
proof -
  obtain b closed s' where r: "read_into room s = (b, closed, s')" by (cases "read_into room s")
  then have "b \<noteq> []" using assms by (auto simp: recv_tls_def dest: tls_closed_check_None)
  moreover from this have "s1 = s'"
    using assms r
    by (auto simp: recv_tls_def and_then_eq_Ret_iff split: if_splits dest!: tls_closed_check_None)
  ultimately show ?thesis using read_into_consumes [OF r] by simp
qed

lemma tcp_recv_consumes:
  assumes "tcp_recv E t f room w s = Ret (Some d, e, w1, s1)"
  shows "script_size s1 < script_size s"
  using assms
  by (auto simp: tcp_recv_def recv_buffered_def recv_direct_def with_tcp_def borrow_def
      split: option.splits if_splits prod.splits pyres.splits
      dest: recv_tls_consumes read_into_consumes)

function read_loop ::
  "'c ext \<Rightarrow> nat \<Rightarrow> fd \<Rightarrow> nat \<Rightarrow> 'c world \<Rightarrow> rdres list \<Rightarrow> (bool \<times> 'c world \<times> rdres list) outcome" where
  "read_loop E t f room w s =
     and_then (tcp_recv E t f room w s) (\<lambda>(data, eof, w1, s1).
       case data of
         Some d \<Rightarrow>
           (let w2 = deliver E t d w1 in
            if \<not> eof then read_loop E t f room w2 s1 else Ret (True, w2, s1))
       | None \<Rightarrow> Ret (eof, w1, s1))"
  by pat_completeness auto

termination
  by (relation "measure (\<lambda>(E, t, f, room, w, s). script_size s)") (auto dest: tcp_recv_consumes)

declare read_loop.simps [simp del]

definition recv_eof :: "'c ext \<Rightarrow> kernel \<Rightarrow> nat \<Rightarrow> fd \<Rightarrow> 'c world \<Rightarrow> (bool \<times> 'c world) outcome" where
  "recv_eof E K t f w =
     and_then (tcp_stream_rem f {READABLE} w) (\<lambda>w1.
     with_tcp t w1 (\<lambda>T.
       case call_py E (EofReceived (proto T)) w1 of
         (PyOk _ True, w2) \<Rightarrow> Ret (False, w2)
       | (_, w2) \<Rightarrow>
           borrow t w2 (\<lambda>st.
             if tls_conn st \<noteq> None \<and> tls_close_sent st
             then and_then (call_conn_lost E K t None w2) (\<lambda>w3. Ret (True, w3))
             else close_from_read_handle E K t w2)))"

text \<open>\<^verbatim>\<open>TCPReadHandle::run\<close>; \<open>room\<close> is the size of the loop's read buffer.\<close>

definition TCPReadHandle_run ::
  "'c ext \<Rightarrow> kernel \<Rightarrow> fd \<Rightarrow> nat \<Rightarrow> rdres list \<Rightarrow> 'c world \<Rightarrow> 'c world outcome" where
  "TCPReadHandle_run E K f room s w =
     (case get_tcp_transport f w of
        None \<Rightarrow> Ret w
      | Some t \<Rightarrow>
          and_then (read_loop E t f room w s) (\<lambda>(eof, w1, _).
          and_then (if eof then recv_eof E K t f w1 else Ret (False, w1)) (\<lambda>(close, w2).
          if close then tcp_stream_close E K f w2 else Ret w2)))"

section \<open>Writing\<close>

text \<open>
  The loop over the buffered chunks without TLS: the number of bytes written (\<open>None\<close> after an
  error), what is left, and the pieces the kernel took.
\<close>

fun write_chunks :: "bytes list \<Rightarrow> sysres list \<Rightarrow> nat option \<times> bytes list \<times> bytes list" where
  "write_chunks [] ks = (Some 0, [], [])"
| "write_chunks (data # bs) [] = (Some 0, data # bs, [])"
| "write_chunks (data # bs) (r # ks) =
     (case r of
        SysOk written \<Rightarrow>
          if written < length data
          then (Some written, drop written data # bs, [take written data])
          else (case write_chunks bs ks of (ret, left, sent) \<Rightarrow>
                  (map_option (\<lambda>n. written + n) ret, left, take written data # sent))
      | SysInterrupted \<Rightarrow> write_chunks (data # bs) ks
      | SysWouldBlock \<Rightarrow> (Some 0, data # bs, [])
      | SysErr _ \<Rightarrow> (None, [], []))"

definition write_plain :: "nat \<Rightarrow> sysres list \<Rightarrow> 'c world \<Rightarrow> (nat option \<times> 'c world) outcome" where
  "write_plain t ks w =
     with_tcp t w (\<lambda>T. borrow t w (\<lambda>st.
       case write_chunks (write_buf st) ks of (ret, left, sent) \<Rightarrow>
       let w1 = fold (\<lambda>b. emit (Sent (tfd T) b)) sent w in
       Ret (ret, case ret of
           None \<Rightarrow> upd_state t (\<lambda>st. st\<lparr>write_buf := [], write_buf_dsize := 0\<rparr>) w1
         | Some n \<Rightarrow> upd_state t (\<lambda>st. st\<lparr>write_buf := left,
                                        write_buf_dsize := usize_sub (write_buf_dsize st) n\<rparr>) w1)))"

text \<open>Encrypting the buffered chunks one by one; stops at the first error.\<close>

fun encrypt_chunks ::
  "'c ext \<Rightarrow> bytes list \<Rightarrow> nat \<Rightarrow> 'c \<Rightarrow> bool \<times> nat \<times> bytes list \<times> nat \<times> 'c" where
  "encrypt_chunks E [] dsize c = (True, 0, [], dsize, c)"
| "encrypt_chunks E (data # bs) dsize c =
     (case tls_writer_write_all E data c of (ok, c1) \<Rightarrow>
      if \<not> ok then (False, 0, data # bs, dsize, c1)
      else case encrypt_chunks E bs (usize_sub dsize (length data)) c1 of
             (ok', ret, left, dsize', c2) \<Rightarrow> (ok', length data + ret, left, dsize', c2))"

text \<open>
  One \<^verbatim>\<open>write\<close> of TLS bytes: \<open>None\<close> on an error or a partial write, otherwise whether it was
  written (and not blocked).
\<close>

definition tls_flush :: "fd \<Rightarrow> bytes \<Rightarrow> sysres \<Rightarrow> bool option" where
  "tls_flush f tls_buf r =
     (if tls_buf = [] then Some True
      else case r of
        SysOk written \<Rightarrow> if written = length tls_buf then Some True else None
      | SysWouldBlock \<Rightarrow> Some False
      | _ \<Rightarrow> None)"

definition flush_trace :: "fd \<Rightarrow> bytes \<Rightarrow> sysres \<Rightarrow> 'c world \<Rightarrow> 'c world" where
  "flush_trace f tls_buf r w = (if tls_buf = [] then w else sys_write f tls_buf r w)"

text \<open>The TLS branch; \<open>r1\<close> and \<open>r2\<close> are the answers to its two \<^verbatim>\<open>write\<close> calls.\<close>

definition write_tls_conn ::
  "'c ext \<Rightarrow> nat \<Rightarrow> sysres \<Rightarrow> sysres \<Rightarrow> 'c world \<Rightarrow> (nat option \<times> 'c world) outcome" where
  "write_tls_conn E t r1 r2 w =
     with_tcp t w (\<lambda>T. borrow t w (\<lambda>st. and_then (unwrap (tls_conn st)) (\<lambda>c.
       let (ok1, buf1, c1) = tls_write_tls E c;
           w1 = upd_state t (\<lambda>st. st\<lparr>tls_conn := Some c1\<rparr>) w;
           w2 = flush_trace (tfd T) buf1 r1 w1
       in if \<not> ok1 then Ret (None, w1)
          else case tls_flush (tfd T) buf1 r1 of
            None \<Rightarrow> Ret (None, w2)
          | Some False \<Rightarrow> Ret (Some 0, w2)
          | Some True \<Rightarrow>
              if \<not> handshake_complete st then Ret (Some 0, w2)
              else let (enc, ret, left, dsize, c2) =
                         encrypt_chunks E (write_buf st) (write_buf_dsize st) c1;
                       put = (\<lambda>c. upd_state t (\<lambda>st. st\<lparr>tls_conn := Some c, write_buf := left,
                                write_buf_dsize := dsize\<rparr>))
                   in if \<not> enc then Ret (None, put c2 w2)
                      else let (ok2, buf2, c3) = tls_write_tls E c2; w3 = put c3 w2
                           in if \<not> ok2 then Ret (None, w3)
                              else Ret (case tls_flush (tfd T) buf2 r2 of None \<Rightarrow> None | Some _ \<Rightarrow> Some ret,
                                        flush_trace (tfd T) buf2 r2 w3))))"

text \<open>\<^verbatim>\<open>TCPWriteHandle::write\<close>: the TLS branch uses at most two answers of the script.\<close>

definition TCPWriteHandle_write ::
  "'c ext \<Rightarrow> nat \<Rightarrow> sysres list \<Rightarrow> 'c world \<Rightarrow> (nat option \<times> 'c world) outcome" where
  "TCPWriteHandle_write E t ks w =
     and_then (is_tls t w) (\<lambda>tls.
       if tls then
         (let nth_or = (\<lambda>i. if i < length ks then ks ! i else SysWouldBlock);
              first = (case tcp_objs w t of
                         Some T \<Rightarrow> (case tls_conn (tstate T) of
                            Some c \<Rightarrow> fst (snd (tls_write_tls E c)) \<noteq> [] | None \<Rightarrow> False)
                       | None \<Rightarrow> False)
          in write_tls_conn E t (nth_or 0) (if first then nth_or 1 else nth_or 0) w)
       else write_plain t ks w)"

text \<open>The close alert a deferred \<^verbatim>\<open>close\<close> left to the write handle.\<close>

definition send_pending_close :: "'c ext \<Rightarrow> kernel \<Rightarrow> nat \<Rightarrow> 'c world \<Rightarrow> 'c world outcome" where
  "send_pending_close E K t w =
     with_tcp t w (\<lambda>T. borrow t w (\<lambda>st.
       case tls_conn st of
         None \<Rightarrow> Ret w
       | Some c \<Rightarrow>
           (let (_, tls_buf, c') = tls_write_tls E (tls_send_close_notify E c);
                w1 = upd_state t (\<lambda>st. st\<lparr>tls_conn := Some c', tls_close_sent := True,
                        tls_close_sent_time := Some (k_now K), tls_pending_close := False\<rparr>) w
            in Ret (if tls_buf \<noteq> [] then sys_write (tfd T) tls_buf (k_write K) w1 else w1))))"

text \<open>Whether the peer has had our close alert for longer than the timeout.\<close>

definition close_timed_out :: "kernel \<Rightarrow> 'c TCPTransportState \<Rightarrow> bool" where
  "close_timed_out K st =
     (tls_close_sent st \<and> tls_conn st \<noteq> None
      \<and> (case tls_close_sent_time st of None \<Rightarrow> False
         | Some sent_time \<Rightarrow> k_now K - sent_time > ssl_close_timeout st))"

text \<open>What \<^verbatim>\<open>run\<close> does with the result of \<^verbatim>\<open>write\<close>: the decision about closing.\<close>

definition after_write ::
  "'c ext \<Rightarrow> kernel \<Rightarrow> nat \<Rightarrow> nat option \<Rightarrow> 'c world \<Rightarrow> (bool option \<times> 'c world) outcome" where
  "after_write E K t res w =
     (case res of
        None \<Rightarrow> close_from_write_handle E t True w
      | Some written \<Rightarrow>
          and_then (if written > 0 then write_buf_size_decr E t w else Ret w) (\<lambda>w1.
          borrow t w1 (\<lambda>st.
            if write_buf st = [] then
              if tls_pending_close st
              then and_then (send_pending_close E K t w1) (\<lambda>w2. Ret (Some True, w2))
              else close_from_write_handle E t False w1
            else Ret (None, w1))))"

definition TCPWriteHandle_run ::
  "'c ext \<Rightarrow> kernel \<Rightarrow> fd \<Rightarrow> sysres list \<Rightarrow> 'c world \<Rightarrow> 'c world outcome" where
  "TCPWriteHandle_run E K f ks w =
     (case get_tcp_transport f w of
        None \<Rightarrow> Ret w
      | Some t \<Rightarrow>
          borrow t w (\<lambda>st.
            if close_timed_out K st then
              and_then (tcp_stream_rem f {READABLE} w) (\<lambda>w1.
              and_then (tcp_stream_rem f {WRITABLE} w1) (\<lambda>w2.
              call_conn_lost E K t None w2))
            else
              and_then (TCPWriteHandle_write E t ks w) (\<lambda>(res, w1).
              and_then (after_write E K t res w1) (\<lambda>(stream_close, w2).
              borrow t w2 (\<lambda>st2.
              and_then (if write_buf st2 = [] then tcp_stream_rem f {WRITABLE} w2 else Ret w2) (\<lambda>w3.
                case stream_close of
                  Some True \<Rightarrow> tcp_stream_close E K f w3
                | Some False \<Rightarrow> borrow t w3 (\<lambda>_. Ret (emit (ShutdownWrite f) w3))
                | None \<Rightarrow> Ret w3))))))"

section \<open>The write handle keeps the stream\<close>

text \<open>The kernel never takes more of a chunk than it was given, and reports no error.\<close>

fun answers_ok :: "bytes list \<Rightarrow> sysres list \<Rightarrow> bool" where
  "answers_ok [] ks = True"
| "answers_ok (data # bs) [] = True"
| "answers_ok (data # bs) (r # ks) =
     (case r of
        SysOk n \<Rightarrow> n \<le> length data \<and> (n = length data \<longrightarrow> answers_ok bs ks)
      | SysInterrupted \<Rightarrow> answers_ok (data # bs) ks
      | SysWouldBlock \<Rightarrow> True
      | SysErr _ \<Rightarrow> False)"

text \<open>The first answer that is not an interruption takes something.\<close>

fun takes_some :: "sysres list \<Rightarrow> bool" where
  "takes_some (SysOk n # ks) = (0 < n)"
| "takes_some (SysInterrupted # ks) = takes_some ks"
| "takes_some _ = False"

lemma write_chunks_progress:
  "write_chunks bs ks = (Some n, left, sent) \<Longrightarrow> bs \<noteq> [] \<Longrightarrow> takes_some ks \<Longrightarrow> 0 < n"
  by (induction bs ks arbitrary: n left sent rule: write_chunks.induct)
     (auto split: sysres.splits if_splits prod.splits)

lemma write_chunks_spec:
  assumes "answers_ok bs ks" "[] \<notin> set bs"
  shows "\<exists>left sent. write_chunks bs ks = (Some (length (concat sent)), left, sent)
           \<and> concat sent @ concat left = concat bs \<and> [] \<notin> set left"
  using assms
proof (induction bs ks rule: write_chunks.induct)
  case (3 data bs r ks)
  show ?case
  proof (cases r)
    case (SysOk n)
    show ?thesis
    proof (cases "n < length data")
      case False
      then have "n = length data" "answers_ok bs ks" "[] \<notin> set bs" using 3(3,4) SysOk by auto
      with 3(1) [OF SysOk False] show ?thesis using SysOk by auto
    qed (use SysOk 3(3,4) in \<open>auto intro!: exI [of _ "[take n data]"]\<close>)
  qed (use 3 in auto)
qed auto

lemma fold_sent [simp]:
  "trace (fold (\<lambda>b. emit (Sent f b)) bs w) = trace w @ map (Sent f) bs"
  "tcp_objs (fold (\<lambda>b. emit (Sent f b)) bs w) = tcp_objs w"
  "handles_io (fold (\<lambda>b. emit (Sent f b)) bs w) = handles_io w"
  "tcp_transports (fold (\<lambda>b. emit (Sent f b)) bs w) = tcp_transports w"
  by (induction bs arbitrary: w) auto

lemma map_Sent_simps [simp]:
  "sent_bytes f (map (Sent f) bs) = concat bs"
  "py_calls (map (Sent f) bs) = []"
  "fold reg_step (map (Sent f) bs) r = r"
  by (induction bs) (auto simp: sent_bytes_def py_calls_def)

text \<open>A transport whose buffer has shrunk to \<open>left\<close>.\<close>

abbreviation shrunk :: "bytes list \<Rightarrow> 'c TCPTransport \<Rightarrow> 'c TCPTransport" where
  "shrunk left T \<equiv> T\<lparr>tstate := (tstate T)\<lparr>write_buf := left, write_buf_dsize := buf_len left\<rparr>\<rparr>"

lemma write_plain_spec:
  assumes T: "tcp_objs w t = Some T" and ok: "tcp_ok T"
    and ks: "answers_ok (write_buf (tstate T)) ks"
  shows "\<exists>n left w1. write_plain t ks w = Ret (Some n, w1) \<and> tcp_objs w1 t = Some (shrunk left T)
     \<and> sent_bytes (tfd T) (trace w1) @ concat left = outgoing T w
     \<and> n + buf_len left = buf_len (write_buf (tstate T)) \<and> [] \<notin> set left
     \<and> handles_io w1 = handles_io w \<and> tcp_transports w1 = tcp_transports w
     \<and> requested (trace w1) = requested (trace w) \<and> py_calls (trace w1) = py_calls (trace w)
     \<and> (write_buf (tstate T) \<noteq> [] \<and> takes_some ks \<longrightarrow> 0 < n)"
proof -
  note okT = tcp_okD [OF ok]
  obtain left sent where c: "write_chunks (write_buf (tstate T)) ks = (Some (length (concat sent)), left, sent)"
    "concat sent @ concat left = concat (write_buf (tstate T))" "[] \<notin> set left"
    using write_chunks_spec [OF ks okT(3)] by blast
  then have len: "length (concat sent) + buf_len left = buf_len (write_buf (tstate T))"
    by (metis buf_len_def length_append)
  then have "usize_sub (write_buf_dsize (tstate T)) (length (concat sent)) = buf_len left"
    using okT(1,2) by simp
  moreover have "write_buf (tstate T) \<noteq> [] \<and> takes_some ks \<longrightarrow> 0 < length (concat sent)"
    using write_chunks_progress [OF c(1)] by blast
  ultimately show ?thesis using T okT(5) c len
    by (simp add: write_plain_def upd_state_def outgoing_def) (intro exI [of _ left], simp)
qed

lemma upd_same: "tcp_objs w t = Some T \<Longrightarrow> upd_tcp t (\<lambda>_. T) w = w"
  by (simp add: upd_tcp_def fun_upd_idem)

lemma write_buf_size_decr_spec:
  assumes T: "tcp_objs w t = Some T" "\<not> state_mut T" and py: "py_spares t E"
  defines "T' \<equiv> T\<lparr>proto_paused := (proto_paused T \<and> \<not> write_buf_dsize (tstate T) \<le> water_lo T)\<rparr>"
  shows "\<exists>w'. write_buf_size_decr E t w = Ret w' \<and> spared t T' (upd_tcp t (\<lambda>_. T') w) w'"
proof (cases "write_buf_dsize (tstate T) \<le> water_lo T \<and> proto_paused T")
  case True
  let ?w1 = "upd_tcp t (\<lambda>T. T\<lparr>proto_paused := False\<rparr>) w"
  have T1: "tcp_objs ?w1 t = Some T'" using T True by (simp add: T'_def)
  have "?w1 = upd_tcp t (\<lambda>_. T') w" using T True by (simp add: upd_tcp_def T'_def)
  then show ?thesis
    using spared_resume [OF py T1] T True by (auto simp: write_buf_size_decr_def)
next
  case False
  then have "T' = T" by (auto simp: T'_def)
  then show ?thesis using False T by (auto simp: write_buf_size_decr_def upd_same)
qed

lemma close_from_write_handle_spec:
  assumes T: "tcp_objs w t = Some T" and py: "py_spares t E"
  shows "\<exists>w'. close_from_write_handle E t False w =
        Ret (if closing T then Some True else if weof T then Some False else None, w')
     \<and> spared t T w w'
     \<and> (if closing T then \<exists>us. trace w' = trace w @ Py (ConnectionLost (proto T) None) # us else w' = w)"
  using T spared_call_py [OF py T, of "ConnectionLost (proto T) None"]
    call_py_trace [OF py T, of "ConnectionLost (proto T) None"]
  by (simp add: close_from_write_handle_def)

text \<open>
  The decision after a successful write without TLS. The protocol is resumed when something was
  written and the buffer is at or below the low mark.
\<close>

lemma after_write_spec:
  fixes n :: nat
  assumes T: "tcp_objs w t = Some T" "\<not> state_mut T" "\<not> tls_pending_close (tstate T)"
    and py: "py_spares t E"
  defines "T' \<equiv> T\<lparr>proto_paused := (proto_paused T \<and> \<not> (n > 0 \<and> write_buf_dsize (tstate T) \<le> water_lo T))\<rparr>"
  shows "\<exists>w1 w2. after_write E K t (Some n) w =
        Ret (if write_buf (tstate T) \<noteq> [] then None else if closing T then Some True
             else if weof T then Some False else None, w2)
     \<and> spared t T' (upd_tcp t (\<lambda>_. T') w) w1 \<and> spared t T' w1 w2
     \<and> (if write_buf (tstate T) = [] \<and> closing T
        then \<exists>us. trace w2 = trace w1 @ Py (ConnectionLost (proto T) None) # us else w2 = w1)"
proof -
  obtain w1 where w1: "(if n > 0 then write_buf_size_decr E t w else Ret w) = Ret w1"
    "spared t T' (upd_tcp t (\<lambda>_. T') w) w1"
  proof (cases "n > 0")
    case True
    then have "T' = T\<lparr>proto_paused := (proto_paused T \<and> \<not> write_buf_dsize (tstate T) \<le> water_lo T)\<rparr>"
      by (simp add: T'_def)
    then show ?thesis using write_buf_size_decr_spec [OF T(1,2) py] True that by auto
  next
    case False
    then have "T' = T" by (simp add: T'_def)
    then show ?thesis using False that [of w] T(1) by (simp add: upd_same)
  qed
  have T1: "tcp_objs w1 t = Some T'" using spared_fields(1) [OF w1(2)] .
  have st: "\<not> state_mut T'" "tstate T' = tstate T" "closing T' = closing T" "weof T' = weof T"
    "proto T' = proto T" using T(2) by (simp_all add: T'_def)
  have run: "after_write E K t (Some n) w = (if write_buf (tstate T) = []
      then close_from_write_handle E t False w1 else Ret (None, w1))"
    using w1(1) T1 st T(3) by (simp add: after_write_def)
  show ?thesis
  proof (cases "write_buf (tstate T) = []")
    case True
    obtain w2 where w2: "close_from_write_handle E t False w1 =
        Ret (if closing T then Some True else if weof T then Some False else None, w2)"
      "spared t T' w1 w2"
      "if closing T then \<exists>us. trace w2 = trace w1 @ Py (ConnectionLost (proto T) None) # us else w2 = w1"
      using close_from_write_handle_spec [OF T1 py] unfolding st by blast
    then show ?thesis using run True w1(2) by (intro exI [of _ w1] exI [of _ w2]) simp
  next
    case False
    then show ?thesis using run w1(2) T1 by (intro exI [of _ w1]) simp
  qed
qed

lemma spared_py_calls: "spared t T w w' \<Longrightarrow> \<exists>cs. py_calls (trace w') = py_calls (trace w) @ cs"
  by (auto simp: spared_def)

text \<open>What the write handle leaves behind: the transport with \<open>left\<close> still queued (and
\<open>resume_writing\<close> issued at the low-water mark), and the tail of
\<open>TCPWriteHandle::run\<close> once the bytes are out.\<close>

abbreviation drained :: "nat \<Rightarrow> bytes list \<Rightarrow> 'c TCPTransport \<Rightarrow> 'c TCPTransport" where
  "drained n left T \<equiv> (shrunk left T)\<lparr>proto_paused :=
     (proto_paused T \<and> \<not> (n > 0 \<and> buf_len left \<le> water_lo T))\<rparr>"

abbreviation write_finish where
  "write_finish E K t T left w \<equiv>
     and_then (if left = [] then tcp_stream_rem (tfd T) {WRITABLE} w else Ret w) (\<lambda>w3.
       case (if left \<noteq> [] then None else if closing T then Some True else if weof T then Some False else None)
       of Some True \<Rightarrow> tcp_stream_close E K (tfd T) w3
        | Some False \<Rightarrow> borrow t w3 (\<lambda>_. Ret (emit (ShutdownWrite (tfd T)) w3)) | None \<Rightarrow> Ret w3)"

lemma write_handle_run:
  assumes inv: "tcp_inv t w" and T: "tcp_objs w t = Some T" "tls_conn (tstate T) = None"
      "\<not> tls_pending_close (tstate T)"
    and att: "tcp_transports w (tfd T) = Some t" and py: "py_spares t E"
    and ks: "answers_ok (write_buf (tstate T)) ks"
  obtains n left w2 where "n + buf_len left = buf_len (write_buf (tstate T))" "[] \<notin> set left"
    "tcp_objs w2 t = Some (drained n left T)"
    "sent_bytes (tfd T) (trace w2) @ concat left = outgoing T w"
    "owns IOTCPStream (tfd T) w2" "io_wf w2" "poll_agrees w2"
    "watching IOTCPStream (tfd T) w2 = watching IOTCPStream (tfd T) w"
    "tcp_transports w2 (tfd T) = Some t"
    "left = [] \<and> closing T \<longrightarrow> ConnectionLost (proto T) None \<in> set (py_calls (trace w2))"
    "write_buf (tstate T) \<noteq> [] \<and> takes_some ks \<longrightarrow> 0 < n"
    "TCPWriteHandle_run E K (tfd T) ks w = write_finish E K t T left w2"
proof -
  note ok = tcp_inv_SomeD [OF inv T(1)] and okT = tcp_okD [OF tcp_inv_SomeD(1) [OF inv T(1)]]
  obtain n left w1 where w1: "write_plain t ks w = Ret (Some n, w1)"
    "tcp_objs w1 t = Some (shrunk left T)"
    "sent_bytes (tfd T) (trace w1) @ concat left = outgoing T w"
    "n + buf_len left = buf_len (write_buf (tstate T))" "[] \<notin> set left"
    "handles_io w1 = handles_io w" "tcp_transports w1 = tcp_transports w"
    "requested (trace w1) = requested (trace w)" "write_buf (tstate T) \<noteq> [] \<and> takes_some ks \<longrightarrow> 0 < n"
    using write_plain_spec [OF T(1) ok(1) ks] by blast
  let ?T' = "drained n left T"
  let ?sc = "if left \<noteq> [] then None else if closing T then Some True else if weof T then Some False else None"
  have "\<exists>u w2. after_write E K t (Some n) w1 = Ret (?sc, w2)
     \<and> spared t ?T' (upd_tcp t (\<lambda>_. ?T') w1) u \<and> spared t ?T' u w2
     \<and> (if left = [] \<and> closing T
        then \<exists>us. trace w2 = trace u @ Py (ConnectionLost (proto T) None) # us else w2 = u)"
    using after_write_spec [OF w1(2) _ _ py, of K n] okT(5) T(3)
    by (simp split del: if_split cong: if_cong)
  then obtain u w2 where w2: "after_write E K t (Some n) w1 = Ret (?sc, w2)"
    "spared t ?T' (upd_tcp t (\<lambda>_. ?T') w1) u" "spared t ?T' u w2"
    "left = [] \<and> closing T \<Longrightarrow> \<exists>us. trace w2 = trace u @ Py (ConnectionLost (proto T) None) # us"
    by (auto split: if_splits)
  have sp: "spared t ?T' (upd_tcp t (\<lambda>_. ?T') w1) w2" by (rule spared_trans [OF w2(2,3)])
  note sf = spared_fields [OF sp] spared_sent [OF sp]
  have io: "owns IOTCPStream (tfd T) w1" "io_wf w1" "poll_agrees w1"
    "watching IOTCPStream (tfd T) w1 = watching IOTCPStream (tfd T) w"
    using ok(2-4) w1(6,8) by (simp_all add: registry_defs)
  have lost: "left = [] \<and> closing T \<longrightarrow> ConnectionLost (proto T) None \<in> set (py_calls (trace w2))"
    using w2(4) by (auto simp: py_calls_Py_Cons)
  have "TCPWriteHandle_run E K (tfd T) ks w = write_finish E K t T left w2"
    using T okT(5) att w1(1) w2(1) sf(1)
    by (simp add: TCPWriteHandle_run_def get_tcp_transport_def TCPWriteHandle_write_def is_tls_def
        close_timed_out_def cong: if_cong)
  then show thesis
    using that [OF w1(4,5) sf(1) _ _ _ _ _ _ lost w1(9)] sf(2-6) io w1(3,7) att by simp
qed

lemma write_finish_drained:
  assumes w: "tcp_objs w t = Some (drained n [] T)" "tcp_ok (drained n [] T)" "tls_conn (tstate T) = None"
    and io: "owns IOTCPStream (tfd T) w" "io_wf w" "poll_agrees w" "tcp_transports w (tfd T) = Some t"
  shows "\<exists>w'. write_finish E K t T [] w = Ret w' \<and> tcp_objs w' t = Some (drained n [] T) \<and> tcp_inv t w'
    \<and> sent_bytes (tfd T) (trace w') = sent_bytes (tfd T) (trace w)
    \<and> watching IOTCPStream (tfd T) w' = watching IOTCPStream (tfd T) w - {WRITABLE}
    \<and> (closing T \<longrightarrow> tcp_transports w' (tfd T) = None \<and> py_calls (trace w') = py_calls (trace w))
    \<and> (\<not> closing T \<longrightarrow> tcp_transports w' (tfd T) = Some t)
    \<and> (\<not> closing T \<and> weof T \<longrightarrow> ShutdownWrite (tfd T) \<in> set (trace w'))"
proof -
  from tcp_src.rem_keeps [OF io(1-3), of WRITABLE]
  obtain w3 where w3: "tcp_stream_rem (tfd T) {WRITABLE} w = Ret w3"
    "watching IOTCPStream (tfd T) w3 = watching IOTCPStream (tfd T) w - {WRITABLE}"
    "poll_agrees w3" "io_wf w3" "io_frame w w3" "owns IOTCPStream (tfd T) w3" by auto
  note f3 = io_frame_fields [OF w3(5)]
  have T3: "tcp_objs w3 t = Some (drained n [] T)" using f3(1) w(1) by simp
  let ?w' = "if closing T then drop_stream (drained n [] T) w3
     else if weof T then emit (ShutdownWrite (tfd T)) w3 else w3"
  have same: "handles_io ?w' = handles_io w3" "requested (trace ?w') = requested (trace w3)"
    "tcp_objs ?w' t = Some (drained n [] T)" using T3 by simp_all
  have inv: "tcp_inv t ?w'"
    using w3(3,4,6) w(2) same(1,2)
    by (intro tcp_inv_SomeI [OF same(3)]) (simp_all add: registry_defs)
  have "write_finish E K t T [] w = Ret ?w'"
    using w3(1) tcp_stream_close_drops [OF T3] tcp_okD(5) [OF w(2)] w(3) f3(2) io(4) T3 by simp
  then show ?thesis
    using w3(2) f3(2,4,5) io(4) same inv by (intro exI [of _ ?w']) (simp add: watching_def)
qed

lemma write_handle_spec:
  assumes inv: "tcp_inv t w" and T: "tcp_objs w t = Some T" "tls_conn (tstate T) = None"
      "\<not> tls_pending_close (tstate T)"
    and att: "tcp_transports w (tfd T) = Some t" and py: "py_spares t E"
    and ks: "answers_ok (write_buf (tstate T)) ks"
  shows "\<exists>w' left n. TCPWriteHandle_run E K (tfd T) ks w = Ret w'
     \<and> n + buf_len left = buf_len (write_buf (tstate T))
     \<and> tcp_objs w' t = Some ((shrunk left T)\<lparr>proto_paused :=
          (proto_paused T \<and> \<not> (n > 0 \<and> buf_len left \<le> water_lo T))\<rparr>)
     \<and> sent_bytes (tfd T) (trace w') @ concat left = outgoing T w
     \<and> (write_buf (tstate T) \<noteq> [] \<and> takes_some ks \<longrightarrow> 0 < n)
     \<and> (left \<noteq> [] \<or> \<not> closing T \<longrightarrow> tcp_transports w' (tfd T) = Some t)
     \<and> watching IOTCPStream (tfd T) w' = watching IOTCPStream (tfd T) w - (if left = [] then {WRITABLE} else {})
     \<and> tcp_inv t w'
     \<and> (left = [] \<longrightarrow> WRITABLE \<notin> watching IOTCPStream (tfd T) w'
          \<and> (closing T \<longrightarrow> tcp_transports w' (tfd T) = None
                \<and> ConnectionLost (proto T) None \<in> set (py_calls (trace w')))
          \<and> (\<not> closing T \<and> weof T \<longrightarrow> ShutdownWrite (tfd T) \<in> set (trace w')))"
proof -
  note okT = tcp_okD [OF tcp_inv_SomeD(1) [OF inv T(1)]] and ne = tcp_inv_SomeD(5) [OF inv T(1)]
  obtain n left w2 where w2: "n + buf_len left = buf_len (write_buf (tstate T))" "[] \<notin> set left"
    "tcp_objs w2 t = Some (drained n left T)"
    "sent_bytes (tfd T) (trace w2) @ concat left = outgoing T w"
    and io: "owns IOTCPStream (tfd T) w2" "io_wf w2" "poll_agrees w2"
    "watching IOTCPStream (tfd T) w2 = watching IOTCPStream (tfd T) w"
    "tcp_transports w2 (tfd T) = Some t"
    and lost: "left = [] \<and> closing T \<longrightarrow> ConnectionLost (proto T) None \<in> set (py_calls (trace w2))"
    and run: "write_buf (tstate T) \<noteq> [] \<and> takes_some ks \<longrightarrow> 0 < n"
    "TCPWriteHandle_run E K (tfd T) ks w = write_finish E K t T left w2"
    by (rule write_handle_run [OF inv T att py ks, where K = K])
  have ok': "tcp_ok (drained n left T)" using okT w2(1,2) by (simp add: tcp_ok_def)
  show ?thesis
  proof (cases "left = []")
    case False
    then have "write_buf (tstate T) \<noteq> []" using w2(1,2) by (auto simp: buf_len_0 [symmetric])
    then have "tcp_inv t w2"
      using io ok' ne att False by (intro tcp_inv_SomeI [OF w2(3)]) simp_all
    then show ?thesis using run False w2 io(4,5) by (intro exI [of _ w2] exI [of _ left] exI [of _ n]) simp
  next
    case True
    from write_finish_drained [OF w2(3) [unfolded True] ok' [unfolded True] T(2) io(1-3,5), of E K]
    obtain w' where "write_finish E K t T [] w2 = Ret w'" "tcp_objs w' t = Some (drained n [] T)"
      "tcp_inv t w'" "sent_bytes (tfd T) (trace w') = sent_bytes (tfd T) (trace w2)"
      "watching IOTCPStream (tfd T) w' = watching IOTCPStream (tfd T) w2 - {WRITABLE}"
      "closing T \<longrightarrow> tcp_transports w' (tfd T) = None \<and> py_calls (trace w') = py_calls (trace w2)"
      "\<not> closing T \<longrightarrow> tcp_transports w' (tfd T) = Some t"
      "\<not> closing T \<and> weof T \<longrightarrow> ShutdownWrite (tfd T) \<in> set (trace w')"
      by (elim exE conjE) (rule that)
    then show ?thesis using run lost w2 io(4) True
      by (intro exI [of _ w'] exI [of _ left] exI [of _ n]) simp
  qed
qed

text \<open>
  C10. Running the write handle of an attached transport without TLS, with any answers of the
  kernel but errors. It returns; the bytes sent followed by the bytes buffered are unchanged; the
  protocol is resumed exactly if something was written and the buffer is at or below the low mark;
  the invariant holds again. Once the buffer is empty the stream is no longer watched for writing,
  a close that was waiting for it takes place (\<^verbatim>\<open>connection_lost(None)\<close>, the loop forgets the
  transport), and otherwise a pending end of file shuts the sending side down.
\<close>

theorem write_handle_correct:
  assumes inv: "tcp_inv t w" and T: "tcp_objs w t = Some T" "tls_conn (tstate T) = None"
      "\<not> tls_pending_close (tstate T)"
    and att: "tcp_transports w (tfd T) = Some t" and py: "py_spares t E"
    and ks: "answers_ok (write_buf (tstate T)) ks"
  shows "\<exists>w' left n. TCPWriteHandle_run E K (tfd T) ks w = Ret w'
     \<and> n + buf_len left = buf_len (write_buf (tstate T))
     \<and> tcp_objs w' t = Some ((shrunk left T)\<lparr>proto_paused :=
          (proto_paused T \<and> \<not> (n > 0 \<and> buf_len left \<le> water_lo T))\<rparr>)
     \<and> sent_bytes (tfd T) (trace w') @ concat left = outgoing T w
     \<and> tcp_inv t w'
     \<and> (left = [] \<longrightarrow> WRITABLE \<notin> watching IOTCPStream (tfd T) w'
          \<and> (closing T \<longrightarrow> tcp_transports w' (tfd T) = None
                \<and> ConnectionLost (proto T) None \<in> set (py_calls (trace w')))
          \<and> (\<not> closing T \<and> weof T \<longrightarrow> ShutdownWrite (tfd T) \<in> set (trace w')))"
  using write_handle_spec [OF assms, of K] by blast

theorem write_handle_correct_witness:
  "let T = demo_tcp\<lparr>tstate := (tstate demo_tcp)\<lparr>write_buf := [[1, 2]], write_buf_dsize := 2\<rparr>, closing := True\<rparr>;
       w = (demo_world T)\<lparr>handles_io := [7 \<mapsto> IOTCPStream {WRITABLE}],
                          trace := [Poll (Register 7 {WRITABLE})]\<rparr>
   in tcp_inv 0 w \<and> answers_ok (write_buf (tstate T)) [SysOk 2] \<and>
      (\<exists>w' left. TCPWriteHandle_run demo_ext \<lparr>k_write = SysWouldBlock, k_now = 0\<rparr> 7 [SysOk 2] w = Ret w'
         \<and> sent_bytes 7 (trace w') @ concat left = [1, 2])"
proof -
  let ?T = "demo_tcp\<lparr>tstate := (tstate demo_tcp)\<lparr>write_buf := [[1, 2]], write_buf_dsize := 2\<rparr>, closing := True\<rparr>"
  let ?w = "(demo_world ?T)\<lparr>handles_io := [7 \<mapsto> IOTCPStream {WRITABLE}],
                          trace := [Poll (Register 7 {WRITABLE})]\<rparr>"
  have "tcp_ok ?T" using demo_tcp_ok by (simp add: tcp_ok_def usize_max1_def)
  then have inv: "tcp_inv 0 ?w"
    by (simp add: tcp_inv_def demo_world_def registry_defs requested_def)
  have T: "tcp_objs ?w 0 = Some ?T" by simp
  have ks: "answers_ok (write_buf (tstate ?T)) [SysOk 2]" by simp
  have "outgoing ?T ?w = [1, 2]" by (simp add: outgoing_def)
  then show ?thesis
    using write_handle_correct [OF inv T _ _ _ demo_ext_spares ks, of "\<lparr>k_write = SysWouldBlock, k_now = 0\<rparr>"]
      inv ks by (simp add: Let_def) blast
qed

text \<open>
  C37. An error of the kernel in the write handle of an open transport goes unreported: the whole
  buffer is dropped, no Python code is called, the transport stays attached and open, and a
  protocol that was paused is not resumed.
\<close>

theorem write_handle_error_unreported:
  assumes inv: "tcp_inv t w" and T: "tcp_objs w t = Some T" "tls_conn (tstate T) = None"
      "\<not> closing T" "\<not> weof T" "write_buf (tstate T) \<noteq> []"
    and att: "tcp_transports w (tfd T) = Some t"
  shows "\<exists>w'. TCPWriteHandle_run E K (tfd T) (SysErr e # ks) w = Ret w'
     \<and> tcp_objs w' t = Some (shrunk [] T)
     \<and> sent_bytes (tfd T) (trace w') = sent_bytes (tfd T) (trace w)
     \<and> py_calls (trace w') = py_calls (trace w) \<and> tcp_transports w' (tfd T) = Some t"
proof -
  note ok = tcp_inv_SomeD [OF inv T(1)] and okT = tcp_okD [OF tcp_inv_SomeD(1) [OF inv T(1)]]
  let ?w1 = "upd_state t (\<lambda>st. st\<lparr>write_buf := [], write_buf_dsize := 0\<rparr>) w"
  have T1: "tcp_objs ?w1 t = Some (shrunk [] T)" using T(1) by (simp add: upd_state_def)
  have "write_plain t (SysErr e # ks) w = Ret (None, ?w1)"
    using T(1,5) okT(5) by (cases "write_buf (tstate T)") (simp_all add: write_plain_def)
  then have wr: "TCPWriteHandle_write E t (SysErr e # ks) w = Ret (None, ?w1)"
    using T okT(5) by (simp add: TCPWriteHandle_write_def is_tls_def)
  have "owns IOTCPStream (tfd T) ?w1" "io_wf ?w1" "poll_agrees ?w1" using ok by (simp_all add: upd_state_def)
  from tcp_src.rem_keeps [OF this, of WRITABLE]
  obtain w2 where w2: "tcp_stream_rem (tfd T) {WRITABLE} ?w1 = Ret w2" "io_frame ?w1 w2" by auto
  note f2 = io_frame_fields [OF w2(2)]
  have "TCPWriteHandle_run E K (tfd T) (SysErr e # ks) w = Ret w2"
    using T okT(5) att wr T1 w2(1)
    by (simp add: TCPWriteHandle_run_def get_tcp_transport_def close_timed_out_def after_write_def
        close_from_write_handle_def)
  then show ?thesis using f2 T1 att by (simp add: upd_state_def)
qed

theorem write_handle_error_unreported_witness:
  "let T = demo_tcp\<lparr>tstate := (tstate demo_tcp)\<lparr>write_buf := [[1, 2]], write_buf_dsize := 2\<rparr>\<rparr>;
       w = (demo_world T)\<lparr>handles_io := [7 \<mapsto> IOTCPStream {WRITABLE}],
                          trace := [Poll (Register 7 {WRITABLE})]\<rparr>
   in \<exists>w'. TCPWriteHandle_run demo_ext \<lparr>k_write = SysWouldBlock, k_now = 0\<rparr> 7 [SysErr ''EPIPE''] w = Ret w'
         \<and> py_calls (trace w') = py_calls (trace w)"
proof -
  let ?T = "demo_tcp\<lparr>tstate := (tstate demo_tcp)\<lparr>write_buf := [[1, 2]], write_buf_dsize := 2\<rparr>\<rparr>"
  let ?w = "(demo_world ?T)\<lparr>handles_io := [7 \<mapsto> IOTCPStream {WRITABLE}],
                          trace := [Poll (Register 7 {WRITABLE})]\<rparr>"
  have "tcp_ok ?T" using demo_tcp_ok by (simp add: tcp_ok_def usize_max1_def)
  then have inv: "tcp_inv 0 ?w"
    by (simp add: tcp_inv_def demo_world_def registry_defs requested_def)
  show ?thesis
    using write_handle_error_unreported [OF inv, of ?T demo_ext "\<lparr>k_write = SysWouldBlock, k_now = 0\<rparr>" "''EPIPE''" "[]"]
    by (auto simp: Let_def)
qed

section \<open>The read handle delivers the stream\<close>

text \<open>The bytes a script holds before the end of the stream, and a script without interruption.\<close>

fun rd_bytes :: "rdres list \<Rightarrow> bytes" where
  "rd_bytes [] = []"
| "rd_bytes (RdOk d # s) = (if d = [] then [] else d @ rd_bytes s)"
| "rd_bytes (_ # s) = rd_bytes s"

definition steady :: "rdres list \<Rightarrow> bool" where
  "steady s = (\<forall>r \<in> set s. case r of RdOk _ \<Rightarrow> True | RdInterrupted \<Rightarrow> True | _ \<Rightarrow> False)"

text \<open>The data given to a protocol, in order; Python code does not itself deliver any.\<close>

definition received :: "pyobj \<Rightarrow> effect list \<Rightarrow> bytes" where
  "received p tr =
     concat (map (\<lambda>e. case e of Py (DataReceived q b) \<Rightarrow> if q = p then b else [] | _ \<Rightarrow> []) tr)"

definition py_delivers_nothing :: "'c ext \<Rightarrow> bool" where
  "py_delivers_nothing E =
     (\<forall>c w. \<exists>us. trace (snd (py E c w)) = trace w @ us \<and> (\<forall>p. received p us = []))"

lemma received_simps [simp]:
  "received p [] = []"
  "received p (tr @ us) = received p tr @ received p us"
  "received p [Py (DataReceived q b)] = (if q = p then b else [])"
  by (simp_all add: received_def)

lemma received_call_py:
  assumes "py_delivers_nothing E"
  shows "received p (trace (snd (call_py E c w))) = received p (trace w) @ received p [Py c]"
proof -
  obtain us where "trace (snd (py E c (emit (Py c) w))) = trace (emit (Py c) w) @ us" "received p us = []"
    using assms unfolding py_delivers_nothing_def by blast
  moreover have "received p (Py c # us) = received p [Py c] @ received p us"
    by (simp add: received_def)
  ultimately show ?thesis by (simp add: call_py_def)
qed

lemma read_into_bytes: "read_into room s = (b, closed, s') \<Longrightarrow> b @ rd_bytes s' = rd_bytes s"
  by (induction room s arbitrary: b closed s' rule: read_into.induct)
     (fastforce split: if_splits rdres.splits prod.splits)+

lemma steady_simps [simp]:
  "steady []"
  "steady (RdOk d # s) = steady s"
  "steady (RdInterrupted # s) = steady s"
  "\<not> steady (RdWouldBlock # s)"
  "\<not> steady (RdErr e # s)"
  by (simp_all add: steady_def)

lemma read_into_steady:
  "read_into room s = (b, closed, s') \<Longrightarrow> steady s \<Longrightarrow> steady s'"
  by (induction room s arbitrary: b closed s' rule: read_into.induct)
     (auto split: if_splits rdres.splits prod.splits)

lemma read_into_closed: "read_into room s = (b, True, s') \<Longrightarrow> \<exists>r. s' = RdOk [] # r"
  by (induction room s arbitrary: b s' rule: read_into.induct)
     (auto split: if_splits rdres.splits prod.splits)

lemma read_into_blocked:
  "read_into room s = ([], False, s') \<Longrightarrow> steady s \<Longrightarrow> 0 < room \<Longrightarrow> s' = []"
  by (induction room s arbitrary: s' rule: read_into.induct)
     (auto split: if_splits rdres.splits prod.splits)

lemma read_into_eof:
  "read_into room s = (b, closed, s') \<Longrightarrow> (RdOk [] \<in> set s') = (RdOk [] \<in> set s)"
  by (induction room s arbitrary: b closed s' rule: read_into.induct)
     (auto split: if_splits rdres.splits prod.splits)

lemma tcp_recv_plain:
  assumes "tcp_objs w t = Some T" "tls_conn (tstate T) = None" "\<not> proto_buffered T" "\<not> state_mut T"
    and "read_into room s = (b, closed, s1)"
  shows "tcp_recv E t f room w s = Ret (if b \<noteq> [] then Some (RData b) else None, closed, w, s1)"
  using assms by (simp add: tcp_recv_def recv_direct_def)

lemma read_loop_delivers:
  assumes "tcp_objs w t = Some T" "tls_conn (tstate T) = None" "\<not> proto_buffered T" "\<not> state_mut T"
    and "py_spares t E" "py_delivers_nothing E" "0 < room" "steady s"
  shows "\<exists>w' s'. read_loop E t f room w s = Ret (RdOk [] \<in> set s, w', s') \<and> spared t T w w'
     \<and> received (proto T) (trace w') = received (proto T) (trace w) @ rd_bytes s"
  using assms(1,8)
proof (induction "script_size s" arbitrary: w s rule: less_induct)
  case less
  obtain b closed s1 where r: "read_into room s = (b, closed, s1)" by (cases "read_into room s")
  note rf = read_into_bytes [OF r] read_into_steady [OF r less.prems(2)] read_into_eof [OF r]
  note recv = tcp_recv_plain [OF less.prems(1) assms(2-4) r]
  have eof: "closed \<Longrightarrow> RdOk [] \<in> set s \<and> rd_bytes s1 = []"
    using read_into_closed [of room s b s1] r rf(3) by auto
  show ?case
  proof (cases "b = []")
    case True
    have "\<not> closed \<Longrightarrow> s1 = []" using read_into_blocked [of room s s1] r True less.prems(2) assms(7) by simp
    then have "closed = (RdOk [] \<in> set s) \<and> rd_bytes s = []" using eof rf(1,3) True by (cases closed) auto
    then show ?thesis
      using recv True less.prems(1) by (subst read_loop.simps) simp
  next
    case False
    let ?w1 = "snd (call_py E (DataReceived (proto T) b) w)"
    have sp: "spared t T w ?w1" by (rule spared_call_py [OF assms(5) less.prems(1)])
    have T1: "tcp_objs ?w1 t = Some T" using spared_fields(1) [OF sp] .
    have rcv: "received (proto T) (trace ?w1) = received (proto T) (trace w) @ b"
      using received_call_py [OF assms(6)] by simp
    have step: "read_loop E t f room w s = (if closed then Ret (True, ?w1, s1) else read_loop E t f room ?w1 s1)"
      using recv False less.prems(1) by (subst read_loop.simps) (simp add: deliver_def)
    show ?thesis
    proof (cases closed)
      case True
      then show ?thesis using step sp rcv eof rf(1) by simp
    next
      case False
      from less.hyps [OF read_into_consumes [OF r \<open>b \<noteq> []\<close>] T1 rf(2)]
      obtain w' s' where "read_loop E t f room ?w1 s1 = Ret (RdOk [] \<in> set s1, w', s')" "spared t T ?w1 w'"
        "received (proto T) (trace w') = received (proto T) (trace ?w1) @ rd_bytes s1" by blast
      then show ?thesis using step False rcv rf(1,3) spared_trans [OF sp] by simp
    qed
  qed
qed

text \<open>
  Closing from the read handle, for an open transport without TLS whose reading side is no longer
  watched; \<open>read_finish\<close> is the end of \<^verbatim>\<open>run\<close>.
\<close>

definition read_finish :: "'c ext \<Rightarrow> kernel \<Rightarrow> fd \<Rightarrow> bool \<times> 'c world \<Rightarrow> 'c world outcome" where
  "read_finish E K f = (\<lambda>(close, w). if close then tcp_stream_close E K f w else Ret w)"

lemma spared_inv:
  assumes "spared t T w w'" "tcp_inv t w" "tcp_objs w t = Some T"
  shows "tcp_inv t w'" "outgoing T w' = outgoing T w"
  using spared_fields [OF assms(1)] tcp_inv_SomeD [OF assms(2,3)] spared_sent [OF assms(1)]
  by (auto intro!: tcp_inv_SomeI simp: outgoing_def)

lemma read_close_spec:
  assumes inv: "tcp_inv t w" and T: "tcp_objs w t = Some T" "tls_conn (tstate T) = None" "\<not> closing T"
    and att: "tcp_transports w (tfd T) = Some t" and py: "py_spares t E"
    and rd: "READABLE \<notin> watching IOTCPStream (tfd T) w"
  shows "\<exists>w' us. and_then (close_from_read_handle E K t w) (read_finish E K (tfd T)) = Ret w'
     \<and> tcp_inv t w' \<and> outgoing T w' = outgoing T w \<and> tcp_objs w' t = Some (T\<lparr>closing := True\<rparr>)
     \<and> READABLE \<notin> watching IOTCPStream (tfd T) w' \<and> py_calls (trace w') = py_calls (trace w) @ us
     \<and> (if write_buf (tstate T) = []
        then tcp_transports w' (tfd T) = None \<and> handles_io w' (tfd T) = None
          \<and> ConnectionLost (proto T) None \<in> set us
        else tcp_transports w' (tfd T) = Some t \<and> WRITABLE \<in> watching IOTCPStream (tfd T) w')"
proof -
  note ok = tcp_inv_SomeD [OF inv T(1)] and okT = tcp_okD [OF tcp_inv_SomeD(1) [OF inv T(1)]]
  let ?w3 = "upd_tcp t (\<lambda>T. T\<lparr>closing := True\<rparr>) w" and ?T3 = "T\<lparr>closing := True\<rparr>"
  have T3: "tcp_objs ?w3 t = Some ?T3" using T(1) by simp
  have ok3: "tcp_ok ?T3" using ok(1) by (simp add: tcp_ok_def)
  have run: "close_from_read_handle E K t w = (if write_buf (tstate T) \<noteq> [] then Ret (False, ?w3)
      else and_then (tcp_stream_rem (tfd T) {WRITABLE} ?w3) (\<lambda>w4.
           Ret (True, snd (call_py E (ConnectionLost (proto T) None) w4))))"
    using T okT(5) by (simp add: close_from_read_handle_def Let_def)
  show ?thesis
  proof (cases "write_buf (tstate T) = []")
    case False
    have "tcp_inv t ?w3" using ok ok3 by (intro tcp_inv_SomeI [OF T3]) auto
    then show ?thesis using run False T3 att ok(5) rd
      by (intro exI [of _ ?w3] exI [of _ "[]"]) (simp add: outgoing_def read_finish_def)
  next
    case True
    have pre: "tcp_ok ?T3" "closing ?T3" "write_buf (tstate ?T3) = []" "tcp_transports ?w3 (tfd ?T3) = Some t"
      "READABLE \<notin> watching IOTCPStream (tfd ?T3) ?w3" "owns IOTCPStream (tfd ?T3) ?w3" "io_wf ?w3"
      "poll_agrees ?w3" using ok3 True att rd ok by simp_all
    obtain w4 w5 us where w5: "tcp_stream_rem (tfd ?T3) {WRITABLE} ?w3 = Ret w4"
      "snd (call_py E (ConnectionLost (proto ?T3) None) w4) = w5"
      "tcp_stream_close E K (tfd ?T3) w5 = Ret (drop_stream ?T3 w5)"
      "tcp_objs (drop_stream ?T3 w5) t = Some ?T3" "tcp_inv t (drop_stream ?T3 w5)"
      "handles_io (drop_stream ?T3 w5) (tfd ?T3) = None"
      "py_calls (trace (drop_stream ?T3 w5)) = py_calls (trace ?w3) @ ConnectionLost (proto ?T3) None # us"
      "sent_bytes (tfd ?T3) (trace (drop_stream ?T3 w5)) = sent_bytes (tfd ?T3) (trace ?w3)"
      by (rule lose_connection [OF T3 pre(1-3,6-8,5,4) py])
    have "READABLE \<notin> watching IOTCPStream (tfd T) (drop_stream ?T3 w5)"
      using w5(6) by (simp add: watching_def)
    then show ?thesis using run w5 True
      by (intro exI [of _ "drop_stream ?T3 w5"] exI [of _ "ConnectionLost (proto T) None # us"])
        (simp add: read_finish_def outgoing_def)
  qed
qed

lemma recv_eof_reports:
  assumes inv: "tcp_inv t w" and T: "tcp_objs w t = Some T" "tls_conn (tstate T) = None"
    and py: "py_spares t E" and ans: "\<forall>w. fst (py E (EofReceived (proto T)) w) = ans"
  obtains w3 us where "recv_eof E K t (tfd T) w =
      (if \<exists>x. ans = PyOk x True then Ret (False, w3) else close_from_read_handle E K t w3)"
    "tcp_inv t w3" "tcp_objs w3 t = Some T" "tcp_transports w3 (tfd T) = tcp_transports w (tfd T)"
    "outgoing T w3 = outgoing T w" "READABLE \<notin> watching IOTCPStream (tfd T) w3"
    "py_calls (trace w3) = py_calls (trace w) @ EofReceived (proto T) # us"
proof -
  note ok = tcp_inv_SomeD [OF inv T(1)]
  from tcp_src.rem_keeps [OF ok(2-4), of READABLE]
  obtain w2 where w2: "tcp_stream_rem (tfd T) {READABLE} w = Ret w2"
    "watching IOTCPStream (tfd T) w2 = watching IOTCPStream (tfd T) w - {READABLE}"
    "poll_agrees w2" "io_wf w2" "io_frame w w2" "owns IOTCPStream (tfd T) w2" by auto
  note f2 = io_frame_fields [OF w2(5)]
  have T2: "tcp_objs w2 t = Some T" using f2(1) T(1) by simp
  have inv2: "tcp_inv t w2"
    using w2(2-4,6) ok(1,5) f2(2) by (intro tcp_inv_SomeI [OF T2]) auto
  obtain w3 where w3: "snd (call_py E (EofReceived (proto T)) w2) = w3" by blast
  have sp: "spared t T w2 w3" using spared_call_py [OF py T2] w3 by blast
  note s3 = spared_fields [OF sp] and inv3 = spared_inv [OF sp inv2 T2]
  obtain us where us: "trace w3 = trace w2 @ Py (EofReceived (proto T)) # us"
    using call_py_trace [OF py T2] w3 by blast
  have call: "call_py E (EofReceived (proto T)) w2 = (ans, w3)"
    using ans w3 by (simp add: call_py_def prod_eq_iff)
  have "recv_eof E K t (tfd T) w =
      (if \<exists>x. ans = PyOk x True then Ret (False, w3) else close_from_read_handle E K t w3)"
    using w2(1) T2 call s3(1) T(2) tcp_okD(5) [OF ok(1)]
    by (auto simp: recv_eof_def split: pyres.splits bool.splits)
  from that [OF this inv3(1) s3(1), of "py_calls us"] show thesis
    using s3(3,4) w2(2) f2(2,4,5) inv3(2) us by (simp add: py_calls_Py_Cons outgoing_def)
qed

lemma read_handle_spec:
  assumes inv: "tcp_inv t w" and T: "tcp_objs w t = Some T" "tls_conn (tstate T) = None"
      "\<not> closing T" "\<not> proto_buffered T"
    and att: "tcp_transports w (tfd T) = Some t" and py: "py_spares t E" "py_delivers_nothing E"
    and s: "0 < room" "steady s"
    and ans: "\<forall>w. fst (py E (EofReceived (proto T)) w) = ans"
  shows "\<exists>w1 w'. TCPReadHandle_run E K (tfd T) room s w = Ret w' \<and> spared t T w w1
     \<and> received (proto T) (trace w1) = received (proto T) (trace w) @ rd_bytes s
     \<and> tcp_inv t w' \<and> outgoing T w' = outgoing T w
     \<and> (if RdOk [] \<notin> set s then w' = w1
        else READABLE \<notin> watching IOTCPStream (tfd T) w'
          \<and> (\<exists>us. py_calls (trace w') = py_calls (trace w1) @ EofReceived (proto T) # us
             \<and> (if \<exists>x. ans = PyOk x True
                then tcp_objs w' t = Some T \<and> tcp_transports w' (tfd T) = Some t
                else tcp_objs w' t = Some (T\<lparr>closing := True\<rparr>)
                  \<and> (if write_buf (tstate T) = []
                     then tcp_transports w' (tfd T) = None \<and> handles_io w' (tfd T) = None
                       \<and> ConnectionLost (proto T) None \<in> set us
                     else tcp_transports w' (tfd T) = Some t
                       \<and> WRITABLE \<in> watching IOTCPStream (tfd T) w'))))"
proof -
  obtain w1 s' where w1: "read_loop E t (tfd T) room w s = Ret (RdOk [] \<in> set s, w1, s')" "spared t T w w1"
    "received (proto T) (trace w1) = received (proto T) (trace w) @ rd_bytes s"
    using read_loop_delivers [OF T(1,2,4) _ py s] tcp_okD(5) [OF tcp_inv_SomeD(1) [OF inv T(1)]] by blast
  note inv1 = spared_inv [OF w1(2) inv T(1)] and s1 = spared_fields [OF w1(2)]
  have run: "TCPReadHandle_run E K (tfd T) room s w = (if RdOk [] \<in> set s
      then and_then (recv_eof E K t (tfd T) w1) (read_finish E K (tfd T)) else Ret w1)"
    using att w1(1) by (simp add: TCPReadHandle_run_def get_tcp_transport_def read_finish_def)
  obtain w3 us where w3: "recv_eof E K t (tfd T) w1 =
      (if \<exists>x. ans = PyOk x True then Ret (False, w3) else close_from_read_handle E K t w3)"
    "tcp_inv t w3" "tcp_objs w3 t = Some T" "tcp_transports w3 (tfd T) = tcp_transports w1 (tfd T)"
    "outgoing T w3 = outgoing T w1" "READABLE \<notin> watching IOTCPStream (tfd T) w3"
    "py_calls (trace w3) = py_calls (trace w1) @ EofReceived (proto T) # us"
    by (rule recv_eof_reports [OF inv1(1) s1(1) T(2) py(1) ans])
  have att3: "tcp_transports w3 (tfd T) = Some t" using w3(4) s1(4) att by simp
  show ?thesis
  proof (cases "RdOk [] \<notin> set s \<or> (\<exists>x. ans = PyOk x True)")
    case True
    then show ?thesis using run w1 w3 inv1 att3
      by (intro exI [of _ w1] exI [of _ "if RdOk [] \<in> set s then w3 else w1"]) (simp add: read_finish_def)
  next
    case False
    from read_close_spec [OF w3(2,3) T(2,3) att3 py(1) w3(6), of K]
    obtain w' vs where w': "and_then (close_from_read_handle E K t w3) (read_finish E K (tfd T)) = Ret w'"
      "tcp_inv t w'" "outgoing T w' = outgoing T w3" "tcp_objs w' t = Some (T\<lparr>closing := True\<rparr>)"
      "READABLE \<notin> watching IOTCPStream (tfd T) w'" "py_calls (trace w') = py_calls (trace w3) @ vs"
      "if write_buf (tstate T) = []
      then tcp_transports w' (tfd T) = None \<and> handles_io w' (tfd T) = None
        \<and> ConnectionLost (proto T) None \<in> set vs
      else tcp_transports w' (tfd T) = Some t \<and> WRITABLE \<in> watching IOTCPStream (tfd T) w'"
      by blast
    then show ?thesis using run False w3(1,5,7) w1(2,3) inv1(2)
      by (intro exI [of _ w1] exI [of _ w'] conjI) (simp_all add: exI [of _ "us @ vs"])
  qed
qed

text \<open>
  C11. The read handle of an attached open transport without TLS, on any stretch of the stream the
  kernel has ready: the protocol receives exactly the bytes before the end of the stream, in order
  and each once. If the end is not reached nothing else changes. If it is, the stream is no longer
  watched for reading and \<^verbatim>\<open>eof_received\<close> is called; a true answer keeps the transport open
  for writing; otherwise it is closing, at once (\<^verbatim>\<open>connection_lost(None)\<close>, forgotten by the loop)
  when nothing is buffered, and only after the buffer has been sent when something is.
\<close>

theorem read_handle_correct:
  assumes inv: "tcp_inv t w" and T: "tcp_objs w t = Some T" "tls_conn (tstate T) = None"
      "\<not> closing T" "\<not> proto_buffered T"
    and att: "tcp_transports w (tfd T) = Some t" and py: "py_spares t E" "py_delivers_nothing E"
    and s: "0 < room" "steady s"
    and ans: "\<forall>w. fst (py E (EofReceived (proto T)) w) = ans"
  shows "\<exists>w1 w'. TCPReadHandle_run E K (tfd T) room s w = Ret w' \<and> spared t T w w1
     \<and> received (proto T) (trace w1) = received (proto T) (trace w) @ rd_bytes s
     \<and> tcp_inv t w' \<and> outgoing T w' = outgoing T w
     \<and> (if RdOk [] \<notin> set s then w' = w1
        else READABLE \<notin> watching IOTCPStream (tfd T) w'
          \<and> (\<exists>us. py_calls (trace w') = py_calls (trace w1) @ EofReceived (proto T) # us
             \<and> (if \<exists>x. ans = PyOk x True
                then tcp_objs w' t = Some T \<and> tcp_transports w' (tfd T) = Some t
                else tcp_objs w' t = Some (T\<lparr>closing := True\<rparr>)
                  \<and> (if write_buf (tstate T) = []
                     then tcp_transports w' (tfd T) = None \<and> handles_io w' (tfd T) = None
                       \<and> ConnectionLost (proto T) None \<in> set us
                     else tcp_transports w' (tfd T) = Some t
                       \<and> WRITABLE \<in> watching IOTCPStream (tfd T) w'))))"
  by (rule read_handle_spec [OF assms])

theorem read_handle_correct_witness:
  "\<exists>(w1 :: unit world) w'. TCPReadHandle_run demo_ext \<lparr>k_write = SysWouldBlock, k_now = 0\<rparr> 7 2
        [RdOk [1, 2, 3], RdInterrupted, RdOk [4], RdOk []] (demo_world demo_tcp) = Ret w'
     \<and> received 5 (trace w1) = [1, 2, 3, 4] \<and> tcp_transports w' 7 = None"
proof -
  have inv: "tcp_inv 0 (demo_world demo_tcp)" by (rule demo_world_inv [OF demo_tcp_ok]) simp
  have n: "py_delivers_nothing demo_ext" by (simp add: py_delivers_nothing_def demo_ext_def)
  have a: "\<forall>w. fst (py demo_ext (EofReceived (proto demo_tcp)) w) = PyOk 0 False" by (simp add: demo_ext_def)
  have "received 5 (trace (demo_world demo_tcp)) = []" by (simp add: demo_world_def received_def)
  then show ?thesis
    using read_handle_correct [OF inv _ _ _ _ _ demo_ext_spares n _ _ a, of 2
        "[RdOk [1, 2, 3], RdInterrupted, RdOk [4], RdOk []]" "\<lparr>k_write = SysWouldBlock, k_now = 0\<rparr>"]
    by auto
qed

section \<open>What the handles miss\<close>

text \<open>
  C38. Two ends of a connection the read handle does not report. A read error (such as a reset)
  counts as nothing to read: the protocol is not told, the stream stays watched. On a transport
  with TLS that has not sent its own close alert, the end of the TCP stream is read into an empty
  buffer and so never seen. In both cases the handle returns with nothing changed.
\<close>

theorem read_handle_misses_end:
  assumes T: "tcp_objs w t = Some T" "\<not> state_mut T" "\<not> proto_buffered T"
    and att: "tcp_transports w (tfd T) = Some t" and room: "0 < room"
  shows "(tls_conn (tstate T) = None \<longrightarrow> TCPReadHandle_run E K (tfd T) room [RdErr e] w = Ret w)
       \<and> (tls_conn (tstate T) \<noteq> None \<and> \<not> tls_close_sent (tstate T)
            \<longrightarrow> TCPReadHandle_run E K (tfd T) room [RdOk []] w = Ret w)"
proof -
  have "tls_conn (tstate T) = None \<Longrightarrow> read_loop E t (tfd T) room w [RdErr e] = Ret (False, w, [])"
    using T room by (subst read_loop.simps) (simp add: tcp_recv_def recv_direct_def)
  moreover have "read_loop E t (tfd T) room w [RdOk []] = Ret (False, w, [RdOk []])"
    if "tls_conn (tstate T) \<noteq> None" "\<not> tls_close_sent (tstate T)"
    using T that room
    by (subst read_loop.simps) (simp add: tcp_recv_def recv_direct_def recv_tls_def tls_closed_check_def)
  ultimately show ?thesis using att by (auto simp: TCPReadHandle_run_def get_tcp_transport_def)
qed

theorem read_handle_misses_end_witness:
  "TCPReadHandle_run demo_ext \<lparr>k_write = SysWouldBlock, k_now = 0\<rparr> 7 2 [RdErr ''ECONNRESET''] (demo_world demo_tcp)
     = Ret (demo_world demo_tcp)"
  using read_handle_misses_end [of "demo_world demo_tcp" 0 demo_tcp 2 demo_ext
      "\<lparr>k_write = SysWouldBlock, k_now = 0\<rparr>" "''ECONNRESET''"] by simp

text \<open>Chunks that rustls takes one after the other, and the connection that has taken them.\<close>

fun tls_takes :: "'c ext \<Rightarrow> bytes list \<Rightarrow> 'c \<Rightarrow> bool" where
  "tls_takes E [] c = True"
| "tls_takes E (data # bs) c =
     (fst (tls_writer_write_all E data c) \<and> tls_takes E bs (snd (tls_writer_write_all E data c)))"

definition tls_fed :: "'c ext \<Rightarrow> bytes list \<Rightarrow> 'c \<Rightarrow> 'c" where
  "tls_fed E bs c = fold (\<lambda>data c. snd (tls_writer_write_all E data c)) bs c"

lemma encrypt_chunks_all:
  "tls_takes E bs c \<Longrightarrow> buf_len bs < usize_max1 \<Longrightarrow>
     encrypt_chunks E bs (buf_len bs) c = (True, buf_len bs, [], 0, tls_fed E bs c)"
  by (induction bs arbitrary: c) (auto simp: tls_fed_def split: prod.split)

text \<open>
  C39. On a transport with TLS, past its handshake, a write that would block loses data. Rustls has
  nothing of its own to send and takes every chunk of the buffer; the TLS bytes it then hands out go
  to a local buffer, the kernel answers the one write of them with would-block, and the buffer is
  dropped. Nothing is sent, the transport's own buffer is empty and accounted as empty, and the
  handle reports every byte that was in it as written.
\<close>

theorem tls_write_would_block_loses:
  assumes T: "tcp_objs w t = Some T" "tcp_ok T" "tls_conn (tstate T) = Some c" "handshake_complete (tstate T)"
    and idle: "tls_write_tls E c = (True, [], c1)" and takes: "tls_takes E (write_buf (tstate T)) c1"
    and out: "tls_write_tls E (tls_fed E (write_buf (tstate T)) c1) = (True, tls_buf, c2)" "tls_buf \<noteq> []"
  shows "\<exists>w' T'. TCPWriteHandle_write E t (SysWouldBlock # ks) w = Ret (Some (buf_len (write_buf (tstate T))), w')
     \<and> trace w' = trace w \<and> tcp_objs w' t = Some T' \<and> write_buf (tstate T') = []
     \<and> write_buf_dsize (tstate T') = 0 \<and> tls_conn (tstate T') = Some c2"
proof -
  have dsize: "write_buf_dsize (tstate T) = buf_len (write_buf (tstate T))"
    "buf_len (write_buf (tstate T)) < usize_max1" "\<not> state_mut T" using T(2) by (simp_all add: tcp_ok_def)
  show ?thesis
    using T(1,3,4) idle out dsize(3) encrypt_chunks_all [OF takes dsize(2)] dsize(1)
    by (simp add: TCPWriteHandle_write_def is_tls_def write_tls_conn_def tls_flush_def flush_trace_def
        sys_write_def upd_state_def Let_def)
qed

definition demo_tls :: "nat ext" where
  "demo_tls =
     \<lparr>py = (\<lambda>c w. (PyOk 0 False, w)), py_none = 0, py_conn_made = (\<lambda>p. Some p),
      py_is_buffered = (\<lambda>_. False), py_buffer_len = (\<lambda>_. Some 4), env_close_timeout = None, tls_new_server = (\<lambda>_. None),
      tls_new_client = (\<lambda>_ _. None), tls_wants_write = (\<lambda>c. 0 < c), tls_is_handshaking = (\<lambda>_. False),
      tls_send_close_notify = (\<lambda>c. Suc c), tls_write_tls = (\<lambda>c. (True, replicate c 23, 0)),
      tls_read_tls = (\<lambda>_ c. (True, c)), tls_process = (\<lambda>c. (Some False, c)),
      tls_reader_read = (\<lambda>_ c. (Some [], c)), tls_avail = (\<lambda>_. 0),
      tls_writer_write_all = (\<lambda>d c. (True, c + length d))\<rparr>"

theorem tls_write_would_block_loses_witness:
  "let T = (TCPTransport_new 7 5 False None None :: nat TCPTransport);
       T1 = T\<lparr>tstate := (tstate T)\<lparr>tls_conn := Some 0, handshake_complete := True,
               write_buf := [[1, 2], [3]], write_buf_dsize := 3\<rparr>\<rparr>;
       w = (EventLoop_new 0 0)\<lparr>tcp_objs := [0 \<mapsto> T1]\<rparr>
   in \<exists>w' T'. TCPWriteHandle_write demo_tls 0 [SysWouldBlock] w = Ret (Some 3, w')
        \<and> trace w' = trace w \<and> tcp_objs w' 0 = Some T' \<and> write_buf (tstate T') = []"
proof -
  let ?T = "TCPTransport_new 7 5 False None None :: nat TCPTransport"
  let ?T1 = "?T\<lparr>tstate := (tstate ?T)\<lparr>tls_conn := Some 0, handshake_complete := True,
               write_buf := [[1, 2], [3]], write_buf_dsize := 3\<rparr>\<rparr>"
  let ?w = "(EventLoop_new 0 0)\<lparr>tcp_objs := [0 \<mapsto> ?T1]\<rparr> :: nat world"
  have a: "tcp_objs ?w 0 = Some ?T1" "tcp_ok ?T1" "tls_conn (tstate ?T1) = Some 0" "handshake_complete (tstate ?T1)"
    by (simp_all add: TCPTransport_new_def tcp_ok_def usize_max1_def Let_def)
  have b: "tls_write_tls demo_tls 0 = (True, [], 0)" "tls_takes demo_tls (write_buf (tstate ?T1)) 0"
    by (simp_all add: demo_tls_def)
  have d: "tls_write_tls demo_tls (tls_fed demo_tls (write_buf (tstate ?T1)) 0) = (True, [23, 23, 23], 0)"
    by (simp add: demo_tls_def tls_fed_def eval_nat_numeral)
  show ?thesis using tls_write_would_block_loses [OF a b d, of "[]"] by (auto simp: Let_def)
qed

end
