(* ===== verification/Udp_Transport.thy ===== *)
theory Udp_Transport
  imports Tcp_Handles
begin

text \<open>
  \<^verbatim>\<open>UDPTransport\<close>, \<^verbatim>\<open>UDPReadHandle\<close> and \<^verbatim>\<open>UDPWriteHandle\<close> of \<^verbatim>\<open>udp.rs\<close>, with the two
  operations of \<^verbatim>\<open>EventLoop\<close> that look a transport up or drop it. Parsing an address literal
  (\<^verbatim>\<open>IpAddr::from_str\<close>) is the argument \<open>parse_ip\<close>. The answer of the kernel to \<^verbatim>\<open>send_to\<close> is an
  argument; the answers to the consecutive \<^verbatim>\<open>recv_from\<close> calls are a script, and an exhausted
  script would block.
\<close>

section \<open>Access and construction\<close>

definition with_udp :: "nat \<Rightarrow> 'c world \<Rightarrow> (UDPTransport \<Rightarrow> 'a outcome) \<Rightarrow> 'a outcome" where
  "with_udp u w k = (case udp_objs w u of None \<Rightarrow> Panic UnwrapNone | Some U \<Rightarrow> k U)"

definition upd_udp :: "nat \<Rightarrow> (UDPTransport \<Rightarrow> UDPTransport) \<Rightarrow> 'c world \<Rightarrow> 'c world" where
  "upd_udp u g w = w\<lparr>udp_objs := (udp_objs w)(u := map_option g (udp_objs w u))\<rparr>"

definition udp_borrow :: "nat \<Rightarrow> 'c world \<Rightarrow> (UDPTransport \<Rightarrow> 'a outcome) \<Rightarrow> 'a outcome" where
  "udp_borrow u w k =
     with_udp u w (\<lambda>U. if u_state_mut U then Panic AlreadyBorrowed else k U)"

definition UDPTransport_new :: "fd \<Rightarrow> pyobj \<Rightarrow> addr option \<Rightarrow> UDPTransport" where
  "UDPTransport_new f pyproto remote_addr =
     (let wh = 1024 * 64; wl = wh div 4 in
      \<lparr>ufd = f, u_remote_addr = remote_addr, u_write_buf = [], u_write_buf_dsize = 0,
       u_state_mut = False, u_closing = False, u_water_hi = wh, u_water_lo = wl,
       u_proto = pyproto, u_proto_paused = False\<rparr>)"

text \<open>\<^verbatim>\<open>from_py\<close>: the remote address is parsed and the protocol factory called, and errors of both
are unwrapped.\<close>

definition UDPTransport_from_py ::
  "'c ext \<Rightarrow> (string \<Rightarrow> string option) \<Rightarrow> fd \<Rightarrow> pyobj \<Rightarrow> addr option \<Rightarrow> 'c world
     \<Rightarrow> (UDPTransport \<times> 'c world) outcome" where
  "UDPTransport_from_py E parse_ip f proto_factory remote w =
     and_then
       (case remote of
          None \<Rightarrow> Ret None
        | Some (host, port) \<Rightarrow>
            (case parse_ip host of None \<Rightarrow> Panic UnwrapErr | Some ip \<Rightarrow> Ret (Some (ip, port))))
       (\<lambda>remote_addr.
          case call_py E (ProtoFactory proto_factory) w of
            (PyErr _, _) \<Rightarrow> Panic UnwrapErr
          | (PyOk p _, w1) \<Rightarrow> Ret (UDPTransport_new f p remote_addr, w1))"

definition udp_attach :: "'c ext \<Rightarrow> nat \<Rightarrow> 'c world \<Rightarrow> (pyobj pyresult \<times> 'c world) outcome" where
  "udp_attach E u w =
     with_udp u w (\<lambda>U.
       case call_py E (ConnectionMade (u_proto U) u) w of
         (PyOk _ _, w1) \<Rightarrow> Ret (Inr (u_proto U), w1)
       | (PyErr e, w1) \<Rightarrow> Ret (Inl (PyExc e), w1))"

definition udp_socket_close :: "fd \<Rightarrow> 'c world \<Rightarrow> 'c world" where
  "udp_socket_close f w = w\<lparr>udp_transports := (udp_transports w)(f := None)\<rparr>"

definition get_udp_transport :: "fd \<Rightarrow> 'c world \<Rightarrow> nat outcome" where
  "get_udp_transport f w = unwrap (udp_transports w f)"

section \<open>Flow control\<close>

definition udp_proto_pause :: "'c ext \<Rightarrow> nat \<Rightarrow> 'c world \<Rightarrow> 'c world outcome" where
  "udp_proto_pause E u w =
     with_udp u w (\<lambda>U.
       case call_py E (PauseWriting (u_proto U)) w of
         (PyOk _ _, w1) \<Rightarrow> Ret w1
       | (PyErr e, w1) \<Rightarrow>
           Ret (log_exception E
             (LogTransport e ''protocol.pause_writing() failed'' (u_proto U) u) w1))"

definition udp_proto_resume :: "'c ext \<Rightarrow> nat \<Rightarrow> 'c world \<Rightarrow> 'c world outcome" where
  "udp_proto_resume E u w =
     with_udp u w (\<lambda>U.
       case call_py E (ResumeWriting (u_proto U)) w of
         (PyOk _ _, w1) \<Rightarrow> Ret w1
       | (PyErr e, w1) \<Rightarrow>
           Ret (log_exception E
             (LogTransport e ''protocol.resume_writing() failed'' (u_proto U) u) w1))"

definition udp_write_buf_size_decr :: "'c ext \<Rightarrow> nat \<Rightarrow> 'c world \<Rightarrow> 'c world outcome" where
  "udp_write_buf_size_decr E u w =
     udp_borrow u w (\<lambda>U.
       if u_write_buf_dsize U \<le> u_water_lo U \<and> u_proto_paused U
       then udp_proto_resume E u (upd_udp u (\<lambda>U. U\<lparr>u_proto_paused := False\<rparr>) w)
       else Ret w)"

definition udp_set_write_buffer_limits ::
  "'c ext \<Rightarrow> nat \<Rightarrow> nat option \<Rightarrow> nat option \<Rightarrow> 'c world \<Rightarrow> (unit pyresult \<times> 'c world) outcome" where
  "udp_set_write_buffer_limits E u high low w =
     (case buffer_limits high low of (wh, wl) \<Rightarrow>
      if wh < wl then Ret (Inl (ValueError ''high must be >= low must be >= 0''), w)
      else (let w1 = upd_udp u (\<lambda>U. U\<lparr>u_water_hi := wh, u_water_lo := wl\<rparr>) w in
            udp_borrow u w1 (\<lambda>U.
              if u_write_buf_dsize U > wh \<and> \<not> u_proto_paused U
              then and_then (udp_proto_pause E u (upd_udp u (\<lambda>U. U\<lparr>u_proto_paused := True\<rparr>) w1))
                     (\<lambda>w2. Ret (Inr (), w2))
              else Ret (Inr (), w1))))"

definition udp_get_write_buffer_size :: "nat \<Rightarrow> 'c world \<Rightarrow> nat outcome" where
  "udp_get_write_buffer_size u w = udp_borrow u w (\<lambda>U. Ret (u_write_buf_dsize U))"

definition udp_get_write_buffer_limits :: "UDPTransport \<Rightarrow> nat \<times> nat" where
  "udp_get_write_buffer_limits U = (u_water_lo U, u_water_hi U)"

section \<open>Sending\<close>

definition udp_call_conn_lost :: "'c ext \<Rightarrow> nat \<Rightarrow> pyerr option \<Rightarrow> 'c world \<Rightarrow> 'c world outcome" where
  "udp_call_conn_lost E u exc w =
     with_udp u w (\<lambda>U. Ret (snd (call_py E (ConnectionLost (u_proto U) exc) w)))"

text \<open>
  The direct attempt of \<^verbatim>\<open>write\<close>. It is made through a second \<^verbatim>\<open>borrow\<close> of the state, which
  \<^verbatim>\<open>write\<close> holds mutably borrowed at this point.
\<close>

definition udp_try_send ::
  "'c ext \<Rightarrow> nat \<Rightarrow> bytes \<Rightarrow> addr \<Rightarrow> sysres \<Rightarrow> 'c world \<Rightarrow> (nat \<times> 'c world) outcome" where
  "udp_try_send E u data a r w =
     udp_borrow u w (\<lambda>U.
       let buffer = (\<lambda>d. upd_udp u (\<lambda>U. U\<lparr>u_write_buf := u_write_buf U @ [(d, a)]\<rparr>)) in
       case r of
         SysOk written \<Rightarrow>
           (let w1 = emit (SentTo (ufd U) (take written data) a) w in
            if written = length data then Ret (0, w1)
            else Ret (length data - written, buffer (drop written data) w1))
       | SysInterrupted \<Rightarrow> Ret (length data, buffer data w)
       | SysWouldBlock \<Rightarrow> Ret (length data, buffer data w)
       | SysErr err \<Rightarrow>
           and_then (if u_write_buf_dsize U > 0 then udp_socket_rem (ufd U) {WRITABLE} w
                     else Ret w) (\<lambda>w1.
           and_then (if \<not> u_closing U
                     then udp_socket_rem (ufd U) {READABLE} (upd_udp u (\<lambda>U. U\<lparr>u_closing := True\<rparr>) w1)
                     else Ret w1) (\<lambda>w2.
           and_then (udp_call_conn_lost E u (Some (OSError err)) w2) (\<lambda>w3. Ret (0, w3)))))"

definition udp_write_account :: "'c ext \<Rightarrow> nat \<Rightarrow> nat \<Rightarrow> 'c world \<Rightarrow> 'c world outcome" where
  "udp_write_account E u buf_added w =
     (if buf_added > 0 then
        with_udp u w (\<lambda>U.
          and_then (if u_write_buf_dsize U = 0 then udp_socket_add (ufd U) {WRITABLE} w
                    else Ret w) (\<lambda>w1.
          let dsize = usize_add (u_write_buf_dsize U) buf_added;
              w2 = upd_udp u (\<lambda>U. U\<lparr>u_write_buf_dsize := dsize\<rparr>) w1
          in if dsize > u_water_hi U \<and> \<not> u_proto_paused U
             then udp_proto_pause E u (upd_udp u (\<lambda>U. U\<lparr>u_proto_paused := True\<rparr>) w2)
             else Ret w2))
      else Ret w)"

definition udp_write ::
  "'c ext \<Rightarrow> nat \<Rightarrow> bytes \<Rightarrow> addr \<Rightarrow> sysres \<Rightarrow> 'c world \<Rightarrow> 'c world outcome" where
  "udp_write E u data a r w0 =
     udp_borrow u w0 (\<lambda>U.
       let w = upd_udp u (\<lambda>U. U\<lparr>u_state_mut := True\<rparr>) w0 in
       and_then (if u_write_buf_dsize U = 0 then udp_try_send E u data a r w
                 else Ret (length data,
                        upd_udp u (\<lambda>U. U\<lparr>u_write_buf := u_write_buf U @ [(data, a)]\<rparr>) w))
         (\<lambda>(buf_added, w1).
       and_then (udp_write_account E u buf_added w1) (\<lambda>w2.
       Ret (upd_udp u (\<lambda>U. U\<lparr>u_state_mut := False\<rparr>) w2))))"

definition sendto ::
  "'c ext \<Rightarrow> (string \<Rightarrow> string option) \<Rightarrow> nat \<Rightarrow> bytes \<Rightarrow> addr option \<Rightarrow> sysres \<Rightarrow> 'c world
     \<Rightarrow> (unit pyresult \<times> 'c world) outcome" where
  "sendto E parse_ip u data a r w =
     with_udp u w (\<lambda>U.
       if u_closing U then Ret (Inl (RuntimeError ''Cannot send on closing transport''), w)
       else if data = [] then Ret (Inr (), w)
       else and_then
         (case a of
            Some (host, port) \<Rightarrow>
              (case parse_ip host of None \<Rightarrow> Panic UnwrapErr | Some ip \<Rightarrow> Ret (Some (ip, port)))
          | None \<Rightarrow> udp_borrow u w (\<lambda>U. Ret (u_remote_addr U)))
         (\<lambda>dest. case dest of
            Some ad \<Rightarrow> and_then (udp_write E u data ad r w) (\<lambda>w1. Ret (Inr (), w1))
          | None \<Rightarrow> Ret (Inl (ValueError ''No remote address specified''), w)))"

section \<open>Closing\<close>

definition udp_close :: "'c ext \<Rightarrow> nat \<Rightarrow> 'c world \<Rightarrow> 'c world outcome" where
  "udp_close E u w =
     with_udp u w (\<lambda>U.
       if u_closing U then Ret w
       else and_then (udp_socket_rem (ufd U) {READABLE} (upd_udp u (\<lambda>U. U\<lparr>u_closing := True\<rparr>) w)) (\<lambda>w1.
            udp_borrow u w1 (\<lambda>U1.
              if u_write_buf_dsize U1 = 0
              then and_then (udp_socket_rem (ufd U) {WRITABLE} w1) (udp_call_conn_lost E u None)
              else Ret w1)))"

definition udp_abort :: "'c ext \<Rightarrow> nat \<Rightarrow> 'c world \<Rightarrow> 'c world outcome" where
  "udp_abort E u w =
     udp_borrow u w (\<lambda>U.
       and_then (if u_write_buf_dsize U > 0 then udp_socket_rem (ufd U) {WRITABLE} w else Ret w) (\<lambda>w1.
       and_then (if \<not> u_closing U
                 then udp_socket_rem (ufd U) {READABLE} (upd_udp u (\<lambda>U. U\<lparr>u_closing := True\<rparr>) w1)
                 else Ret w1) (udp_call_conn_lost E u None)))"

definition udp_close_from_write_handle :: "'c ext \<Rightarrow> nat \<Rightarrow> bool \<Rightarrow> 'c world \<Rightarrow> (bool \<times> 'c world) outcome" where
  "udp_close_from_write_handle E u errored w =
     with_udp u w (\<lambda>U.
       if u_closing U then
         Ret (True,
              snd (call_py E (ConnectionLost (u_proto U)
                (if errored then Some (RuntimeError ''socket transport failed'') else None)) w))
       else Ret (False, w))"

section \<open>The handles\<close>

datatype rcvres = RcvOk bytes addr | RcvInterrupted | RcvWouldBlock | RcvErr string

text \<open>The results of both callbacks are ignored.\<close>

definition call_datagram_received ::
  "'c ext \<Rightarrow> UDPTransport \<Rightarrow> bytes \<Rightarrow> addr \<Rightarrow> 'c world \<Rightarrow> 'c world" where
  [simp]: "call_datagram_received E U data a w = snd (call_py E (DatagramReceived (u_proto U) data a) w)"

definition call_error_received :: "'c ext \<Rightarrow> UDPTransport \<Rightarrow> pyerr \<Rightarrow> 'c world \<Rightarrow> 'c world" where
  [simp]: "call_error_received E U exc w = snd (call_py E (ErrorReceived (u_proto U) exc) w)"

text \<open>The loop of \<^verbatim>\<open>UDPReadHandle::run\<close>; a datagram longer than the buffer is cut.\<close>

fun udp_read_loop ::
  "'c ext \<Rightarrow> nat \<Rightarrow> fd \<Rightarrow> nat \<Rightarrow> rcvres list \<Rightarrow> 'c world \<Rightarrow> 'c world outcome" where
  "udp_read_loop E u f room [] w = udp_borrow u w (\<lambda>_. Ret w)"
| "udp_read_loop E u f room (r # s) w =
     udp_borrow u w (\<lambda>U.
       case r of
         RcvOk d a \<Rightarrow>
           udp_read_loop E u f room s (call_datagram_received E U (take room d) a w)
       | RcvWouldBlock \<Rightarrow> Ret w
       | RcvInterrupted \<Rightarrow> udp_read_loop E u f room s w
       | RcvErr e \<Rightarrow>
           Ret (udp_socket_close f (call_error_received E U (OSError e) w)))"

definition UDPReadHandle_run ::
  "'c ext \<Rightarrow> fd \<Rightarrow> nat \<Rightarrow> rcvres list \<Rightarrow> 'c world \<Rightarrow> 'c world outcome" where
  "UDPReadHandle_run E f room s w =
     and_then (get_udp_transport f w) (\<lambda>u. udp_read_loop E u f room s w)"

fun udp_write_chunks ::
  "(bytes \<times> addr) list \<Rightarrow> sysres list
     \<Rightarrow> nat option \<times> (bytes \<times> addr) list \<times> (bytes \<times> addr) list" where
  "udp_write_chunks [] ks = (Some 0, [], [])"
| "udp_write_chunks (d # bs) [] = (Some 0, d # bs, [])"
| "udp_write_chunks ((data, a) # bs) (r # ks) =
     (case r of
        SysOk written \<Rightarrow>
          if written < length data
          then (Some written, (drop written data, a) # bs, [(take written data, a)])
          else (case udp_write_chunks bs ks of (ret, left, sent) \<Rightarrow>
                  (map_option (\<lambda>n. written + n) ret, left, (take written data, a) # sent))
      | SysInterrupted \<Rightarrow> udp_write_chunks ((data, a) # bs) ks
      | SysWouldBlock \<Rightarrow> (Some 0, (data, a) # bs, [])
      | SysErr _ \<Rightarrow> (None, [], []))"

definition udp_handle_write :: "nat \<Rightarrow> sysres list \<Rightarrow> 'c world \<Rightarrow> (nat option \<times> 'c world) outcome" where
  "udp_handle_write u ks w =
     udp_borrow u w (\<lambda>U.
       case udp_write_chunks (u_write_buf U) ks of (ret, left, sent) \<Rightarrow>
       let w1 = fold (\<lambda>(b, a). emit (SentTo (ufd U) b a)) sent w in
       Ret (ret, case ret of
           None \<Rightarrow> upd_udp u (\<lambda>U. U\<lparr>u_write_buf := [], u_write_buf_dsize := 0\<rparr>) w1
         | Some n \<Rightarrow> upd_udp u (\<lambda>U. U\<lparr>u_write_buf := left,
                                    u_write_buf_dsize := usize_sub (u_write_buf_dsize U) n\<rparr>) w1))"

definition UDPWriteHandle_run ::
  "'c ext \<Rightarrow> fd \<Rightarrow> sysres list \<Rightarrow> 'c world \<Rightarrow> 'c world outcome" where
  "UDPWriteHandle_run E f ks w =
     and_then (get_udp_transport f w) (\<lambda>u.
     and_then (udp_handle_write u ks w) (\<lambda>(res, w1).
     and_then (case res of
         Some written \<Rightarrow>
           and_then (if written > 0 then udp_write_buf_size_decr E u w1 else Ret w1) (\<lambda>w2.
           udp_borrow u w2 (\<lambda>U.
             if u_write_buf U = [] then udp_close_from_write_handle E u False w2
             else Ret (False, w2)))
       | None \<Rightarrow> udp_close_from_write_handle E u True w1) (\<lambda>(stream_close, w2).
     udp_borrow u w2 (\<lambda>U.
     and_then (if u_write_buf U = [] then udp_socket_rem f {WRITABLE} w2 else Ret w2) (\<lambda>w3.
       Ret (if stream_close then udp_socket_close f w3 else w3))))))"

section \<open>Properties\<close>

text \<open>Python code that leaves the transport and its registration alone.\<close>

definition udp_spared :: "nat \<Rightarrow> UDPTransport \<Rightarrow> 'c world \<Rightarrow> 'c world \<Rightarrow> bool" where
  "udp_spared u U w w' =
     (udp_objs w' u = Some U \<and> (\<exists>us. trace w' = trace w @ us)
      \<and> handles_io w' (ufd U) = handles_io w (ufd U)
      \<and> udp_transports w' (ufd U) = udp_transports w (ufd U))"

definition py_spares_udp :: "nat \<Rightarrow> 'c ext \<Rightarrow> bool" where
  "py_spares_udp u E = (\<forall>c w U. udp_objs w u = Some U \<longrightarrow> udp_spared u U w (snd (py E c w)))"

text \<open>The datagrams given to a protocol, in order; Python code does not itself deliver any.\<close>

definition datagrams :: "pyobj \<Rightarrow> effect list \<Rightarrow> (bytes \<times> addr) list" where
  "datagrams p tr =
     concat (map (\<lambda>e. case e of Py (DatagramReceived q d a) \<Rightarrow> if q = p then [(d, a)] else [] | _ \<Rightarrow> []) tr)"

definition py_delivers_no_datagram :: "'c ext \<Rightarrow> bool" where
  "py_delivers_no_datagram E =
     (\<forall>c w. \<exists>us. trace (snd (py E c w)) = trace w @ us \<and> (\<forall>p. datagrams p us = []))"

text \<open>The datagrams of a script before it blocks or fails, and the error it fails with.\<close>

fun ready_datagrams :: "rcvres list \<Rightarrow> (bytes \<times> addr) list" where
  "ready_datagrams (RcvOk d a # s) = (d, a) # ready_datagrams s"
| "ready_datagrams (RcvInterrupted # s) = ready_datagrams s"
| "ready_datagrams _ = []"

fun recv_error :: "rcvres list \<Rightarrow> string option" where
  "recv_error (RcvOk d a # s) = recv_error s"
| "recv_error (RcvInterrupted # s) = recv_error s"
| "recv_error (RcvErr e # s) = Some e"
| "recv_error _ = None"

lemma with_udp_simps [simp]:
  "udp_objs w u = Some U \<Longrightarrow> with_udp u w k = k U"
  "udp_objs w u = Some U \<Longrightarrow> \<not> u_state_mut U \<Longrightarrow> udp_borrow u w k = k U"
  "udp_objs w u = Some U \<Longrightarrow> u_state_mut U \<Longrightarrow> udp_borrow u w k = Panic AlreadyBorrowed"
  by (simp_all add: with_udp_def udp_borrow_def)

lemma upd_udp_simps [simp]:
  "udp_objs (upd_udp u g w) = (udp_objs w)(u := map_option g (udp_objs w u))"
  "trace (upd_udp u g w) = trace w"
  "handles_io (upd_udp u g w) = handles_io w"
  "udp_transports (upd_udp u g w) = udp_transports w"
  "io_wf (upd_udp u g w) = io_wf w"
  "owns mk f (upd_udp u g w) = owns mk f w"
  "watching mk f (upd_udp u g w) = watching mk f w"
  "poll_agrees (upd_udp u g w) = poll_agrees w"
  by (simp_all add: upd_udp_def registry_defs)

lemma udp_socket_close_simps [simp]:
  "trace (udp_socket_close f w) = trace w"
  "handles_io (udp_socket_close f w) = handles_io w"
  "udp_transports (udp_socket_close f w) = (udp_transports w)(f := None)"
  by (simp_all add: udp_socket_close_def)

lemma io_frame_udp:
  assumes "io_frame w w'"
  shows "udp_objs w' = udp_objs w" "udp_transports w' = udp_transports w"
proof -
  have w': "w' = w\<lparr>handles_io := handles_io w', trace := trace w'\<rparr>"
    using assms by (simp add: io_frame_def)
  show "udp_objs w' = udp_objs w" "udp_transports w' = udp_transports w" by (subst w', simp)+
qed

lemma udp_spared_call:
  assumes "py_spares_udp u E" "udp_objs w u = Some U"
  shows "udp_spared u U w (snd (call_py E c w))"
    and "\<exists>us. trace (snd (call_py E c w)) = trace w @ Py c # us"
proof -
  have "udp_spared u U (emit (Py c) w) (snd (call_py E c w))"
    using assms by (simp add: py_spares_udp_def call_py_def)
  then show "udp_spared u U w (snd (call_py E c w))"
    "\<exists>us. trace (snd (call_py E c w)) = trace w @ Py c # us"
    by (auto simp: udp_spared_def)
qed

lemma datagrams_call:
  assumes "py_delivers_no_datagram E"
  shows "datagrams p (trace (snd (call_py E c w))) = datagrams p (trace w) @ datagrams p [Py c]"
proof -
  obtain us where "trace (snd (py E c (emit (Py c) w))) = trace (emit (Py c) w) @ us" "datagrams p us = []"
    using assms unfolding py_delivers_no_datagram_def by blast
  then show ?thesis by (simp add: call_py_def datagrams_def)
qed

text \<open>
  C29. Every outcome of \<^verbatim>\<open>sendto\<close> on a transport at rest with nothing buffered. Closing, empty
  data and a missing address are answered as documented and send nothing. A host that is not an
  address literal panics. And so does every other call: the attempt to send borrows the state that
  \<^verbatim>\<open>write\<close> already holds mutably borrowed, whatever the kernel would have answered.
\<close>

theorem sendto_outcomes:
  assumes "udp_objs w u = Some U" "\<not> u_state_mut U" "u_write_buf_dsize U = 0"
  shows "sendto E parse_ip u data a r w =
    (if u_closing U then Ret (Inl (RuntimeError ''Cannot send on closing transport''), w)
     else if data = [] then Ret (Inr (), w)
     else case a of
       None \<Rightarrow> if u_remote_addr U = None then Ret (Inl (ValueError ''No remote address specified''), w)
               else Panic AlreadyBorrowed
     | Some (host, port) \<Rightarrow> if parse_ip host = None then Panic UnwrapErr else Panic AlreadyBorrowed)"
  using assms
  by (auto simp: sendto_def udp_write_def udp_try_send_def Let_def split: option.splits)

abbreviation demo_udp :: "unit world" where
  "demo_udp \<equiv> (EventLoop_new 0 0)\<lparr>udp_objs := [0 \<mapsto> UDPTransport_new 7 5 None], udp_transports := [7 \<mapsto> 0],
     handles_io := [7 \<mapsto> IOUDPSocket {READABLE}], trace := [Poll (Register 7 {READABLE})]\<rparr>"

theorem sendto_outcomes_witness:
  "sendto demo_ext (\<lambda>h. Some h) 0 [1] (Some (''127.0.0.1'', 53)) (SysOk 1) demo_udp = Panic AlreadyBorrowed"
  using sendto_outcomes [of demo_udp 0 "UDPTransport_new 7 5 None" demo_ext "\<lambda>h. Some h" "[1]"
      "Some (''127.0.0.1'', 53)" "SysOk 1"]
  by (simp add: UDPTransport_new_def Let_def)

lemma udp_read_loop_delivers:
  assumes "udp_objs w u = Some U" "\<not> u_state_mut U" "py_spares_udp u E" "py_delivers_no_datagram E"
  shows "\<exists>w1 w'. udp_read_loop E u (ufd U) room s w = Ret w' \<and> udp_spared u U w w1
     \<and> datagrams (u_proto U) (trace w1) = datagrams (u_proto U) (trace w)
          @ map (\<lambda>(d, a). (take room d, a)) (ready_datagrams s)
     \<and> (case recv_error s of None \<Rightarrow> w' = w1
        | Some e \<Rightarrow> w' = udp_socket_close (ufd U) (snd (call_py E (ErrorReceived (u_proto U) (OSError e)) w1)))"
  using assms(1)
proof (induction s arbitrary: w)
  case Nil
  then show ?case using assms(2) by (auto simp: udp_spared_def)
next
  case (Cons r s)
  show ?case
  proof (cases r)
    case (RcvOk d a)
    let ?w1 = "snd (call_py E (DatagramReceived (u_proto U) (take room d) a) w)"
    note sp = udp_spared_call(1) [OF assms(3) Cons.prems, of "DatagramReceived (u_proto U) (take room d) a"]
    have "udp_objs ?w1 u = Some U" using sp by (simp add: udp_spared_def)
    from Cons.IH [OF this] obtain w1 w' where w: "udp_read_loop E u (ufd U) room s ?w1 = Ret w'"
      "udp_spared u U ?w1 w1"
      "datagrams (u_proto U) (trace w1) = datagrams (u_proto U) (trace ?w1)
          @ map (\<lambda>(d, a). (take room d, a)) (ready_datagrams s)"
      "case recv_error s of None \<Rightarrow> w' = w1
        | Some e \<Rightarrow> w' = udp_socket_close (ufd U) (snd (call_py E (ErrorReceived (u_proto U) (OSError e)) w1))"
      by blast
    moreover have "udp_spared u U w w1" using sp w(2) by (auto simp: udp_spared_def)
    moreover have "datagrams (u_proto U) (trace ?w1) = datagrams (u_proto U) (trace w) @ [(take room d, a)]"
      using datagrams_call [OF assms(4)] by (simp add: datagrams_def)
    ultimately show ?thesis using RcvOk Cons.prems assms(2) by auto
  next
    case (RcvErr e)
    then show ?thesis using Cons.prems assms(2) by (auto simp: udp_spared_def)
  next
    case RcvInterrupted
    then show ?thesis using Cons assms(2) by auto
  next
    case RcvWouldBlock
    then show ?thesis using Cons.prems assms(2) by (auto simp: udp_spared_def)
  qed
qed

text \<open>
  C28. The UDP read handle gives the protocol every datagram that is ready, in order, with its
  address, cut to the size of the read buffer, and stops when the socket would block. On an error
  it calls \<^verbatim>\<open>error_received\<close> and drops the transport from the loop, but leaves the descriptor
  registered, so that the next event on it makes either handle panic.
\<close>

theorem udp_read_handle_correct:
  assumes U: "udp_objs w u = Some U" "\<not> u_state_mut U" and att: "udp_transports w (ufd U) = Some u"
    and py: "py_spares_udp u E" "py_delivers_no_datagram E"
  shows "\<exists>w1 w'. UDPReadHandle_run E (ufd U) room s w = Ret w' \<and> udp_spared u U w w1
     \<and> datagrams (u_proto U) (trace w1) = datagrams (u_proto U) (trace w)
          @ map (\<lambda>(d, a). (take room d, a)) (ready_datagrams s)
     \<and> (case recv_error s of None \<Rightarrow> w' = w1
        | Some e \<Rightarrow> (\<exists>us. trace w' = trace w1 @ Py (ErrorReceived (u_proto U) (OSError e)) # us)
            \<and> handles_io w' (ufd U) = handles_io w (ufd U) \<and> udp_transports w' (ufd U) = None
            \<and> UDPReadHandle_run E (ufd U) room s' w' = Panic UnwrapNone
            \<and> UDPWriteHandle_run E (ufd U) ks w' = Panic UnwrapNone)"
proof -
  obtain w1 w' where w: "udp_read_loop E u (ufd U) room s w = Ret w'" "udp_spared u U w w1"
    "datagrams (u_proto U) (trace w1) = datagrams (u_proto U) (trace w)
          @ map (\<lambda>(d, a). (take room d, a)) (ready_datagrams s)"
    "case recv_error s of None \<Rightarrow> w' = w1
      | Some e \<Rightarrow> w' = udp_socket_close (ufd U) (snd (call_py E (ErrorReceived (u_proto U) (OSError e)) w1))"
    using udp_read_loop_delivers [OF U py, of room s] by blast
  have run: "UDPReadHandle_run E (ufd U) room s w = Ret w'"
    using att w(1) by (simp add: UDPReadHandle_run_def get_udp_transport_def)
  show ?thesis
  proof (cases "recv_error s")
    case None
    then show ?thesis using run w by auto
  next
    case (Some e)
    have U1: "udp_objs w1 u = Some U" using w(2) by (simp add: udp_spared_def)
    note c = udp_spared_call [OF py(1) U1, of "ErrorReceived (u_proto U) (OSError e)"]
    have w': "w' = udp_socket_close (ufd U) (snd (call_py E (ErrorReceived (u_proto U) (OSError e)) w1))"
      using w(4) Some by simp
    have "udp_transports w' (ufd U) = None" using w' by simp
    moreover from this have "UDPReadHandle_run E (ufd U) room s' w' = Panic UnwrapNone"
      "UDPWriteHandle_run E (ufd U) ks w' = Panic UnwrapNone"
      by (simp_all add: UDPReadHandle_run_def UDPWriteHandle_run_def get_udp_transport_def)
    moreover have "handles_io w' (ufd U) = handles_io w (ufd U)"
      using w' c(1) w(2) by (simp add: udp_spared_def)
    moreover have "\<exists>us. trace w' = trace w1 @ Py (ErrorReceived (u_proto U) (OSError e)) # us"
      using w' c(2) by simp
    ultimately show ?thesis using run w(2,3) Some by auto
  qed
qed

lemma demo_udp_facts:
  "py_spares_udp u demo_ext" "py_delivers_no_datagram demo_ext"
  "udp_objs demo_udp 0 = Some (UDPTransport_new 7 5 None)"
  "udp_transports demo_udp 7 = Some 0" "ufd (UDPTransport_new 7 5 None) = 7"
  "\<not> u_state_mut (UDPTransport_new 7 5 None)" "u_proto (UDPTransport_new 7 5 None) = 5"
  "u_closing (UDPTransport_new 7 5 None) = False" "u_write_buf_dsize (UDPTransport_new 7 5 None) = 0"
  by (simp_all add: py_spares_udp_def py_delivers_no_datagram_def demo_ext_def udp_spared_def
      datagrams_def UDPTransport_new_def Let_def)

theorem udp_read_handle_correct_witness:
  "\<exists>w'. UDPReadHandle_run demo_ext 7 1500 [RcvOk [1] (''127.0.0.1'', 9), RcvErr ''ECONNREFUSED''] demo_udp = Ret w'
     \<and> udp_transports w' 7 = None \<and> UDPReadHandle_run demo_ext 7 1500 [] w' = Panic UnwrapNone"
  using udp_read_handle_correct [OF demo_udp_facts(3,6) _ demo_udp_facts(1,2), of 1500
      "[RcvOk [1] (''127.0.0.1'', 9), RcvErr ''ECONNREFUSED'']" "[]" "[]"]
  by (auto simp: demo_udp_facts)

text \<open>
  \<^verbatim>\<open>close\<close> on an open UDP transport with nothing buffered: the socket is unregistered, the
  poller stays in agreement, \<^verbatim>\<open>connection_lost(None)\<close> is called, a second \<^verbatim>\<open>close\<close> does
  nothing. The loop's table keeps the transport.
\<close>

theorem udp_close_correct:
  assumes U: "udp_objs w u = Some U" "\<not> u_state_mut U" "\<not> u_closing U" "u_write_buf_dsize U = 0"
    and io: "owns IOUDPSocket (ufd U) w" "io_wf w" "poll_agrees w" and py: "py_spares_udp u E"
  shows "\<exists>w'. udp_close E u w = Ret w' \<and> udp_objs w' u = Some (U\<lparr>u_closing := True\<rparr>)
     \<and> handles_io w' (ufd U) = None \<and> udp_close E u w' = Ret w'
     \<and> (\<exists>cs. py_calls (trace w') = py_calls (trace w) @ ConnectionLost (u_proto U) None # cs)
     \<and> udp_transports w' (ufd U) = udp_transports w (ufd U)"
proof -
  let ?w1 = "upd_udp u (\<lambda>U. U\<lparr>u_closing := True\<rparr>) w" and ?U1 = "U\<lparr>u_closing := True\<rparr>"
  have "owns IOUDPSocket (ufd U) ?w1" "io_wf ?w1" "poll_agrees ?w1" using io by simp_all
  from udp_src.rem_keeps [OF this, of READABLE]
  obtain w2 where w2: "udp_socket_rem (ufd U) {READABLE} ?w1 = Ret w2"
    "watching IOUDPSocket (ufd U) w2 = watching IOUDPSocket (ufd U) ?w1 - {READABLE}"
    "poll_agrees w2" "io_wf w2" "io_frame ?w1 w2" "owns IOUDPSocket (ufd U) w2" by auto
  from udp_src.rem_keeps [OF w2(6,4,3), of WRITABLE]
  obtain w3 where w3: "udp_socket_rem (ufd U) {WRITABLE} w2 = Ret w3"
    "watching IOUDPSocket (ufd U) w2 \<subseteq> {WRITABLE} \<longrightarrow> handles_io w3 (ufd U) = None" "io_frame w2 w3" by auto
  note f = io_frame_udp [OF w2(5)] io_frame_udp [OF w3(3)] io_frame_fields(5) [OF w2(5)]
    io_frame_fields(5) [OF w3(3)]
  have U2: "udp_objs w2 u = Some ?U1" "udp_objs w3 u = Some ?U1" using f(1,3) U(1) by simp_all
  have none: "handles_io w3 (ufd U) = None"
    using w3(2) w2(2) not_readable_sub [of "watching IOUDPSocket (ufd U) w2"] by simp
  obtain w' where w': "snd (call_py E (ConnectionLost (u_proto U) None) w3) = w'" by blast
  then have run: "udp_close E u w = Ret w'"
    using U w2(1) U2 w3(1) by (simp add: udp_close_def udp_call_conn_lost_def)
  have sp: "udp_spared u ?U1 w3 w'" "\<exists>us. trace w' = trace w3 @ Py (ConnectionLost (u_proto U) None) # us"
    using udp_spared_call [OF py U2(2), of "ConnectionLost (u_proto U) None"] w' by simp_all
  then have U': "udp_objs w' u = Some ?U1" by (simp add: udp_spared_def)
  have "udp_close E u w' = Ret w'" using U' by (simp add: udp_close_def)
  moreover have "\<exists>cs. py_calls (trace w') = py_calls (trace w) @ ConnectionLost (u_proto U) None # cs"
    using sp(2) f(5,6) by (auto simp: py_calls_Py_Cons)
  ultimately show ?thesis using run U' sp(1) none f(2,4) by (simp add: udp_spared_def)
qed

theorem udp_close_correct_witness:
  "\<exists>w'. udp_close demo_ext 0 demo_udp = Ret w' \<and> handles_io w' 7 = None \<and> udp_transports w' 7 = Some 0"
proof -
  have "owns IOUDPSocket 7 demo_udp" "io_wf demo_udp" "poll_agrees demo_udp"
    by (simp_all add: registry_defs requested_def)
  then show ?thesis
    using udp_close_correct [OF demo_udp_facts(3,6) _ _ _ _ _ demo_udp_facts(1)]
    by (auto simp: demo_udp_facts)
qed

end
