(* ===== verification/Tcp_Server.thy ===== *)
theory Tcp_Server
  imports Udp_Transport
begin

text \<open>
  The listening side: \<^verbatim>\<open>TCPServer\<close> and \<^verbatim>\<open>TCPServerRef\<close> of \<^verbatim>\<open>tcp.rs\<close>, \<^verbatim>\<open>Server\<close> of
  \<^verbatim>\<open>server.rs\<close>. A hash set is walked in an order the code does not know: it is the argument
  \<open>order\<close> of the operations that walk one. The answers of the kernel to a transport's operations are
  given by transport.
\<close>

section \<open>Servers\<close>

record TCPServer =
  srv_fd :: fd
  srv_sfamily :: int
  srv_backlog :: int
  srv_protocol_factory :: pyobj
  srv_ssl_config :: "nat option"

definition from_fd :: "fd \<Rightarrow> int \<Rightarrow> int \<Rightarrow> pyobj \<Rightarrow> TCPServer" where
  "from_fd f sfamily backlog protocol_factory =
     \<lparr>srv_fd = f, srv_sfamily = sfamily, srv_backlog = backlog,
      srv_protocol_factory = protocol_factory, srv_ssl_config = None\<rparr>"

definition from_fd_ssl :: "fd \<Rightarrow> int \<Rightarrow> int \<Rightarrow> pyobj \<Rightarrow> nat \<Rightarrow> TCPServer" where
  "from_fd_ssl f sfamily backlog protocol_factory ssl_config =
     \<lparr>srv_fd = f, srv_sfamily = sfamily, srv_backlog = backlog,
      srv_protocol_factory = protocol_factory, srv_ssl_config = Some ssl_config\<rparr>"

text \<open>\<^verbatim>\<open>listen\<close>, with the answer of the \<^verbatim>\<open>listen\<close> system call.\<close>

definition listen :: "TCPServer \<Rightarrow> bool \<Rightarrow> 'c world \<Rightarrow> unit pyresult \<times> 'c world" where
  "listen srv ok w =
     (if \<not> ok then (Inl (OSError ''listen''), w)
      else (Inr (), tcp_listener_add
              \<lparr>sref_fd = srv_fd srv, sref_sfamily = srv_sfamily srv,
               sref_proto_factory = srv_protocol_factory srv,
               sref_ssl_config = srv_ssl_config srv\<rparr> w))"

text \<open>
  \<^verbatim>\<open>EventLoop::with_tcp_listener_streams\<close>: the function is called if the listener is known; \<open>d\<close>
  is the result when it is not.
\<close>

definition with_tcp_listener_streams :: "fd \<Rightarrow> 'c world \<Rightarrow> 'a \<Rightarrow> (fd set \<Rightarrow> 'a) \<Rightarrow> 'a" where
  "with_tcp_listener_streams f w d func =
     (case tcp_lstreams w f of None \<Rightarrow> d | Some streams \<Rightarrow> func streams)"

text \<open>The transports of a listener's streams, in the order the set is walked.\<close>

definition stream_transports :: "fd \<Rightarrow> fd list \<Rightarrow> 'c world \<Rightarrow> nat list" where
  "stream_transports l order w =
     with_tcp_listener_streams l w []
       (\<lambda>streams. List.map_filter (\<lambda>f. if f \<in> streams then get_tcp_transport f w else None) order)"

fun for_each :: "(nat \<Rightarrow> 'c world \<Rightarrow> 'c world outcome) \<Rightarrow> nat list \<Rightarrow> 'c world \<Rightarrow> 'c world outcome" where
  "for_each op [] w = Ret w"
| "for_each op (t # ts) w = and_then (op t w) (for_each op ts)"

definition streams_close ::
  "'c ext \<Rightarrow> (nat \<Rightarrow> kernel) \<Rightarrow> TCPServer \<Rightarrow> fd list \<Rightarrow> 'c world \<Rightarrow> 'c world outcome" where
  "streams_close E Ks srv order w =
     for_each (\<lambda>t. tcp_close E (Ks t) t) (stream_transports (srv_fd srv) order w) w"

definition streams_abort ::
  "'c ext \<Rightarrow> (nat \<Rightarrow> kernel) \<Rightarrow> TCPServer \<Rightarrow> fd list \<Rightarrow> 'c world \<Rightarrow> 'c world outcome" where
  "streams_abort E Ks srv order w =
     for_each (\<lambda>t. tcp_abort E (Ks t) t) (stream_transports (srv_fd srv) order w) w"

text \<open>\<^verbatim>\<open>TCPServer::close\<close>; the answer of \<^verbatim>\<open>tcp_listener_rem\<close> is dropped.\<close>

definition TCPServer_close ::
  "'c ext \<Rightarrow> (nat \<Rightarrow> kernel) \<Rightarrow> TCPServer \<Rightarrow> fd list \<Rightarrow> bool \<Rightarrow> 'c world \<Rightarrow> 'c world outcome" where
  "TCPServer_close E Ks srv order dereg_ok w =
     and_then (streams_abort E Ks srv order w) (\<lambda>w1.
     and_then (tcp_listener_rem (srv_fd srv) dereg_ok w1) (\<lambda>(_, w2). Ret w2))"

section \<open>Accepted streams\<close>

text \<open>
  \<^verbatim>\<open>new_stream\<close> for an accepted stream; \<open>ctx\<close> is the copied context. The protocol's methods that
  the constructor looks up are taken to exist. The only caller, \<^verbatim>\<open>handle_io_tcpl\<close>, holds the mutex
  of the poller all along: a factory that makes a request to the registry or polls, in the trace a
  \<open>Poll\<close>, a \<open>PollRefused\<close> or a \<open>PollWait\<close>, locks that mutex again and does not come back.
\<close>

definition takes_io_lock :: "effect \<Rightarrow> bool" where
  "takes_io_lock e = (case e of Poll _ \<Rightarrow> True | PollRefused _ \<Rightarrow> True | PollWait _ \<Rightarrow> True | _ \<Rightarrow> False)"

definition io_locked_again :: "'c world \<Rightarrow> 'c world \<Rightarrow> bool" where
  "io_locked_again w w' = list_ex takes_io_lock (drop (length (trace w)) (trace w'))"

definition new_stream ::
  "'c ext \<Rightarrow> TCPServerRef \<Rightarrow> fd \<Rightarrow> pyobj \<Rightarrow> 'c world \<Rightarrow> ((nat \<times> BoxedHandle) \<times> 'c world) outcome" where
  "new_stream E sref stream ctx w =
     (case call_py E (ProtoFactory (sref_proto_factory sref)) w of (res, w1) \<Rightarrow>
      if io_locked_again w w1 then Blocked
      else case res of
        PyErr _ \<Rightarrow> Panic UnwrapErr
      | PyOk p _ \<Rightarrow>
          (let T = TCPTransport_new stream p (py_is_buffered E p) (Some (sref_fd sref)) (env_close_timeout E)
           in and_then
                (case sref_ssl_config sref of
                   None \<Rightarrow> Ret T
                 | Some cfg \<Rightarrow> and_then (unwrap (tls_new_server E cfg)) (\<lambda>conn.
                                 Ret (initialize_tls_server conn T)))
                (\<lambda>T1. case new_transport T1 w1 of (t, w2) \<Rightarrow>
                   if sref_ssl_config sref \<noteq> None then Ret ((t, HNoOp), w2)
                   else and_then (unwrap (py_conn_made E p)) (\<lambda>conn_made.
                          case new_handle (CBHandle_new1 conn_made t ctx) w2 of (h, w3) \<Rightarrow>
                            Ret ((t, HCB h), w3)))))"

section \<open>The server object\<close>

record Server =
  sv_closed :: bool
  sv_serving :: bool
  sv_servers :: "TCPServer list"

definition Server_tcp :: "TCPServer list \<Rightarrow> Server" where
  "Server_tcp servers = \<lparr>sv_closed = False, sv_serving = False, sv_servers = servers\<rparr>"

text \<open>The loop of \<^verbatim>\<open>_start_serving\<close>; \<open>oks\<close> are the answers of the kernel, by descriptor.\<close>

fun listen_all :: "TCPServer list \<Rightarrow> (fd \<Rightarrow> bool) \<Rightarrow> 'c world \<Rightarrow> unit pyresult \<times> 'c world" where
  "listen_all [] oks w = (Inr (), w)"
| "listen_all (srv # srvs) oks w =
     (case listen srv (oks (srv_fd srv)) w of
        (Inl e, w1) \<Rightarrow> (Inl e, w1)
      | (Inr _, w1) \<Rightarrow> listen_all srvs oks w1)"

definition start_serving ::
  "Server \<Rightarrow> (fd \<Rightarrow> bool) \<Rightarrow> 'c world \<Rightarrow> unit pyresult \<times> Server \<times> 'c world" where
  "start_serving sv oks w =
     (case listen_all (sv_servers sv) oks w of
        (Inl e, w1) \<Rightarrow> (Inl e, sv, w1)
      | (Inr _, w1) \<Rightarrow> (Inr (), sv\<lparr>sv_serving := True\<rparr>, w1))"

definition is_serving :: "Server \<Rightarrow> bool" where
  "is_serving sv = sv_serving sv"

fun each_server :: "(TCPServer \<Rightarrow> 'c world \<Rightarrow> 'c world outcome) \<Rightarrow> TCPServer list \<Rightarrow> 'c world \<Rightarrow> 'c world outcome" where
  "each_server op [] w = Ret w"
| "each_server op (s # ss) w = and_then (op s w) (each_server op ss)"

definition Server_close ::
  "'c ext \<Rightarrow> (nat \<Rightarrow> kernel) \<Rightarrow> fd list \<Rightarrow> bool \<Rightarrow> Server \<Rightarrow> 'c world \<Rightarrow> (Server \<times> 'c world) outcome" where
  "Server_close E Ks order dereg_ok sv w =
     (if \<not> sv_closed sv
      then and_then (each_server (\<lambda>s. TCPServer_close E Ks s order dereg_ok) (sv_servers sv) w)
             (\<lambda>w1. Ret (sv\<lparr>sv_closed := True, sv_serving := False\<rparr>, w1))
      else Ret (sv\<lparr>sv_serving := False\<rparr>, w))"

definition Server_streams_close ::
  "'c ext \<Rightarrow> (nat \<Rightarrow> kernel) \<Rightarrow> fd list \<Rightarrow> Server \<Rightarrow> 'c world \<Rightarrow> 'c world outcome" where
  "Server_streams_close E Ks order sv w = each_server (\<lambda>s. streams_close E Ks s order) (sv_servers sv) w"

definition Server_streams_abort ::
  "'c ext \<Rightarrow> (nat \<Rightarrow> kernel) \<Rightarrow> fd list \<Rightarrow> Server \<Rightarrow> 'c world \<Rightarrow> 'c world outcome" where
  "Server_streams_abort E Ks order sv w = each_server (\<lambda>s. streams_abort E Ks s order) (sv_servers sv) w"

section \<open>Aborting the streams of a listener\<close>

text \<open>
  A transport is watched for reading only while it is open and for writing only while it has data
  buffered.
\<close>

definition tcp_tidy :: "nat \<Rightarrow> 'c world \<Rightarrow> bool" where
  "tcp_tidy t w =
     (case tcp_objs w t of
        None \<Rightarrow> False
      | Some T \<Rightarrow> tls_conn (tstate T) = None \<and> tcp_transports w (tfd T) = Some t
          \<and> watching IOTCPStream (tfd T) w \<subseteq>
              (if closing T then {} else {READABLE}) \<union> (if write_buf (tstate T) = [] then {} else {WRITABLE}))"

lemma io_frame_spared:
  assumes "io_frame w w'" "\<forall>g. g \<noteq> f \<longrightarrow> handles_io w' g = handles_io w g" "io_wf w'" "poll_agrees w'"
    and "tcp_objs w t = Some T" "tfd T \<noteq> f"
  shows "spared t T w w'"
proof -
  obtain us where us: "trace w' = trace w @ us" using assms(1) by (auto simp: io_frame_def)
  moreover have "sent_bytes (tfd T) us = []"
    using io_frame_fields(4) [OF assms(1), of "tfd T"] us by simp
  ultimately show ?thesis
    using io_frame_fields(1,2) [OF assms(1)] assms(2-6) by (auto simp: spared_def)
qed

lemma upd_other_spared:
  "tcp_objs w t2 = Some T2 \<Longrightarrow> t2 \<noteq> t \<Longrightarrow> spared t2 T2 w (upd_tcp t g w)"
  by (simp add: spared_def)

lemma drop_other_spared:
  "tcp_objs w t2 = Some T2 \<Longrightarrow> tfd T2 \<noteq> tfd T \<Longrightarrow> spared t2 T2 w (drop_stream T w)"
  by (simp add: spared_def)

text \<open>Removing one readiness if asked to: what the next lemma does twice.\<close>

lemma rem_if:
  assumes "owns IOTCPStream f w" "io_wf w" "poll_agrees w"
  shows "\<exists>w'. (if b then tcp_stream_rem f {r} w else Ret w) = Ret w'
     \<and> watching IOTCPStream f w' = watching IOTCPStream f w - (if b then {r} else {})
     \<and> poll_agrees w' \<and> io_wf w' \<and> io_frame w w' \<and> owns IOTCPStream f w'
     \<and> (\<forall>g. g \<noteq> f \<longrightarrow> handles_io w' g = handles_io w g)"
  using tcp_src.rem_keeps [OF assms, of r] assms by (cases b) auto

lemma tcp_abort_spec:
  assumes inv: "tcp_inv t w" and tidy: "tcp_tidy t w" and T: "tcp_objs w t = Some T"
    and py: "\<forall>t. py_spares t E"
  shows "\<exists>w'. tcp_abort E K t w = Ret w' \<and> tcp_inv t w' \<and> tcp_objs w' t = Some (T\<lparr>closing := True\<rparr>)
     \<and> tcp_transports w' (tfd T) = None \<and> watching IOTCPStream (tfd T) w' = {}
     \<and> (\<exists>cs. py_calls (trace w') = py_calls (trace w) @ ConnectionLost (proto T) None # cs)
     \<and> (\<forall>t2 T2. tcp_objs w t2 = Some T2 \<and> t2 \<noteq> t \<and> tfd T2 \<noteq> tfd T \<longrightarrow> spared t2 T2 w w')"
proof -
  note ok = tcp_inv_SomeD [OF inv T] and okT = tcp_okD [OF tcp_inv_SomeD(1) [OF inv T]]
  have ti: "tls_conn (tstate T) = None" "tcp_transports w (tfd T) = Some t"
    "watching IOTCPStream (tfd T) w \<subseteq>
       (if closing T then {} else {READABLE}) \<union> (if write_buf (tstate T) = [] then {} else {WRITABLE})"
    using tidy T by (simp_all add: tcp_tidy_def)
  obtain w1 where w1: "(if write_buf_dsize (tstate T) > 0 then tcp_stream_rem (tfd T) {WRITABLE} w else Ret w) = Ret w1"
    "watching IOTCPStream (tfd T) w1 = watching IOTCPStream (tfd T) w - (if write_buf_dsize (tstate T) > 0 then {WRITABLE} else {})"
    "poll_agrees w1" "io_wf w1" "io_frame w w1" "owns IOTCPStream (tfd T) w1"
    "\<forall>g. g \<noteq> tfd T \<longrightarrow> handles_io w1 g = handles_io w g"
    using rem_if [OF ok(2-4), of "write_buf_dsize (tstate T) > 0" WRITABLE] by blast
  let ?T1 = "T\<lparr>closing := True\<rparr>" and ?u = "upd_tcp t (\<lambda>T. T\<lparr>closing := True\<rparr>) w1"
  have u: "owns IOTCPStream (tfd T) ?u" "io_wf ?u" "poll_agrees ?u" using w1(3,4,6) by simp_all
  obtain w2 where w2: "(if \<not> closing T then tcp_stream_rem (tfd T) {READABLE} ?u else Ret ?u) = Ret w2"
    "watching IOTCPStream (tfd T) w2 = watching IOTCPStream (tfd T) ?u - (if \<not> closing T then {READABLE} else {})"
    "poll_agrees w2" "io_wf w2" "io_frame ?u w2" "owns IOTCPStream (tfd T) w2"
    "\<forall>g. g \<noteq> tfd T \<longrightarrow> handles_io w2 g = handles_io ?u g"
    using rem_if [OF u, of "\<not> closing T" READABLE] by blast
  note f1 = io_frame_fields [OF w1(5)] and f2 = io_frame_fields [OF w2(5)]
  have T1: "tcp_objs w1 t = Some T" "tcp_objs w2 t = Some ?T1" using f1(1) f2(1) T by simp_all
  have same: "closing T \<Longrightarrow> ?u = w1" using T1(1) by (simp add: upd_tcp_def fun_upd_idem)
  have att2: "tcp_transports w2 (tfd T) = Some t" using f1(2) f2(2) ti(2) by simp
  obtain w3 where w3: "call_conn_lost E K t None w2 = Ret (drop_stream ?T1 w3)" "spared t ?T1 w2 w3"
    "\<exists>us. trace w3 = trace w2 @ Py (ConnectionLost (proto T) None) # us"
    "snd (call_py E (ConnectionLost (proto T) None) w2) = w3"
    using call_conn_lost_drops [OF T1(2) _ _ _ spec [OF py], of K None] okT(5) att2 by auto
  note s3 = spared_fields [OF w3(2)]
  let ?w' = "drop_stream ?T1 w3"
  have run: "tcp_abort E K t w = Ret ?w'"
    using T okT(5) w1(1) w2(1) w3(1) same by (cases "closing T") (simp_all add: tcp_abort_def)
  have T': "tcp_objs ?w' t = Some ?T1" using s3(1) by simp
  have "watching IOTCPStream (tfd T) w2 = {}"
    using w2(2) w1(2) ti(3) okT(6) by (auto split: if_splits)
  then have wat: "watching IOTCPStream (tfd T) ?w' = {}" using s3(3) by simp
  have "tcp_ok ?T1" using ok(1) by (simp add: tcp_ok_def)
  then have inv': "tcp_inv t ?w'"
    using s3(2,5) w2(3,4,6) by (intro tcp_inv_SomeI [OF T']) simp_all
  have others: "spared t2 T2 w ?w'" if t2: "tcp_objs w t2 = Some T2" "t2 \<noteq> t" "tfd T2 \<noteq> tfd T" for t2 T2
  proof -
    have "spared t2 T2 w w1" by (rule io_frame_spared [OF w1(5,7,4,3) t2(1,3)])
    moreover from this have "spared t2 T2 w1 ?u" by (intro upd_other_spared [OF spared_fields(1) t2(2)])
    moreover from this have "spared t2 T2 ?u w2"
      by (intro io_frame_spared [OF w2(5,7,4,3) spared_fields(1) t2(3)])
    moreover from this have "spared t2 T2 w2 (snd (call_py E (ConnectionLost (proto T) None) w2))"
      by (intro spared_call_py [OF spec [OF py] spared_fields(1)])
    moreover from this have "spared t2 T2 w3 ?w'"
      unfolding w3(4) using t2(3) by (intro drop_other_spared [OF spared_fields(1)]) simp_all
    ultimately show ?thesis unfolding w3(4) using spared_trans by metis
  qed
  have "\<exists>cs. py_calls (trace ?w') = py_calls (trace w) @ ConnectionLost (proto T) None # cs"
    using w3(3) f1(5) f2(5) by (auto simp: py_calls_Py_Cons)
  then show ?thesis using run inv' T' wat others by auto
qed

definition forgotten :: "'c TCPTransport \<Rightarrow> 'c world \<Rightarrow> bool" where
  "forgotten T w \<longleftrightarrow> tcp_transports w (tfd T) = None \<and> watching IOTCPStream (tfd T) w = {}
     \<and> ConnectionLost (proto T) None \<in> set (py_calls (trace w))"

lemma tidy_spared: "tcp_tidy t w \<Longrightarrow> tcp_objs w t = Some T \<Longrightarrow> spared t T w w' \<Longrightarrow> tcp_tidy t w'"
  using spared_fields [of t T w w'] by (simp add: tcp_tidy_def)

lemma tidy_obj: "tcp_tidy t w \<Longrightarrow> \<exists>T. tcp_objs w t = Some T"
  by (cases "tcp_objs w t") (simp_all add: tcp_tidy_def)

lemma tidy_inj:
  "tcp_tidy t w \<Longrightarrow> tcp_tidy t2 w \<Longrightarrow> tcp_objs w t = Some T \<Longrightarrow> tcp_objs w t2 = Some T2 \<Longrightarrow>
     t \<noteq> t2 \<Longrightarrow> tfd T2 \<noteq> tfd T"
  by (auto simp: tcp_tidy_def)

lemma tidy_others:
  assumes t: "tcp_tidy t w" "tcp_objs w t = Some T" "t \<notin> set ts"
    and ts: "\<forall>x \<in> set ts. tcp_inv x w \<and> tcp_tidy x w"
    and sp: "\<forall>t2 T2. tcp_objs w t2 = Some T2 \<and> t2 \<noteq> t \<and> tfd T2 \<noteq> tfd T \<longrightarrow> spared t2 T2 w w1"
  shows "\<And>x X. x \<in> set ts \<Longrightarrow> tcp_objs w x = Some X \<Longrightarrow> spared x X w w1 \<and> tfd X \<noteq> tfd T"
    and "\<forall>x \<in> set ts. tcp_inv x w1 \<and> tcp_tidy x w1"
    and "\<And>x. x \<in> set ts \<Longrightarrow> tcp_objs w1 x = tcp_objs w x"
proof -
  show rest: "spared x X w w1 \<and> tfd X \<noteq> tfd T" if x: "x \<in> set ts" "tcp_objs w x = Some X" for x X
    using sp ts x t(3) tidy_inj [OF t(1) _ t(2) x(2)] by metis
  have ex: "\<exists>X. tcp_objs w x = Some X \<and> spared x X w w1" if "x \<in> set ts" for x
    using rest [OF that] tidy_obj ts that by blast
  show "\<forall>x \<in> set ts. tcp_inv x w1 \<and> tcp_tidy x w1"
    using ex ts spared_inv(1) tidy_spared by blast
  show "tcp_objs w1 x = tcp_objs w x" if "x \<in> set ts" for x
    using ex [OF that] spared_fields(1) by metis
qed

lemma abort_all:
  assumes "\<forall>t \<in> set ts. tcp_inv t w \<and> tcp_tidy t w" "distinct ts" "\<forall>t. py_spares t E"
  shows "\<exists>w'. for_each (\<lambda>t. tcp_abort E (Ks t) t) ts w = Ret w'
     \<and> (\<forall>t T. t \<in> set ts \<and> tcp_objs w t = Some T \<longrightarrow> forgotten T w')
     \<and> (\<forall>t2 T2. tcp_objs w t2 = Some T2 \<and> t2 \<notin> set ts
          \<and> (\<forall>t T. t \<in> set ts \<and> tcp_objs w t = Some T \<longrightarrow> tfd T2 \<noteq> tfd T) \<longrightarrow> spared t2 T2 w w')"
  using assms(1,2)
proof (induction ts arbitrary: w)
  case Nil
  then show ?case by simp
next
  case (Cons t ts)
  have t: "tcp_inv t w" "tcp_tidy t w" "t \<notin> set ts" "\<forall>x \<in> set ts. tcp_inv x w \<and> tcp_tidy x w"
    using Cons.prems by simp_all
  then obtain T where T: "tcp_objs w t = Some T" using tidy_obj by blast
  obtain w1 where w1: "tcp_abort E (Ks t) t w = Ret w1" "tcp_objs w1 t = Some (T\<lparr>closing := True\<rparr>)"
    "tcp_transports w1 (tfd T) = None" "watching IOTCPStream (tfd T) w1 = {}"
    "\<exists>cs. py_calls (trace w1) = py_calls (trace w) @ ConnectionLost (proto T) None # cs"
    "\<forall>t2 T2. tcp_objs w t2 = Some T2 \<and> t2 \<noteq> t \<and> tfd T2 \<noteq> tfd T \<longrightarrow> spared t2 T2 w w1"
    using tcp_abort_spec [OF t(1,2) T assms(3), of "Ks t"] by blast
  note others = tidy_others [OF t(2) T t(3,4) w1(6)]
  obtain w' where w': "for_each (\<lambda>t. tcp_abort E (Ks t) t) ts w1 = Ret w'"
    "\<forall>t T. t \<in> set ts \<and> tcp_objs w1 t = Some T \<longrightarrow> forgotten T w'"
    "\<forall>t2 T2. tcp_objs w1 t2 = Some T2 \<and> t2 \<notin> set ts
          \<and> (\<forall>t T. t \<in> set ts \<and> tcp_objs w1 t = Some T \<longrightarrow> tfd T2 \<noteq> tfd T) \<longrightarrow> spared t2 T2 w1 w'"
    using Cons.IH [OF others(2)] Cons.prems(2) by auto
  have "tfd (T\<lparr>closing := True\<rparr>) \<noteq> tfd X" if "x \<in> set ts" "tcp_objs w1 x = Some X" for x X
    using others(1,3) that by fastforce
  then have sp: "spared t (T\<lparr>closing := True\<rparr>) w1 w'" using w'(3) w1(2) t(3) by blast
  have "forgotten T w'"
    using spared_fields(3,4) [OF sp] spared_py_calls [OF sp] w1(3-5) by (auto simp: forgotten_def)
  moreover have "forgotten X w'" if "x \<in> set ts" "tcp_objs w x = Some X" for x X
    using w'(2) that others(3) by metis
  moreover have "spared t2 T2 w w'" if "tcp_objs w t2 = Some T2" "t2 \<notin> set (t # ts)"
      "\<forall>x X. x \<in> set (t # ts) \<and> tcp_objs w x = Some X \<longrightarrow> tfd T2 \<noteq> tfd X" for t2 T2
  proof -
    have "spared t2 T2 w w1" using w1(6) that T by auto
    moreover from this have "spared t2 T2 w1 w'"
      using w'(3) that others(3) spared_fields(1) by (metis list.set_intros(2))
    ultimately show ?thesis by (rule spared_trans)
  qed
  moreover have "for_each (\<lambda>t. tcp_abort E (Ks t) t) (t # ts) w = Ret w'" using w1(1) w'(1) by simp
  ultimately show ?case using T by (intro exI [of _ w'] conjI allI impI) auto
qed

section \<open>Properties\<close>

lemma stream_transports_set:
  "tcp_lstreams w l = Some (set order) \<Longrightarrow>
     set (stream_transports l order w) = {t. \<exists>f \<in> set order. tcp_transports w f = Some t}"
  by (force simp: stream_transports_def with_tcp_listener_streams_def List.map_filter_def get_tcp_transport_def)

lemma stream_transports_distinct:
  assumes "distinct order" "\<forall>f t. f \<in> set order \<and> tcp_transports w f = Some t \<longrightarrow> tcp_tidy t w \<and>
     (\<exists>T. tcp_objs w t = Some T \<and> tfd T = f)"
  shows "distinct (stream_transports l order w)"
proof (cases "tcp_lstreams w l")
  case (Some streams)
  let ?sel = "filter (\<lambda>f. f \<in> streams \<and> tcp_transports w f \<noteq> None) order"
  have eq: "stream_transports l order w = map (\<lambda>f. the (tcp_transports w f)) ?sel"
    unfolding stream_transports_def with_tcp_listener_streams_def List.map_filter_def get_tcp_transport_def Some
    by (induction order) auto
  have "inj_on (\<lambda>f. the (tcp_transports w f)) (set ?sel)"
  proof (rule inj_onI)
    fix x y assume xy: "x \<in> set ?sel" "y \<in> set ?sel" "the (tcp_transports w x) = the (tcp_transports w y)"
    then obtain t where "tcp_transports w x = Some t" "tcp_transports w y = Some t" by auto
    moreover have "x \<in> set order" "y \<in> set order" using xy(1,2) by simp_all
    ultimately have "\<exists>T. tcp_objs w t = Some T \<and> tfd T = x" "\<exists>T. tcp_objs w t = Some T \<and> tfd T = y"
      using assms(2) by blast+
    then show "x = y" by auto
  qed
  then show ?thesis using assms(1) unfolding eq distinct_map by simp
qed (simp add: stream_transports_def with_tcp_listener_streams_def)

text \<open>
  Aborting the streams of a listener, in whatever order the set is walked: the call returns,
  and for every stream with an attached transport the protocol has been told of the lost
  connection, the stream is watched for nothing, and the loop has forgotten the transport.
\<close>

theorem streams_abort_correct:
  assumes streams: "tcp_lstreams w (srv_fd srv) = Some (set order)" "distinct order"
    and each: "\<forall>f t. f \<in> set order \<and> tcp_transports w f = Some t \<longrightarrow>
       tcp_inv t w \<and> tcp_tidy t w \<and> (\<exists>T. tcp_objs w t = Some T \<and> tfd T = f)"
    and py: "\<forall>t. py_spares t E"
  shows "\<exists>w'. streams_abort E Ks srv order w = Ret w'
     \<and> (\<forall>f t T. f \<in> set order \<and> tcp_transports w f = Some t \<and> tcp_objs w t = Some T \<longrightarrow>
          tcp_transports w' f = None \<and> watching IOTCPStream f w' = {}
          \<and> ConnectionLost (proto T) None \<in> set (py_calls (trace w')))"
proof -
  let ?ts = "stream_transports (srv_fd srv) order w"
  have set: "set ?ts = {t. \<exists>f \<in> set order. tcp_transports w f = Some t}"
    by (rule stream_transports_set [OF streams(1)])
  have "distinct ?ts" using stream_transports_distinct [OF streams(2)] each by blast
  moreover have "\<forall>t \<in> set ?ts. tcp_inv t w \<and> tcp_tidy t w" using each set by auto
  ultimately obtain w' where w': "for_each (\<lambda>t. tcp_abort E (Ks t) t) ?ts w = Ret w'"
    "\<forall>t T. t \<in> set ?ts \<and> tcp_objs w t = Some T \<longrightarrow> forgotten T w'"
    using abort_all [OF _ _ py, of ?ts w Ks] by blast
  have "tcp_transports w' f = None \<and> watching IOTCPStream f w' = {}
          \<and> ConnectionLost (proto T) None \<in> set (py_calls (trace w'))"
    if "f \<in> set order" "tcp_transports w f = Some t" "tcp_objs w t = Some T" for f t T
  proof -
    have "t \<in> set ?ts" using set that by blast
    moreover have "tfd T = f" using each that by fastforce
    ultimately show ?thesis using w'(2) that(3) by (auto simp: forgotten_def)
  qed
  then show ?thesis using w'(1) unfolding streams_abort_def by blast
qed

theorem streams_abort_correct_witness:
  "let w = (demo_world (demo_tcp\<lparr>lfd := Some 3\<rparr>))\<lparr>tcp_lstreams := [3 \<mapsto> {7}]\<rparr> in
   \<exists>w'. streams_abort demo_ext (\<lambda>_. \<lparr>k_write = SysWouldBlock, k_now = 0\<rparr>) (from_fd 3 2 100 9) [7] w = Ret w'
     \<and> tcp_transports w' 7 = None \<and> ConnectionLost 5 None \<in> set (py_calls (trace w'))"
proof -
  let ?T = "demo_tcp\<lparr>lfd := Some 3\<rparr>"
  let ?w = "(demo_world ?T)\<lparr>tcp_lstreams := [3 \<mapsto> {7}]\<rparr>"
  have "tcp_ok ?T" using demo_tcp_ok by (simp add: tcp_ok_def)
  then have "tcp_inv 0 ?w" "tcp_tidy 0 ?w"
    by (simp_all add: tcp_inv_def tcp_tidy_def demo_world_def registry_defs
        requested_def watching_def)
  then have each: "\<forall>f t. f \<in> set [7] \<and> tcp_transports ?w f = Some t \<longrightarrow>
       tcp_inv t ?w \<and> tcp_tidy t ?w \<and> (\<exists>T. tcp_objs ?w t = Some T \<and> tfd T = f)"
    by simp
  have l: "tcp_lstreams ?w (srv_fd (from_fd 3 2 100 9)) = Some (set [7])" by (simp add: from_fd_def)
  have py: "\<forall>t. py_spares t demo_ext" using demo_ext_spares by blast
  show ?thesis
    using streams_abort_correct [OF l _ each py, of "\<lambda>_. \<lparr>k_write = SysWouldBlock, k_now = 0\<rparr>"]
    by (auto simp: Let_def)
qed

text \<open>A listener that has just been registered.\<close>

definition listening :: "'c world \<Rightarrow> fd \<Rightarrow> bool" where
  "listening w f =
     ((case handles_io w f of Some (IOTCPListener ref) \<Rightarrow> sref_fd ref = f | _ \<Rightarrow> False)
      \<and> requested (trace w) f = Some {READABLE} \<and> tcp_lstreams w f = Some {})"

lemma listen_all_listens:
  "\<exists>w'. listen_all srvs (\<lambda>_. True) w = (Inr (), w') \<and> (\<forall>s \<in> set srvs. listening w' (srv_fd s))
     \<and> (\<forall>f. listening w f \<longrightarrow> listening w' f)"
proof (induction srvs arbitrary: w)
  case (Cons s ss)
  let ?w1 = "snd (listen s True w)"
  have s: "listening ?w1 (srv_fd s)" "\<forall>f. listening w f \<longrightarrow> listening ?w1 f"
    by (auto simp: listen_def tcp_listener_add_def listening_def Let_def set_io_def)
  obtain w' where "listen_all ss (\<lambda>_. True) ?w1 = (Inr (), w')" "\<forall>s \<in> set ss. listening w' (srv_fd s)"
    "\<forall>f. listening ?w1 f \<longrightarrow> listening w' f"
    using Cons.IH by blast
  then show ?case using s by (intro exI [of _ w']) (auto simp: listen_def)
qed simp

text \<open>
  The life of a server object. Starting registers every listener for reading, with an empty
  set of streams, and the server is serving; an error stops the loop and leaves it not serving.
  Closing twice is closing once. But a server started again after it was closed serves and cannot
  be closed any more: \<^verbatim>\<open>_close\<close> leaves its listeners registered.
\<close>

theorem server_lifecycle:
  "(\<exists>w'. start_serving sv (\<lambda>_. True) w = (Inr (), sv\<lparr>sv_serving := True\<rparr>, w')
       \<and> (\<forall>s \<in> set (sv_servers sv). listening w' (srv_fd s)))
   \<and> (sv_servers sv \<noteq> [] \<and> (\<forall>s \<in> set (sv_servers sv). \<not> oks (srv_fd s)) \<longrightarrow>
        (\<exists>e. start_serving sv oks w = (Inl e, sv, w)))
   \<and> (sv_closed sv \<longrightarrow>
        Server_close E Ks order ok sv w = Ret (sv\<lparr>sv_serving := False\<rparr>, w)
        \<and> (\<exists>w'. start_serving sv (\<lambda>_. True) w = (Inr (), sv\<lparr>sv_serving := True\<rparr>, w')
             \<and> (\<forall>s \<in> set (sv_servers sv). listening w' (srv_fd s))
             \<and> Server_close E Ks order ok (sv\<lparr>sv_serving := True\<rparr>) w'
                 = Ret (sv\<lparr>sv_serving := False\<rparr>, w')))
   \<and> (\<forall>sv1 w1. Server_close E Ks order ok sv w = Ret (sv1, w1) \<longrightarrow>
        sv_closed sv1 \<and> \<not> is_serving sv1 \<and> Server_close E Ks order ok sv1 w1 = Ret (sv1, w1))"
proof -
  obtain w' where w': "listen_all (sv_servers sv) (\<lambda>_. True) w = (Inr (), w')"
    "\<forall>s \<in> set (sv_servers sv). listening w' (srv_fd s)"
    using listen_all_listens by blast
  then have "start_serving sv (\<lambda>_. True) w = (Inr (), sv\<lparr>sv_serving := True\<rparr>, w')"
    by (simp add: start_serving_def)
  moreover have "\<exists>e. start_serving sv oks w = (Inl e, sv, w)"
    if "sv_servers sv \<noteq> []" "\<forall>s \<in> set (sv_servers sv). \<not> oks (srv_fd s)"
    using that by (cases "sv_servers sv") (simp_all add: start_serving_def listen_def)
  moreover have "sv_closed sv1 \<and> \<not> is_serving sv1 \<and> Server_close E Ks order ok sv1 w1 = Ret (sv1, w1)"
    if "Server_close E Ks order ok sv w = Ret (sv1, w1)" for sv1 w1
    using that by (auto simp: Server_close_def is_serving_def and_then_eq_Ret_iff split: if_splits)
  moreover have "Server_close E Ks order ok sv w = Ret (sv\<lparr>sv_serving := False\<rparr>, w)"
    "Server_close E Ks order ok (sv\<lparr>sv_serving := True\<rparr>) w' = Ret (sv\<lparr>sv_serving := False\<rparr>, w')"
    if "sv_closed sv"
    using that by (simp_all add: Server_close_def)
  ultimately show ?thesis using w'(2) by blast
qed

theorem server_lifecycle_witness:
  "let sv = (Server_tcp [from_fd 3 2 100 9])\<lparr>sv_closed := True\<rparr>; K = \<lparr>k_write = SysWouldBlock, k_now = 0\<rparr> in
   \<exists>w'. start_serving sv (\<lambda>_. True) loop0 = (Inr (), sv\<lparr>sv_serving := True\<rparr>, w') \<and> listening w' 3
     \<and> Server_close demo_ext (\<lambda>_. K) [] True (sv\<lparr>sv_serving := True\<rparr>) w' = Ret (sv\<lparr>sv_serving := False\<rparr>, w')"
  using server_lifecycle [of "(Server_tcp [from_fd 3 2 100 9])\<lparr>sv_closed := True\<rparr>" loop0 "\<lambda>_. True" demo_ext
      "\<lambda>_. \<lparr>k_write = SysWouldBlock, k_now = 0\<rparr>" "[]" True]
  by (auto simp: Let_def Server_tcp_def from_fd_def)

end
