(* ===== verification/Event_Loop.thy ===== *)
theory Event_Loop
  imports Tcp_Server
begin

text \<open>
  \<^verbatim>\<open>EventLoop::step\<close> and \<^verbatim>\<open>EventLoop::_run\<close> of \<^verbatim>\<open>event_loop.rs\<close>, the translation of
  poller events into handles, and the methods that create connections and servers.

  What one step learns from the outside is its argument: the clock readings, the answer and the
  events of the poller, the handles other threads queue while the loop sleeps in the poller, and
  for each handle that is run what the kernel answers it. With no event, no handle and no error, a
  poll without limit does not return, and neither does the step. The loop holds the mutex of the
  poller while it accepts connections, also while the protocol factory runs.
\<close>

section \<open>From events to handles\<close>

text \<open>A poller event, with what the kernel will answer to the calls made while handling it.\<close>

record io_event =
  ev_token :: fd
  ev_readable :: bool
  ev_writable :: bool
  ev_accepts :: "fd list"
  ev_signals :: "rdres list"

definition handle_io_py :: "io_event \<Rightarrow> PyHandleData \<Rightarrow> BoxedHandle list \<Rightarrow> BoxedHandle list" where
  "handle_io_py ev d handles =
     (let hs1 = (case phd_cbr d of Some cbr \<Rightarrow> if ev_readable ev then handles @ [HCB cbr] else handles
                 | None \<Rightarrow> handles)
      in case phd_cbw d of Some cbw \<Rightarrow> if ev_writable ev then hs1 @ [HCB cbw] else hs1 | None \<Rightarrow> hs1)"

definition handle_io_tcps :: "io_event \<Rightarrow> BoxedHandle list \<Rightarrow> BoxedHandle list" where
  "handle_io_tcps ev handles =
     (if ev_readable ev then handles @ [HTCPRead (ev_token ev)]
      else if ev_writable ev then handles @ [HTCPWrite (ev_token ev)] else handles)"

definition handle_io_udp :: "io_event \<Rightarrow> BoxedHandle list \<Rightarrow> BoxedHandle list" where
  "handle_io_udp ev handles =
     (if ev_readable ev then handles @ [HUDPRead (ev_token ev)]
      else if ev_writable ev then handles @ [HUDPWrite (ev_token ev)] else handles)"

text \<open>The accept loop of \<^verbatim>\<open>handle_io_tcpl\<close>, one accepted descriptor after the other.\<close>

fun accept_all ::
  "'c ext \<Rightarrow> TCPServerRef \<Rightarrow> pyobj \<Rightarrow> fd list \<Rightarrow> BoxedHandle list \<Rightarrow> 'c world
     \<Rightarrow> (BoxedHandle list \<times> 'c world) outcome" where
  "accept_all E sref ctx [] handles w = Ret (handles, w)"
| "accept_all E sref ctx (f # fs) handles w =
     and_then (new_stream E sref f ctx w) (\<lambda>((t, stream_handle), w1).
       let w2 = w1\<lparr>tcp_transports := (tcp_transports w1)(f \<mapsto> t)\<rparr>;
           w3 = w2\<lparr>tcp_lstreams := (tcp_lstreams w2)(sref_fd sref :=
                     map_option (insert f) (tcp_lstreams w2 (sref_fd sref)))\<rparr>;
           w4 = set_io f (IOTCPStream {READABLE}) (emit (Poll (Register f {READABLE})) w3)
       in accept_all E sref ctx fs (handles @ [stream_handle]) w4)"

definition handle_io_tcpl ::
  "'c ext \<Rightarrow> io_event \<Rightarrow> TCPServerRef \<Rightarrow> pyobj \<Rightarrow> BoxedHandle list \<Rightarrow> 'c world
     \<Rightarrow> (BoxedHandle list \<times> 'c world) outcome" where
  "handle_io_tcpl E ev sref ctx handles w =
     and_then (unwrap (tcp_lstreams w (sref_fd sref))) (\<lambda>_.
       accept_all E sref ctx (ev_accepts ev) handles w)"

text \<open>
  Signals: the loop of \<^verbatim>\<open>read_from_sock\<close> is that of \<^verbatim>\<open>read_into\<close> without the end flag; each byte
  is a signal number.
\<close>

definition read_from_sock :: "nat \<Rightarrow> rdres list \<Rightarrow> bytes" where
  "read_from_sock room s = fst (read_into room s)"

definition sig_handle :: "byte \<Rightarrow> BoxedHandle list \<times> 'c world \<Rightarrow> BoxedHandle list \<times> 'c world" where
  "sig_handle sig hw =
     (case hw of (handles, w) \<Rightarrow>
      case sig_handlers w sig of
        None \<Rightarrow> (handles, w)
      | Some h \<Rightarrow>
          (let w1 = w\<lparr>sig_loop_handled := True\<rparr> in
           if handle_cancelled (HCB h) w1 then (handles, snd (sig_rem sig w1))
           else (handles @ [HCB h], w1)))"

definition handle_io_signals ::
  "io_event \<Rightarrow> BoxedHandle list \<Rightarrow> 'c world \<Rightarrow> BoxedHandle list \<times> 'c world" where
  "handle_io_signals ev handles w =
     (if ssock w = None then (handles, w)
      else let read = read_from_sock 4096 (ev_signals ev) in
           if length read > 0 \<and> sig_listening w then fold sig_handle read (handles, w)
           else (handles, w))"

fun dispatch ::
  "'c ext \<Rightarrow> pyobj \<Rightarrow> io_event list \<Rightarrow> BoxedHandle list \<Rightarrow> 'c world
     \<Rightarrow> (BoxedHandle list \<times> 'c world) outcome" where
  "dispatch E ctx [] handles w = Ret (handles, w)"
| "dispatch E ctx (ev # evs) handles w =
     and_then
       (case handles_io w (ev_token ev) of
          None \<Rightarrow> Ret (handles, w)
        | Some (IOPy d) \<Rightarrow> Ret (handle_io_py ev d handles, w)
        | Some (IOTCPListener sref) \<Rightarrow> handle_io_tcpl E ev sref ctx handles w
        | Some (IOTCPStream _) \<Rightarrow> Ret (handle_io_tcps ev handles, w)
        | Some (IOUDPSocket _) \<Rightarrow> Ret (handle_io_udp ev handles, w)
        | Some IOSignals \<Rightarrow> Ret (handle_io_signals ev handles w))
       (\<lambda>(hs, w1). dispatch E ctx evs hs w1)"

section \<open>Running the batch\<close>

text \<open>What the kernel answers while one handle runs.\<close>

record run_env =
  re_kernel :: kernel
  re_reads :: "rdres list"
  re_writes :: "sysres list"
  re_recvs :: "rcvres list"

fun run_handle :: "'c ext \<Rightarrow> run_env \<Rightarrow> BoxedHandle \<Rightarrow> 'c world \<Rightarrow> 'c world outcome" where
  "run_handle E env (HCB h) w = Ret (CBHandle_run E h w)"
| "run_handle E env (HTCPRead f) w = TCPReadHandle_run E (re_kernel env) f 262144 (re_reads env) w"
| "run_handle E env (HTCPWrite f) w = TCPWriteHandle_run E (re_kernel env) f (re_writes env) w"
| "run_handle E env (HUDPRead f) w = UDPReadHandle_run E f 262144 (re_recvs env) w"
| "run_handle E env (HUDPWrite f) w = UDPWriteHandle_run E f (re_writes env) w"
| "run_handle E env HNoOp w = Ret w"

text \<open>The callbacks of a batch, in order; a handle is skipped if it is cancelled when its turn comes.\<close>

fun run_batch :: "'c ext \<Rightarrow> (nat \<Rightarrow> run_env) \<Rightarrow> nat \<Rightarrow> BoxedHandle list \<Rightarrow> 'c world \<Rightarrow> 'c world outcome" where
  "run_batch E envs n [] w = Ret w"
| "run_batch E envs n (h # hs) w =
     (if \<not> handle_cancelled h w
      then and_then (run_handle E (envs n) h w) (run_batch E envs (Suc n) hs)
      else run_batch E envs (Suc n) hs w)"

section \<open>One step\<close>

datatype pollres = PollOk | PollInterrupted | PollErr string

record step_input =
  si_now :: nat
  si_poll :: pollres
  si_arrived :: "BoxedHandle list"
  si_tick_poll :: nat
  si_events :: "io_event list"
  si_ctx :: pyobj
  si_now_timers :: nat
  si_envs :: "nat \<Rightarrow> run_env"

text \<open>
  The timeout given to the poller in microseconds (\<open>None\<close> waits without limit), and whether the
  poll is skipped.
\<close>

definition poll_timeout :: "nat \<Rightarrow> nat \<Rightarrow> 'c world \<Rightarrow> nat option \<times> bool" where
  "poll_timeout tick tick_last w =
     (if counter_ready w > 0 then (Some 0, tick - tick_last < 250)
      else case heap_peek (handles_sched w) of
             Some timer \<Rightarrow>
               if t_when timer > tick then (Some ((t_when timer - tick) mod 2 ^ 64), False)
               else (None, False)
           | None \<Rightarrow> (None, False))"

text \<open>
  The sleep in the poller: while the loop is idle, handles queued by other threads wake it. A poll
  without limit returns only with an event (the waker's included), an interrupt or an error.
\<close>

definition poll_blocks :: "nat option \<Rightarrow> step_input \<Rightarrow> bool" where
  "poll_blocks sched_time si =
     (sched_time = None \<and> si_arrived si = [] \<and> si_events si = [] \<and> si_poll si = PollOk)"

definition poll_sleep :: "nat option \<Rightarrow> BoxedHandle list \<Rightarrow> 'c world \<Rightarrow> 'c world" where
  "poll_sleep sched_time arrived w =
     (let idle_swap = (sched_time \<noteq> Some 0);
          w0 = emit (PollWait sched_time) w;
          w1 = (if idle_swap then w0\<lparr>idle := True\<rparr> else w0);
          w2 = fold (\<lambda>h w. wake (push_ready h w)) arrived w1
      in if idle_swap then w2\<lparr>idle := False\<rparr> else w2)"

definition take_ready :: "'c world \<Rightarrow> BoxedHandle list \<times> 'c world" where
  "take_ready w =
     (handles_ready w,
      w\<lparr>handles_ready := [],
        counter_ready := usize_sub (counter_ready w) (length (handles_ready w) mod usize_max1)\<rparr>)"

text \<open>
  What a step does once its poll has returned, up to the batch: the ready callbacks, then those of
  the events, then those of the due timers.
\<close>

definition collect ::
  "'c ext \<Rightarrow> step_input \<Rightarrow> nat \<Rightarrow> 'c world \<Rightarrow> (BoxedHandle list \<times> 'c world) outcome" where
  "collect E si tick_last w =
     (case poll_timeout (si_now si) tick_last w of (sched_time, skip_poll) \<Rightarrow>
      let w1 = (if skip_poll then w else poll_sleep sched_time (si_arrived si) w) in
      case take_ready w1 of (cb_handles, w2) \<Rightarrow>
      and_then (if skip_poll then Ret (cb_handles, w2)
                else dispatch E (si_ctx si) (si_events si) cb_handles w2) (\<lambda>(hs, w3).
      and_then (drain_timers (si_now_timers si) (handles_sched w3) hs) (\<lambda>(batch, sched).
      Ret (batch, w3\<lparr>handles_sched := sched\<rparr>))))"

definition step ::
  "'c ext \<Rightarrow> step_input \<Rightarrow> nat \<Rightarrow> 'c world \<Rightarrow> (pollres \<times> nat \<times> 'c world) outcome" where
  "step E si tick_last w =
     (case poll_timeout (si_now si) tick_last w of (sched_time, skip_poll) \<Rightarrow>
     if \<not> skip_poll \<and> poll_blocks sched_time si then Blocked
     else
     and_then (collect E si tick_last w) (\<lambda>(batch, w1).
     and_then (run_batch E (si_envs si) 0 batch w1) (\<lambda>w2.
     Ret (if skip_poll then PollOk else si_poll si,
          if skip_poll then tick_last else si_tick_poll si, w2))))"

text \<open>
  \<^verbatim>\<open>_run\<close>: the inputs of the consecutive steps are a list; with the list exhausted the loop is
  still running.
\<close>

datatype run_end = Stopped | Failed string | Running

fun run_loop ::
  "'c ext \<Rightarrow> step_input list \<Rightarrow> nat \<Rightarrow> 'c world \<Rightarrow> (run_end \<times> 'c world) outcome" where
  "run_loop E [] tick_last w = Ret (if stopping w then Stopped else Running, w)"
| "run_loop E (si # sis) tick_last w =
     (if stopping w then Ret (Stopped, w)
      else and_then (step E si tick_last w) (\<lambda>(res, tick, w1).
        case res of
          PollOk \<Rightarrow> run_loop E sis tick w1
        | PollInterrupted \<Rightarrow>
            if sig_loop_handled w1 then run_loop E sis tick (w1\<lparr>sig_loop_handled := False\<rparr>)
            else Ret (Stopped, w1\<lparr>sig_loop_handled := False\<rparr>)
        | PollErr e \<Rightarrow> Ret (Failed e, w1)))"

section \<open>Connections and servers\<close>

text \<open>
  \<^verbatim>\<open>_tcp_conn\<close>; \<open>ssl\<close> is the TLS configuration made from the context (or the error of making it)
  with the host name. \<open>_udp_conn\<close> likewise without TLS.
\<close>

definition tcp_conn ::
  "'c ext \<Rightarrow> fd \<Rightarrow> pyobj \<Rightarrow> (pyerr + nat \<times> string) option \<Rightarrow> 'c world
     \<Rightarrow> ((nat \<times> pyobj) pyresult \<times> 'c world) outcome" where
  "tcp_conn E f protocol_factory ssl w =
     and_then (TCPTransport_from_py E f protocol_factory w) (\<lambda>(T, w1).
     and_then
       (case ssl of
          None \<Rightarrow> Ret (Inr (T, w1))
        | Some (Inl e) \<Rightarrow> Ret (Inl e)
        | Some (Inr (cfg, host)) \<Rightarrow>
            and_then (unwrap (tls_new_client E cfg host)) (\<lambda>c.
            and_then (initialize_tls_client E c T w1) (\<lambda>r. Ret (Inr r))))
       (\<lambda>r. case r of
          Inl e \<Rightarrow> Ret (Inl e, w1)
        | Inr (T1, w2) \<Rightarrow>
            (case new_transport T1 w2 of (t, w3) \<Rightarrow>
             and_then (attach E t w3) (\<lambda>(res, w4).
               case res of
                 Inl e \<Rightarrow> Ret (Inl e, w4)
               | Inr pr \<Rightarrow>
                   and_then (tcp_stream_add f {READABLE}
                       (w4\<lparr>tcp_transports := (tcp_transports w4)(f \<mapsto> t)\<rparr>)) (\<lambda>w5.
                     Ret (Inr (t, pr), w5))))))"

definition tcp_server :: "(fd \<times> int) list \<Rightarrow> pyobj \<Rightarrow> int \<Rightarrow> Server" where
  "tcp_server rsocks protocol_factory backlog =
     Server_tcp (map (\<lambda>(f, family). from_fd f family backlog protocol_factory) rsocks)"

definition tcp_server_ssl :: "(fd \<times> int) list \<Rightarrow> pyobj \<Rightarrow> int \<Rightarrow> pyerr + nat \<Rightarrow> Server pyresult" where
  "tcp_server_ssl rsocks protocol_factory backlog ssl =
     (case ssl of
        Inl e \<Rightarrow> Inl e
      | Inr cfg \<Rightarrow>
          Inr (Server_tcp (map (\<lambda>(f, family). from_fd_ssl f family backlog protocol_factory cfg) rsocks)))"

definition tcp_stream_bound :: "fd \<Rightarrow> 'c world \<Rightarrow> bool" where
  "tcp_stream_bound f w = (tcp_transports w f \<noteq> None)"

definition udp_conn ::
  "'c ext \<Rightarrow> (string \<Rightarrow> string option) \<Rightarrow> fd \<Rightarrow> pyobj \<Rightarrow> addr option \<Rightarrow> 'c world
     \<Rightarrow> ((nat \<times> pyobj) pyresult \<times> 'c world) outcome" where
  "udp_conn E parse_ip f protocol_factory remote w =
     and_then (UDPTransport_from_py E parse_ip f protocol_factory remote w) (\<lambda>(U, w1).
       let u = next_obj w1; w2 = w1\<lparr>udp_objs := (udp_objs w1)(u \<mapsto> U), next_obj := Suc u\<rparr>
       in and_then (udp_attach E u w2) (\<lambda>(res, w3).
            case res of
              Inl e \<Rightarrow> Ret (Inl e, w3)
            | Inr pr \<Rightarrow>
                and_then (udp_socket_add f {READABLE}
                    (w3\<lparr>udp_transports := (udp_transports w3)(f \<mapsto> u)\<rparr>)) (\<lambda>w4.
                  Ret (Inr (u, pr), w4))))"

section \<open>The poll timeout\<close>

text \<open>
  C23. The timeout the loop gives the poller. With callbacks ready it is zero, and the poll is
  skipped only within 250 microseconds of the last one. With none ready and only timers in the
  future it is exactly the time to the earliest of them, so the loop neither sleeps past a timer
  nor wakes early. With no timer there is no limit.
\<close>

theorem poll_timeout_correct:
  assumes inv: "queue_inv w"
  shows "(counter_ready w > 0 \<longrightarrow>
            fst (poll_timeout tick tick_last w) = Some 0
            \<and> (snd (poll_timeout tick tick_last w) \<longleftrightarrow> tick - tick_last < 250))
       \<and> (counter_ready w = 0 \<and> handles_sched w = [] \<longrightarrow> poll_timeout tick tick_last w = (None, False))
       \<and> (counter_ready w = 0 \<and> handles_sched w \<noteq> []
            \<and> (\<forall>t \<in> set (handles_sched w). tick < t_when t \<and> t_when t - tick < 2 ^ 64) \<longrightarrow>
            (\<exists>t \<in> set (handles_sched w). poll_timeout tick tick_last w = (Some (t_when t - tick), False)
               \<and> (\<forall>t' \<in> set (handles_sched w). t_when t \<le> t_when t')))"
proof -
  have "\<exists>t \<in> set (handles_sched w). heap_peek (handles_sched w) = Some t
      \<and> (\<forall>t' \<in> set (handles_sched w). t_when t \<le> t_when t')" if ne: "handles_sched w \<noteq> []"
  proof -
    have heap: "heap_inv Timer_le (handles_sched w)" using inv by (simp add: queue_inv_def)
    obtain t where t: "heap_peek (handles_sched w) = Some t" "t \<in> set (handles_sched w)"
      using ne by (cases "handles_sched w") (auto simp: heap_peek_def)
    have "t_when t \<le> t_when t'" if "t' \<in> set (handles_sched w)" for t'
      using th.heap_peek_greatest [OF heap t(1) that] by (simp add: Timer_le_iff)
    then show ?thesis using t by blast
  qed
  then show ?thesis by (auto simp: poll_timeout_def heap_peek_def split: option.splits list.splits)
qed

lemma queue_inv_new [simp]: "queue_inv (EventLoop_new n c)"
  by (simp add: queue_inv_def heap_inv_def objs_below_def)

theorem poll_timeout_correct_witness:
  "queue_inv (push_sched HNoOp 30 loop0) \<and> poll_timeout 10 0 (push_sched HNoOp 30 loop0) = (Some 20, False)"
proof -
  let ?w = "push_sched HNoOp 30 loop0"
  have inv: "queue_inv ?w" by (rule push_sched_inv) (simp_all add: handle_known_def)
  have "handles_sched ?w = [\<lparr>t_handle = HNoOp, t_when = 30\<rparr>]" "counter_ready ?w = 0"
    by (simp_all add: push_sched_def heap_push_def sift_up.simps [of _ _ 0])
  then show ?thesis using poll_timeout_correct [OF inv, of 10 0] inv by simp
qed

text \<open>
  C33. A timer that is already due when the timeout is computed, with no callback ready, makes the
  loop wait without limit: after \<^verbatim>\<open>_call_later\<close> the poll is unlimited as soon as the delay has
  passed, although the timer should run at once.
\<close>

theorem overdue_timer_blocks:
  assumes "queue_inv w" "counter_ready w = 0" "call_later now delay cb args ctx w = ((h, dl), w')"
    and "now + delay \<le> tick"
  shows "poll_timeout tick tick_last w' = (None, False)"
proof -
  let ?t = "\<lparr>t_handle = HCB h, t_when = now + delay\<rparr>"
  have w': "handles_sched w' = heap_push Timer_le (handles_sched w) ?t" "counter_ready w' = 0"
    using assms(2,3) by (auto simp: call_later_def push_sched_def new_handle_def Let_def)
  have heap: "heap_inv Timer_le (handles_sched w')"
    using assms(1) by (simp add: w'(1) th.heap_push_inv queue_inv_def)
  have mem: "?t \<in> set (handles_sched w')"
    using arg_cong [OF th.mset_heap_push [of "handles_sched w" ?t], of set_mset] w'(1) by simp
  then obtain p where p: "heap_peek (handles_sched w') = Some p"
    by (cases "handles_sched w'") (auto simp: heap_peek_def)
  have "t_when p \<le> now + delay"
    using th.heap_peek_greatest [OF heap p mem] by (simp add: Timer_le_iff)
  then show ?thesis using p w'(2) assms(4) by (simp add: poll_timeout_def)
qed

theorem overdue_timer_blocks_witness:
  "poll_timeout 12 0 (snd (call_later 10 2 1 2 3 loop0)) = (None, False)"
  by (rule overdue_timer_blocks [of loop0 10 2 1 2 3 0 12]) (simp_all add: call_later_def new_handle_def)

section \<open>What a step collects\<close>

text \<open>The handles of one event on a descriptor that is neither a listener nor the signal socket.\<close>

definition event_handles :: "'c world \<Rightarrow> io_event \<Rightarrow> BoxedHandle list" where
  "event_handles w ev =
     (case handles_io w (ev_token ev) of
        Some (IOPy d) \<Rightarrow> handle_io_py ev d []
      | Some (IOTCPStream _) \<Rightarrow> handle_io_tcps ev []
      | Some (IOUDPSocket _) \<Rightarrow> handle_io_udp ev []
      | _ \<Rightarrow> [])"

definition plain_event :: "'c world \<Rightarrow> io_event \<Rightarrow> bool" where
  "plain_event w ev =
     (case handles_io w (ev_token ev) of Some (IOTCPListener _) \<Rightarrow> False | Some IOSignals \<Rightarrow> False | _ \<Rightarrow> True)"

lemma dispatch_plain:
  "\<forall>ev \<in> set evs. plain_event w ev \<Longrightarrow>
     dispatch E ctx evs handles w = Ret (handles @ concat (map (event_handles w) evs), w)"
  by (induction evs arbitrary: handles)
     (auto simp: plain_event_def event_handles_def handle_io_py_def handle_io_tcps_def handle_io_udp_def
       split: option.splits IOHandle.splits)

lemma fold_push_simps [simp]:
  "handles_ready (fold (\<lambda>h w. wake (push_ready h w)) hs w) = handles_ready w @ hs"
  "handles_sched (fold (\<lambda>h w. wake (push_ready h w)) hs w) = handles_sched w"
  "handles_io (fold (\<lambda>h w. wake (push_ready h w)) hs w) = handles_io w"
  "cb_objs (fold (\<lambda>h w. wake (push_ready h w)) hs w) = cb_objs w"
  by (induction hs arbitrary: w) (simp_all add: push_ready_def Let_def)

lemma fold_push_inv:
  "queue_inv w \<Longrightarrow> \<forall>h \<in> set hs. handle_known w h \<Longrightarrow>
     queue_inv (fold (\<lambda>h w. wake (push_ready h w)) hs w)"
proof (induction hs arbitrary: w)
  case (Cons h hs)
  have "queue_inv (wake (push_ready h w))" using Cons.prems by (simp add: push_ready_inv)
  moreover have "\<forall>h' \<in> set hs. handle_known (wake (push_ready h w)) h'"
    using Cons.prems(2) by (simp add: handle_known_def)
  ultimately show ?case using Cons.IH by simp
qed simp

lemma queue_inv_idle [simp]: "queue_inv (w\<lparr>idle := b\<rparr>) = queue_inv w"
  by (rule queue_inv_cong) simp_all

lemma poll_sleep_simps [simp]:
  "handles_ready (poll_sleep st hs w) = handles_ready w @ hs"
  "handles_sched (poll_sleep st hs w) = handles_sched w"
  "handles_io (poll_sleep st hs w) = handles_io w"
  "cb_objs (poll_sleep st hs w) = cb_objs w"
  by (simp_all add: poll_sleep_def Let_def)

lemma poll_sleep_inv:
  "queue_inv w \<Longrightarrow> \<forall>h \<in> set hs. handle_known w h \<Longrightarrow> queue_inv (poll_sleep st hs w)"
  unfolding poll_sleep_def Let_def by (simp add: fold_push_inv handle_known_def)

lemma take_ready_inv:
  assumes "queue_inv w" "take_ready w = (hs, w')"
  shows "hs = handles_ready w" "queue_inv w'" "counter_ready w' = 0" "handles_ready w' = []"
    "handles_sched w' = handles_sched w" "handles_io w' = handles_io w" "cb_objs w' = cb_objs w"
  using assms by (auto simp: take_ready_def queue_inv_def handle_known_def objs_below_def)

text \<open>The batch of a step, and what it leaves in the queues.\<close>

lemma collect_spec:
  assumes inv: "queue_inv w" and arr: "\<forall>h \<in> set (si_arrived si). handle_known w h"
    and evs: "\<forall>ev \<in> set (si_events si). plain_event w ev"
  shows "\<exists>ds w'. collect E si tick_last w =
        Ret (handles_ready w
             @ (if snd (poll_timeout (si_now si) tick_last w) then []
                else si_arrived si @ concat (map (event_handles w) (si_events si)))
             @ map t_handle ds, w')
     \<and> mset ds + mset (handles_sched w') = mset (handles_sched w) \<and> sorted (map t_when ds)
     \<and> (\<forall>t \<in> set ds. t_when t \<le> si_now_timers si)
     \<and> (\<forall>t \<in> set (handles_sched w'). si_now_timers si < t_when t)
     \<and> handles_ready w' = [] \<and> counter_ready w' = 0 \<and> queue_inv w'"
proof -
  obtain st skip where pt: "poll_timeout (si_now si) tick_last w = (st, skip)" by fastforce
  let ?w1 = "if skip then w else poll_sleep st (si_arrived si) w"
  obtain hs w2 where tr: "take_ready ?w1 = (hs, w2)" by fastforce
  have inv1: "queue_inv ?w1" using inv poll_sleep_inv [OF inv arr] by simp
  note t2 = take_ready_inv [OF inv1 tr]
  have io: "handles_io w2 = handles_io w" "handles_sched w2 = handles_sched w" "cb_objs w2 = cb_objs w"
    using t2(5-7) by simp_all
  have ev2: "event_handles w2 = event_handles w" "plain_event w2 = plain_event w"
    using io(1) by (simp_all add: event_handles_def plain_event_def fun_eq_iff)
  let ?b = "handles_ready w @ (if skip then [] else si_arrived si @ concat (map (event_handles w) (si_events si)))"
  have disp: "(if skip then Ret (hs, w2) else dispatch E (si_ctx si) (si_events si) hs w2) = Ret (?b, w2)"
    using dispatch_plain [of "si_events si" w2 E "si_ctx si" hs] evs ev2 t2(1) by (cases skip) simp_all
  have heap: "heap_inv Timer_le (handles_sched w2)" using t2(2) by (simp add: queue_inv_def)
  obtain ds rest where pw: "pop_while Timer_le (\<lambda>t. t_when t \<le> si_now_timers si) (handles_sched w2) = (ds, rest)"
    by fastforce
  have mono: "\<forall>a b :: BoxedHandle Timer. t_when b \<le> si_now_timers si \<longrightarrow> Timer_le b a \<longrightarrow> t_when a \<le> si_now_timers si"
    by (simp add: Timer_le_iff)
  note ps = th.pop_while_sound [OF heap pw mono]
  have dr: "drain_timers (si_now_timers si) (handles_sched w2) ?b = Ret (?b @ map t_handle ds, rest)"
    by (simp add: drain_timers_pop_while pw)
  let ?w' = "w2\<lparr>handles_sched := rest\<rparr>"
  have run: "collect E si tick_last w = Ret (?b @ map t_handle ds, ?w')"
    using pt tr disp dr by (simp add: collect_def Let_def)
  have "set rest \<subseteq> set (handles_sched w2)"
    using ps(1) by (metis mset_subset_eq_add_right set_mset_mono set_mset_mset)
  then have "queue_inv ?w'" using t2(2) ps(2) by (auto simp: queue_inv_def handle_known_def objs_below_def)
  moreover have "sorted (map t_when ds)" using ps(3) unfolding sorted_wrt_map Timer_le_iff .
  moreover have "\<forall>t \<in> set rest. si_now_timers si < t_when t" using ps(5) by (simp add: not_le)
  ultimately show ?thesis
    using run pt ps(1,4) t2(3,4) io(2) by (intro exI [of _ ds] exI [of _ ?w']) simp
qed

abbreviation demo_input :: step_input where
  "demo_input \<equiv> \<lparr>si_now = 100, si_poll = PollOk, si_arrived = [HNoOp], si_tick_poll = 100,
     si_events = [\<lparr>ev_token = 7, ev_readable = True, ev_writable = False, ev_accepts = [], ev_signals = []\<rparr>],
     si_ctx = 0, si_now_timers = 100,
     si_envs = (\<lambda>_. \<lparr>re_kernel = \<lparr>k_write = SysWouldBlock, k_now = 0\<rparr>, re_reads = [], re_writes = [], re_recvs = []\<rparr>)\<rparr>"

section \<open>Running callbacks\<close>

text \<open>The callbacks that were run, in order; Python code that neither runs nor cancels any itself.\<close>

definition callbacks_run :: "effect list \<Rightarrow> (pyobj \<times> cb_args \<times> pyobj) list" where
  "callbacks_run tr =
     concat (map (\<lambda>e. case e of Py (RunCB cb args ctx) \<Rightarrow> [(cb, args, ctx)] | _ \<Rightarrow> []) tr)"

definition py_leaves_callbacks :: "'c ext \<Rightarrow> bool" where
  "py_leaves_callbacks E =
     (\<forall>c w. cb_objs (snd (py E c w)) = cb_objs w
        \<and> (\<exists>us. trace (snd (py E c w)) = trace w @ us \<and> callbacks_run us = []))"

definition cb_call :: "CBHandle \<Rightarrow> pyobj \<times> cb_args \<times> pyobj" where
  "cb_call c = (callback c, cbargs c, cbcontext c)"

lemma callbacks_run_append: "callbacks_run (tr @ us) = callbacks_run tr @ callbacks_run us"
  by (simp add: callbacks_run_def)

lemma callbacks_call_py:
  assumes "py_leaves_callbacks E"
  shows "cb_objs (snd (call_py E c w)) = cb_objs w"
    "callbacks_run (trace (snd (call_py E c w))) = callbacks_run (trace w) @ callbacks_run [Py c]"
proof -
  obtain us where us: "trace (snd (py E c (emit (Py c) w))) = trace (emit (Py c) w) @ us" "callbacks_run us = []"
    using assms unfolding py_leaves_callbacks_def by blast
  then show "callbacks_run (trace (snd (call_py E c w))) = callbacks_run (trace w) @ callbacks_run [Py c]"
    by (simp add: call_py_def callbacks_run_def)
  show "cb_objs (snd (call_py E c w)) = cb_objs w"
    using assms by (simp add: call_py_def py_leaves_callbacks_def)
qed

lemma CBHandle_run_callbacks:
  assumes "py_leaves_callbacks E" "cb_objs w h = Some c"
  shows "cb_objs (CBHandle_run E h w) = cb_objs w"
    "callbacks_run (trace (CBHandle_run E h w)) = callbacks_run (trace w) @ [cb_call c]"
proof -
  obtain r w1 where r: "call_py E (RunCB (callback c) (cbargs c) (cbcontext c)) w = (r, w1)" by fastforce
  note f = callbacks_call_py [OF assms(1), of "RunCB (callback c) (cbargs c) (cbcontext c)" w, unfolded r]
  have log: "cb_objs (log_exception E x w1) = cb_objs w1"
    "callbacks_run (trace (log_exception E x w1)) = callbacks_run (trace w1)" for x
    using callbacks_call_py [OF assms(1)] by (simp_all add: log_exception_def callbacks_run_def)
  show "cb_objs (CBHandle_run E h w) = cb_objs w"
    "callbacks_run (trace (CBHandle_run E h w)) = callbacks_run (trace w) @ [cb_call c]"
    using f log assms(2) r
    by (simp_all add: CBHandle_run_def callbacks_run_def cb_call_def split: pyres.splits)
qed

lemma run_batch_spec:
  assumes "py_leaves_callbacks E" "\<forall>h \<in> set hs. cb_objs w h \<noteq> None"
  shows "\<exists>w'. run_batch E envs n (map HCB hs) w = Ret w'
     \<and> callbacks_run (trace w') = callbacks_run (trace w)
          @ map (\<lambda>h. cb_call (the (cb_objs w h))) (filter (\<lambda>h. \<not> handle_cancelled (HCB h) w) hs)"
  using assms(2)
proof (induction hs arbitrary: n w)
  case (Cons h hs)
  then obtain c where c: "cb_objs w h = Some c" by auto
  have canc: "handle_cancelled (HCB x) w' = handle_cancelled (HCB x) w" if "cb_objs w' = cb_objs w" for x w'
    using that by simp
  show ?case
  proof (cases "handle_cancelled (HCB h) w")
    case True
    then show ?thesis using Cons.IH [of w "Suc n"] Cons.prems by simp
  next
    case False
    note f = CBHandle_run_callbacks [OF assms(1) c]
    obtain w' where w': "run_batch E envs (Suc n) (map HCB hs) (CBHandle_run E h w) = Ret w'"
      "callbacks_run (trace w') = callbacks_run (trace (CBHandle_run E h w))
          @ map (\<lambda>x. cb_call (the (cb_objs w x))) (filter (\<lambda>x. \<not> handle_cancelled (HCB x) w) hs)"
      using Cons.IH [of "CBHandle_run E h w" "Suc n"] Cons.prems f(1) canc [OF f(1)] by auto
    then show ?thesis using False f(2) c by simp
  qed
qed simp

text \<open>
  A batch of callbacks is run to its end: each handle that is not cancelled is called once,
  in the order of the batch, with its own arguments and in its own context; cancelled handles are
  skipped; an exception in one does not stop the others.
\<close>

theorem run_batch_correct:
  assumes "py_leaves_callbacks E" "\<forall>h \<in> set hs. cb_objs w h \<noteq> None"
  shows "\<exists>w'. run_batch E envs n (map HCB hs) w = Ret w'
     \<and> callbacks_run (trace w') = callbacks_run (trace w)
          @ map (\<lambda>h. cb_call (the (cb_objs w h))) (filter (\<lambda>h. \<not> handle_cancelled (HCB h) w) hs)"
  using run_batch_spec [OF assms] .

theorem run_batch_correct_witness:
  "let c = CBHandle_new 1 2 3; w = (EventLoop_new 0 0 :: unit world)\<lparr>cb_objs := [0 \<mapsto> c, 1 \<mapsto> c\<lparr>cbcancelled := True\<rparr>]\<rparr> in
   \<exists>w'. run_batch demo_ext (si_envs demo_input) 0 [HCB 1, HCB 0] w = Ret w'
     \<and> callbacks_run (trace w') = [(1, Args 2, 3)]"
proof -
  let ?c = "CBHandle_new 1 2 3"
  let ?w = "(EventLoop_new 0 0 :: unit world)\<lparr>cb_objs := [0 \<mapsto> ?c, 1 \<mapsto> ?c\<lparr>cbcancelled := True\<rparr>]\<rparr>"
  have py: "py_leaves_callbacks demo_ext"
    by (simp add: py_leaves_callbacks_def demo_ext_def callbacks_run_def)
  have "\<forall>h \<in> set [1, 0]. cb_objs ?w h \<noteq> None" by simp
  from run_batch_correct [OF py this, of "si_envs demo_input" 0]
  show ?thesis
    by (simp add: Let_def CBHandle_new_def cb_cancelled_def cb_call_def callbacks_run_def)
qed

text \<open>
  C34. An event that says a TCP stream is both readable and writable becomes a read handle only. Take
  a step with nothing queued whose only event is such an event, on an attached transport without TLS
  and with a protocol that is not buffered, the kernel having any stretch of data ready without
  an end or an error, and Python code that neither uses the transport nor delivers data itself. The
  batch is the read handle; the step returns, the protocol gets the data, and nothing of what
  the transport has buffered is sent, whatever the kernel would have taken: the transport and the
  entry of its descriptor are as before.
\<close>

theorem both_ready_write_lost:
  assumes T: "tcp_objs w t = Some T" "tls_conn (tstate T) = None" "\<not> proto_buffered T" "\<not> state_mut T"
    and att: "tcp_transports w (tfd T) = Some t" "handles_io w (tfd T) = Some (IOTCPStream i)"
    and idle: "counter_ready w = 0" "handles_ready w = []" "handles_sched w = []" "si_arrived si = []"
    and ev: "si_events si = [ev]" "ev_token ev = tfd T" "ev_readable ev" "ev_writable ev"
    and py: "py_spares t E" "py_delivers_nothing E"
    and rd: "steady (re_reads (si_envs si 0))" "RdOk [] \<notin> set (re_reads (si_envs si 0))"
  shows "(\<exists>w1. collect E si tick_last w = Ret ([HTCPRead (tfd T)], w1))
     \<and> (\<exists>w'. step E si tick_last w = Ret (si_poll si, si_tick_poll si, w')
         \<and> received (proto T) (trace w') = received (proto T) (trace w) @ rd_bytes (re_reads (si_envs si 0))
         \<and> sent_bytes (tfd T) (trace w') = sent_bytes (tfd T) (trace w) \<and> tcp_objs w' t = Some T
         \<and> handles_io w' (tfd T) = Some (IOTCPStream i) \<and> tcp_transports w' (tfd T) = Some t)"
proof -
  let ?w1 = "(emit (PollWait None) w)\<lparr>idle := False, handles_ready := [], counter_ready := 0, handles_sched := []\<rparr>"
  have c: "collect E si tick_last w = Ret ([HTCPRead (tfd T)], ?w1)"
    using idle att(2) ev
    by (simp add: collect_def poll_timeout_def heap_peek_def poll_sleep_def take_ready_def Let_def
        handle_io_tcps_def drain_timers.simps usize_sub_def)
  have T1: "tcp_objs ?w1 t = Some T" "tcp_transports ?w1 (tfd T) = Some t" "handles_io ?w1 (tfd T) = Some (IOTCPStream i)"
    using T(1) att by simp_all
  from read_loop_delivers [OF T1(1) T(2-4) py _ rd(1), of 262144 "tfd T"] rd(2)
  obtain w' s' where w': "read_loop E t (tfd T) 262144 ?w1 (re_reads (si_envs si 0)) = Ret (False, w', s')"
    "spared t T ?w1 w'"
    "received (proto T) (trace w') = received (proto T) (trace ?w1) @ rd_bytes (re_reads (si_envs si 0))"
    by auto
  have "run_batch E (si_envs si) 0 [HTCPRead (tfd T)] ?w1 = Ret w'"
    using T1(2) w'(1) by (simp add: TCPReadHandle_run_def get_tcp_transport_def)
  then have "step E si tick_last w = Ret (si_poll si, si_tick_poll si, w')"
    using c idle ev(1) by (simp add: step_def poll_timeout_def heap_peek_def poll_blocks_def)
  moreover have "received (proto T) (trace ?w1) = received (proto T) (trace w)" by (simp add: received_def)
  ultimately show ?thesis using c w'(2,3) T1 spared_sent [OF w'(2)] by (simp add: spared_def)
qed

theorem both_ready_write_lost_witness:
  "let T = demo_tcp\<lparr>tstate := (tstate demo_tcp)\<lparr>write_buf := [[1]], write_buf_dsize := 1\<rparr>\<rparr>;
       w = (demo_world T)\<lparr>handles_io := [7 \<mapsto> IOTCPStream {READABLE, WRITABLE}]\<rparr>;
       ev = \<lparr>ev_token = 7, ev_readable = True, ev_writable = True, ev_accepts = [], ev_signals = []\<rparr>;
       si = demo_input\<lparr>si_arrived := [], si_events := [ev],
              si_envs := \<lambda>_. (si_envs demo_input 0)\<lparr>re_reads := [RdOk [8, 9]]\<rparr>\<rparr>
   in \<exists>w'. step demo_ext si 0 w = Ret (PollOk, 100, w') \<and> received 5 (trace w') = [8, 9]
        \<and> sent_bytes 7 (trace w') = [] \<and> tcp_objs w' 0 = Some T"
proof -
  let ?T = "demo_tcp\<lparr>tstate := (tstate demo_tcp)\<lparr>write_buf := [[1]], write_buf_dsize := 1\<rparr>\<rparr>"
  let ?w = "(demo_world ?T)\<lparr>handles_io := [7 \<mapsto> IOTCPStream {READABLE, WRITABLE}]\<rparr>"
  let ?ev = "\<lparr>ev_token = 7, ev_readable = True, ev_writable = True, ev_accepts = [], ev_signals = []\<rparr>"
  let ?si = "demo_input\<lparr>si_arrived := [], si_events := [?ev],
              si_envs := \<lambda>_. (si_envs demo_input 0)\<lparr>re_reads := [RdOk [8, 9]]\<rparr>\<rparr>"
  have w: "counter_ready ?w = 0" "handles_ready ?w = []" "handles_sched ?w = []"
    "received 5 (trace ?w) = []" "sent_bytes 7 (trace ?w) = []"
    by (simp_all add: demo_world_def received_def)
  have n: "py_delivers_nothing demo_ext" by (simp add: py_delivers_nothing_def demo_ext_def)
  show ?thesis
    using both_ready_write_lost [THEN conjunct2, of ?w 0 ?T "{READABLE, WRITABLE}" ?si ?ev demo_ext 0]
      w n demo_ext_spares [of 0]
    by (auto simp: Let_def)
qed

section \<open>New connections\<close>

text \<open>A protocol factory that answers \<open>p\<close> and a protocol that only notes \<^verbatim>\<open>connection_made\<close>.\<close>

definition py_plain_protocol :: "pyobj \<Rightarrow> pyobj \<Rightarrow> 'c ext \<Rightarrow> bool" where
  "py_plain_protocol pf p E =
     ((\<forall>w. \<exists>x. py E (ProtoFactory pf) w = (PyOk p x, w))
      \<and> (\<forall>t w. \<exists>r x. py E (ConnectionMade p t) w = (PyOk r x, w)))"

lemma plain_protocol_calls:
  assumes "py_plain_protocol pf p E"
  shows "\<exists>x. call_py E (ProtoFactory pf) w = (PyOk p x, emit (Py (ProtoFactory pf)) w)"
    "\<exists>r x. call_py E (ConnectionMade p t) w = (PyOk r x, emit (Py (ConnectionMade p t)) w)"
  using assms by (simp_all add: py_plain_protocol_def call_py_def)

lemma tcp_conn_spec:
  assumes py: "py_plain_protocol pf p E" and io: "handles_io w f = None" "io_wf w" "poll_agrees w"
  shows "\<exists>w'. tcp_conn E f pf None w = Ret (Inr (next_obj w, p), w')
     \<and> py_calls (trace w') = py_calls (trace w) @ [ProtoFactory pf, ConnectionMade p (next_obj w)]
     \<and> tcp_objs w' (next_obj w) = Some (TCPTransport_new f p (py_is_buffered E p) None (env_close_timeout E))
     \<and> tcp_stream_bound f w' \<and> tcp_transports w' f = Some (next_obj w)
     \<and> watching IOTCPStream f w' = {READABLE} \<and> tcp_inv (next_obj w) w'
     \<and> sent_bytes f (trace w') = sent_bytes f (trace w)"
proof -
  let ?T = "TCPTransport_new f p (py_is_buffered E p) None (env_close_timeout E) :: 'a TCPTransport"
  let ?t = "next_obj w" and ?w1 = "emit (Py (ProtoFactory pf)) w"
  let ?w3 = "?w1\<lparr>tcp_objs := (tcp_objs ?w1)(?t \<mapsto> ?T), next_obj := Suc ?t\<rparr>"
  let ?w4 = "emit (Py (ConnectionMade p ?t)) ?w3"
  let ?w5 = "?w4\<lparr>tcp_transports := (tcp_transports ?w4)(f \<mapsto> ?t)\<rparr>"
  have T: "tls_conn (tstate ?T) = None" "\<not> state_mut ?T" "proto ?T = p" "tfd ?T = f" "write_buf (tstate ?T) = []" "tcp_ok ?T"
    by (simp_all add: TCPTransport_new_def tcp_ok_def Let_def)
  have io5: "owns IOTCPStream f ?w5" "io_wf ?w5" "poll_agrees ?w5" "watching IOTCPStream f ?w5 = {}"
    using io by (simp_all add: registry_defs)
  from tcp_src.add_keeps [OF io5(1-3), of READABLE]
  obtain w' where w': "tcp_stream_add f {READABLE} ?w5 = Ret w'" "watching IOTCPStream f w' = {READABLE}"
    "poll_agrees w'" "io_wf w'" "io_frame ?w5 w'" "owns IOTCPStream f w'"
    using io5(4) by auto
  note fr = io_frame_fields [OF w'(5)]
  have "attach E ?t ?w3 = Ret (Inr p, ?w4)"
    using plain_protocol_calls(2) [OF py, of ?t ?w3] T by (auto simp: attach_def)
  then have run: "tcp_conn E f pf None w = Ret (Inr (?t, p), w')"
    using plain_protocol_calls(1) [OF py, of w] w'(1) by (auto simp: tcp_conn_def TCPTransport_from_py_def new_transport_def)
  have T': "tcp_objs w' ?t = Some ?T" using fr(1) by simp
  have "tcp_inv ?t w'"
    using w'(3,4,6) T by (intro tcp_inv_SomeI [OF T']) simp_all
  then show ?thesis using run T' fr(2,4,5) w'(2) by (simp add: tcp_stream_bound_def py_calls_Py_Cons sent_bytes_Py_Cons)
qed

text \<open>
  Opening a connection without TLS on a free descriptor: the protocol is made once and told of
  the connection once, before the loop attaches the transport and watches the stream for reading;
  the transport is at rest and satisfies its invariant.
\<close>

theorem tcp_conn_correct:
  assumes py: "py_plain_protocol pf p E" and io: "handles_io w f = None" "io_wf w" "poll_agrees w"
  shows "\<exists>w'. tcp_conn E f pf None w = Ret (Inr (next_obj w, p), w')
     \<and> py_calls (trace w') = py_calls (trace w) @ [ProtoFactory pf, ConnectionMade p (next_obj w)]
     \<and> tcp_objs w' (next_obj w) = Some (TCPTransport_new f p (py_is_buffered E p) None (env_close_timeout E))
     \<and> tcp_stream_bound f w' \<and> tcp_transports w' f = Some (next_obj w)
     \<and> watching IOTCPStream f w' = {READABLE} \<and> tcp_inv (next_obj w) w'"
  using tcp_conn_spec [OF assms] by blast

theorem tcp_conn_correct_witness:
  "\<exists>w'. tcp_conn demo_ext 7 9 None loop0 = Ret (Inr (0, 0), w') \<and> tcp_transports w' 7 = Some 0 \<and> tcp_inv 0 w'"
proof -
  have "py_plain_protocol 9 0 demo_ext"
    by (auto simp: py_plain_protocol_def demo_ext_def intro!: exI [of _ False])
  then show ?thesis
    using tcp_conn_correct [of 9 0 demo_ext loop0 7]
    by (auto simp: io_wf_def poll_agrees_def)
qed

subsection \<open>Accepting\<close>

text \<open>
  What a factory may do while the loop accepts: make objects, queue them and wake the loop. It does
  not touch the objects and tables that are there, calls no other Python code through the loop and
  leaves the poller, whose mutex the loop holds, alone.
\<close>

definition adds_objects :: "'c world \<Rightarrow> 'c world \<Rightarrow> bool" where
  "adds_objects w w' =
     (handles_io w' = handles_io w \<and> tcp_transports w' = tcp_transports w \<and> tcp_lstreams w' = tcp_lstreams w
      \<and> next_obj w \<le> next_obj w'
      \<and> (\<forall>n < next_obj w. cb_objs w' n = cb_objs w n \<and> tcp_objs w' n = tcp_objs w n)
      \<and> (\<exists>us. trace w' = trace w @ us \<and> set us \<subseteq> {Wake}))"

definition factory_makes :: "pyobj \<Rightarrow> 'c ext \<Rightarrow> bool" where
  "factory_makes pf E =
     (\<forall>w. \<exists>p x w'. py E (ProtoFactory pf) w = (PyOk p x, w') \<and> py_conn_made E p \<noteq> None \<and> adds_objects w w')"

text \<open>
  The transport an accepted stream gets and its handle in the batch: without TLS the handle calls
  \<^verbatim>\<open>connection_made\<close> of the protocol with the transport; with TLS the transport has a new server
  session and the handle does nothing, since the protocol is told after the handshake.
\<close>

definition stream_made ::
  "'c ext \<Rightarrow> TCPServerRef \<Rightarrow> pyobj \<Rightarrow> 'c world \<Rightarrow> fd \<Rightarrow> nat \<Rightarrow> BoxedHandle \<Rightarrow> bool" where
  "stream_made E sref ctx w f t h =
     (\<exists>p. let T = TCPTransport_new f p (py_is_buffered E p) (Some (sref_fd sref)) (env_close_timeout E) in
        case sref_ssl_config sref of
          None \<Rightarrow> tcp_objs w t = Some T
            \<and> (\<exists>n m. h = HCB n \<and> py_conn_made E p = Some m \<and> cb_objs w n = Some (CBHandle_new1 m t ctx))
        | Some cfg \<Rightarrow> h = HNoOp
            \<and> (\<exists>c. tls_new_server E cfg = Some c \<and> tcp_objs w t = Some (initialize_tls_server c T)))"

lemma stream_made_frame:
  assumes "stream_made E sref ctx w f t h" "t < k" "\<forall>n. h = HCB n \<longrightarrow> n < k"
    "\<forall>n < k. cb_objs w' n = cb_objs w n \<and> tcp_objs w' n = tcp_objs w n"
  shows "stream_made E sref ctx w' f t h"
proof -
  have t: "tcp_objs w' t = tcp_objs w t" and h: "\<And>n. h = HCB n \<Longrightarrow> cb_objs w' n = cb_objs w n"
    using assms(2-4) by simp_all
  show ?thesis
  proof (cases h)
    case (HCB n)
    then show ?thesis using assms(1) h by (cases "sref_ssl_config sref") (simp_all add: stream_made_def Let_def t)
  qed (use assms(1) in \<open>(cases "sref_ssl_config sref"; simp add: stream_made_def Let_def t)+\<close>)
qed

lemma wakes_only:
  assumes "set us \<subseteq> {Wake}"
  shows "\<not> list_ex takes_io_lock us" "fold reg_step us r = r" "py_calls us = []"
  using assms by (induction us arbitrary: r) (auto simp: takes_io_lock_def py_calls_def)

lemma factory_call:
  assumes "factory_makes pf E"
  shows "\<exists>p x w'. call_py E (ProtoFactory pf) w = (PyOk p x, w') \<and> py_conn_made E p \<noteq> None
     \<and> adds_objects (emit (Py (ProtoFactory pf)) w) w' \<and> \<not> io_locked_again w w'
     \<and> requested (trace w') = requested (trace w)
     \<and> py_calls (trace w') = py_calls (trace w) @ [ProtoFactory pf]"
proof -
  let ?w = "emit (Py (ProtoFactory pf)) w"
  obtain p x w' where c: "py E (ProtoFactory pf) ?w = (PyOk p x, w')" "py_conn_made E p \<noteq> None" "adds_objects ?w w'"
    using assms unfolding factory_makes_def by blast
  then obtain us where us: "trace w' = trace w @ Py (ProtoFactory pf) # us" "set us \<subseteq> {Wake}"
    by (auto simp: adds_objects_def)
  have "\<not> io_locked_again w w'"
    using wakes_only(1) [OF us(2)] us(1) by (simp add: io_locked_again_def takes_io_lock_def)
  moreover have "requested (trace w') = requested (trace w)" using us(1) wakes_only(2) [OF us(2)] by simp
  moreover have "py_calls (trace w') = py_calls (trace w) @ [ProtoFactory pf]"
    using us(1) wakes_only(3) [OF us(2)] by (simp add: py_calls_def)
  ultimately show ?thesis using c by (simp add: call_py_def)
qed

lemma new_stream_makes:
  assumes fac: "factory_makes (sref_proto_factory sref) E"
    and tls: "\<forall>cfg. sref_ssl_config sref = Some cfg \<longrightarrow> tls_new_server E cfg \<noteq> None"
  shows "\<exists>t h w'. new_stream E sref f ctx w = Ret ((t, h), w') \<and> stream_made E sref ctx w' f t h
     \<and> t < next_obj w' \<and> (\<forall>n. h = HCB n \<longrightarrow> n < next_obj w') \<and> next_obj w \<le> next_obj w'
     \<and> (\<forall>n < next_obj w. cb_objs w' n = cb_objs w n \<and> tcp_objs w' n = tcp_objs w n)
     \<and> handles_io w' = handles_io w \<and> tcp_transports w' = tcp_transports w \<and> tcp_lstreams w' = tcp_lstreams w
     \<and> requested (trace w') = requested (trace w)
     \<and> py_calls (trace w') = py_calls (trace w) @ [ProtoFactory (sref_proto_factory sref)]"
proof -
  obtain p x v m where v: "call_py E (ProtoFactory (sref_proto_factory sref)) w = (PyOk p x, v)"
    "py_conn_made E p = Some m" "adds_objects (emit (Py (ProtoFactory (sref_proto_factory sref))) w) v"
    "\<not> io_locked_again w v" "requested (trace v) = requested (trace w)"
    "py_calls (trace v) = py_calls (trace w) @ [ProtoFactory (sref_proto_factory sref)]"
    using factory_call [OF fac, of w] by blast
  note a = v(3) [unfolded adds_objects_def, simplified]
  show ?thesis
  proof (cases "sref_ssl_config sref")
    case None
    then show ?thesis
      using v(1,2,4-6) a
      by (auto simp: new_stream_def new_transport_def new_handle_def Let_def stream_made_def)
  next
    case (Some cfg)
    then obtain c where "tls_new_server E cfg = Some c" using tls by auto
    then show ?thesis
      using v(1,2,4-6) a Some by (auto simp: new_stream_def new_transport_def Let_def stream_made_def)
  qed
qed

text \<open>
  C22. Accepting, on a listener with or without TLS, any list of different descriptors. The protocol
  factory, which may answer a different protocol each time and queue callbacks but must leave the
  poller and the tables of the loop alone, is called once for each descriptor, and for each: a new
  transport that is at rest and knows its listener is attached, is in the listener's set and
  recorded and requested for reading; the batch gets one handle, in order. On a listener without TLS
  that handle calls \<^verbatim>\<open>connection_made\<close> of the new protocol with the new transport; on one with TLS,
  whose configuration has to give a session, the transport has that session and the handle does
  nothing. Everything else is as it was.
\<close>

theorem accept_all_correct:
  assumes fac: "factory_makes (sref_proto_factory sref) E"
    and tls: "\<forall>cfg. sref_ssl_config sref = Some cfg \<longrightarrow> tls_new_server E cfg \<noteq> None"
    and fs: "distinct fs" and l: "tcp_lstreams w (sref_fd sref) = Some s"
  shows "\<exists>hs w'. accept_all E sref ctx fs handles w = Ret (handles @ hs, w')
     \<and> length hs = length fs \<and> tcp_lstreams w' (sref_fd sref) = Some (s \<union> set fs)
     \<and> (\<forall>i < length fs. handles_io w' (fs ! i) = Some (IOTCPStream {READABLE})
          \<and> (\<exists>t. tcp_transports w' (fs ! i) = Some t \<and> stream_made E sref ctx w' (fs ! i) t (hs ! i)))
     \<and> (poll_agrees w \<longrightarrow> poll_agrees w')
     \<and> py_calls (trace w') = py_calls (trace w) @ replicate (length fs) (ProtoFactory (sref_proto_factory sref))
     \<and> (\<forall>g. g \<notin> set fs \<longrightarrow> tcp_transports w' g = tcp_transports w g \<and> handles_io w' g = handles_io w g)
     \<and> (\<forall>n < next_obj w. cb_objs w' n = cb_objs w n \<and> tcp_objs w' n = tcp_objs w n)"
  using fs l
proof (induction fs arbitrary: handles w s)
  case (Cons f fs)
  let ?pf = "ProtoFactory (sref_proto_factory sref)" and ?l = "sref_fd sref"
  obtain t h w1 where w1: "new_stream E sref f ctx w = Ret ((t, h), w1)" "stream_made E sref ctx w1 f t h"
    "t < next_obj w1" "\<forall>n. h = HCB n \<longrightarrow> n < next_obj w1" "next_obj w \<le> next_obj w1"
    "\<forall>n < next_obj w. cb_objs w1 n = cb_objs w n \<and> tcp_objs w1 n = tcp_objs w n"
    "handles_io w1 = handles_io w" "tcp_transports w1 = tcp_transports w" "tcp_lstreams w1 = tcp_lstreams w"
    "requested (trace w1) = requested (trace w)" "py_calls (trace w1) = py_calls (trace w) @ [?pf]"
    using new_stream_makes [OF fac tls, of f ctx w] by blast
  let ?w2 = "w1\<lparr>tcp_transports := (tcp_transports w1)(f \<mapsto> t)\<rparr>"
  let ?w3 = "?w2\<lparr>tcp_lstreams := (tcp_lstreams ?w2)(?l := map_option (insert f) (tcp_lstreams ?w2 ?l))\<rparr>"
  let ?w4 = "set_io f (IOTCPStream {READABLE}) (emit (Poll (Register f {READABLE})) ?w3)"
  have run: "accept_all E sref ctx (f # fs) handles w = accept_all E sref ctx fs (handles @ [h]) ?w4"
    using w1(1) by (simp add: Let_def)
  have w4: "tcp_objs ?w4 = tcp_objs w1" "cb_objs ?w4 = cb_objs w1" "next_obj ?w4 = next_obj w1"
    "handles_io ?w4 = (handles_io w)(f \<mapsto> IOTCPStream {READABLE})"
    "tcp_transports ?w4 = (tcp_transports w)(f \<mapsto> t)" "tcp_lstreams ?w4 ?l = Some (insert f s)"
    "py_calls (trace ?w4) = py_calls (trace w) @ [?pf]"
    using w1(7-9,11) Cons.prems(2) by (simp_all add: set_io_def py_calls_def)
  have pa: "poll_agrees w \<Longrightarrow> poll_agrees ?w4" using w1(7,10) by (simp add: poll_agrees_def)
  have fs': "distinct fs" "f \<notin> set fs" using Cons.prems(1) by simp_all
  from Cons.IH [OF fs'(1) w4(6), of "handles @ [h]"]
  obtain hs w' where w': "accept_all E sref ctx fs (handles @ [h]) ?w4 = Ret ((handles @ [h]) @ hs, w')"
    "length hs = length fs" "tcp_lstreams w' ?l = Some (insert f s \<union> set fs)"
    "\<forall>i < length fs. handles_io w' (fs ! i) = Some (IOTCPStream {READABLE})
          \<and> (\<exists>t. tcp_transports w' (fs ! i) = Some t \<and> stream_made E sref ctx w' (fs ! i) t (hs ! i))"
    "poll_agrees ?w4 \<longrightarrow> poll_agrees w'"
    "py_calls (trace w') = py_calls (trace ?w4) @ replicate (length fs) ?pf"
    "\<forall>g. g \<notin> set fs \<longrightarrow> tcp_transports w' g = tcp_transports ?w4 g \<and> handles_io w' g = handles_io ?w4 g"
    "\<forall>n < next_obj ?w4. cb_objs w' n = cb_objs ?w4 n \<and> tcp_objs w' n = tcp_objs ?w4 n"
    by blast
  have same: "\<forall>n < next_obj w1. cb_objs w' n = cb_objs w1 n \<and> tcp_objs w' n = tcp_objs w1 n"
    using w'(8) w4(1-3) by simp
  have first: "tcp_transports w' f = Some t" "handles_io w' f = Some (IOTCPStream {READABLE})"
    "stream_made E sref ctx w' f t h"
    using w'(7) fs'(2) w4(4,5) stream_made_frame [OF w1(2-4) same] by simp_all
  have each: "handles_io w' ((f # fs) ! i) = Some (IOTCPStream {READABLE})
          \<and> (\<exists>t. tcp_transports w' ((f # fs) ! i) = Some t \<and> stream_made E sref ctx w' ((f # fs) ! i) t ((h # hs) ! i))"
    if "i < length (f # fs)" for i
    using that first w'(4) by (cases i) auto
  have frame: "\<forall>g. g \<notin> set (f # fs) \<longrightarrow> tcp_transports w' g = tcp_transports w g \<and> handles_io w' g = handles_io w g"
    "\<forall>n < next_obj w. cb_objs w' n = cb_objs w n \<and> tcp_objs w' n = tcp_objs w n"
    using w'(7) w4(4,5) same w1(5-7) by auto
  show ?case
    using run w'(1-3,5,6) w4(7) pa each frame by (intro exI [of _ "h # hs"] exI [of _ w']) simp
qed simp

theorem accept_all_correct_witness:
  "let sref = \<lparr>sref_fd = 3, sref_sfamily = 2, sref_proto_factory = 9, sref_ssl_config = None\<rparr>;
       w = (EventLoop_new 0 0 :: unit world)\<lparr>tcp_lstreams := [3 \<mapsto> {}]\<rparr> in
   \<exists>hs w'. accept_all demo_ext sref 0 [7, 8] [] w = Ret (hs, w')
     \<and> tcp_lstreams w' 3 = Some {7, 8} \<and> py_calls (trace w') = [ProtoFactory 9, ProtoFactory 9]
     \<and> (\<exists>t. tcp_transports w' 8 = Some t \<and> stream_made demo_ext sref 0 w' 8 t (hs ! 1))"
proof -
  let ?sref = "\<lparr>sref_fd = 3, sref_sfamily = 2, sref_proto_factory = 9, sref_ssl_config = None\<rparr>"
  let ?w = "(EventLoop_new 0 0 :: unit world)\<lparr>tcp_lstreams := [3 \<mapsto> {}]\<rparr>"
  have fac: "factory_makes (sref_proto_factory ?sref) demo_ext"
    by (auto simp: factory_makes_def adds_objects_def demo_ext_def intro!: exI [of _ False])
  have pre: "\<forall>cfg. sref_ssl_config ?sref = Some cfg \<longrightarrow> tls_new_server demo_ext cfg \<noteq> None"
    "distinct [7, 8 :: nat]" "tcp_lstreams ?w (sref_fd ?sref) = Some {}"
    by simp_all
  obtain hs w' where w': "accept_all demo_ext ?sref 0 [7, 8] [] ?w = Ret ([] @ hs, w')"
    "tcp_lstreams w' (sref_fd ?sref) = Some ({} \<union> set [7, 8])"
    "py_calls (trace w') = py_calls (trace ?w) @ replicate (length [7, 8 :: nat]) (ProtoFactory (sref_proto_factory ?sref))"
    "\<forall>i < length [7, 8 :: nat]. \<exists>t. tcp_transports w' ([7, 8] ! i) = Some t
        \<and> stream_made demo_ext ?sref 0 w' ([7, 8] ! i) t (hs ! i)"
    using accept_all_correct [OF fac pre, of 0 "[]"] by blast
  have "\<exists>t. tcp_transports w' 8 = Some t \<and> stream_made demo_ext ?sref 0 w' 8 t (hs ! 1)"
    using w'(4) [rule_format, of 1] by simp
  moreover have "py_calls (trace w') = [ProtoFactory 9, ProtoFactory 9]"
    using w'(3) by (simp add: py_calls_def numeral_2_eq_2)
  ultimately show ?thesis using w'(1,2) unfolding Let_def
    by (intro exI [of _ hs] exI [of _ w']) (simp del: accept_all.simps)
qed

end
