(* ===== verification/Scheduler_Spec.thy ===== *)
theory Scheduler_Spec
  imports Event_Loop
begin

text \<open>
  What the loop promises about scheduling, as an abstract machine: a queue of callbacks and a bag of
  timers, with no heap, no counter and no wake-ups. The operations of the event loop that touch its
  queues refine it, and so does the collecting half of a step; composed with the running half it
  says which Python calls one step makes.
\<close>

section \<open>The abstract scheduler\<close>

record sched_spec =
  sp_ready :: "BoxedHandle list"
  sp_timers :: "(BoxedHandle \<times> nat) multiset"

definition spec_soon :: "BoxedHandle \<Rightarrow> sched_spec \<Rightarrow> sched_spec" where
  "spec_soon h s = s\<lparr>sp_ready := sp_ready s @ [h]\<rparr>"

definition spec_later :: "BoxedHandle \<Rightarrow> nat \<Rightarrow> sched_spec \<Rightarrow> sched_spec" where
  "spec_later h dl s = s\<lparr>sp_timers := add_mset (h, dl) (sp_timers s)\<rparr>"

text \<open>
  One turn at time \<open>now\<close> with the handles \<open>io\<close> of the poller's events: run what is ready, then
  those, then the timers that are due by deadline; keep the other timers.
\<close>

definition spec_turn ::
  "nat \<Rightarrow> BoxedHandle list \<Rightarrow> sched_spec \<Rightarrow> BoxedHandle list \<Rightarrow> sched_spec \<Rightarrow> bool" where
  "spec_turn now io s batch s' =
     (\<exists>due. batch = sp_ready s @ io @ map fst due \<and> sorted (map snd due)
        \<and> mset due = filter_mset (\<lambda>x. snd x \<le> now) (sp_timers s)
        \<and> s' = \<lparr>sp_ready = [], sp_timers = filter_mset (\<lambda>x. now < snd x) (sp_timers s)\<rparr>)"

definition sched_abs :: "'c world \<Rightarrow> sched_spec" where
  "sched_abs w = \<lparr>sp_ready = handles_ready w,
     sp_timers = image_mset (\<lambda>t. (t_handle t, t_when t)) (mset (handles_sched w))\<rparr>"

section \<open>Refinement\<close>

lemma sched_abs_push [simp]:
  "sched_abs (push_ready h w) = spec_soon h (sched_abs w)"
  "sched_abs (push_sched h dl w) = spec_later h dl (sched_abs w)"
  by (simp_all add: sched_abs_def push_ready_def push_sched_def spec_soon_def spec_later_def Let_def
      th.mset_heap_push)

lemma sched_abs_wake [simp]: "sched_abs (wake w) = sched_abs w"
  by (simp add: sched_abs_def)

lemma sched_abs_new [simp]: "new_handle c w = (h, w1) \<Longrightarrow> sched_abs w1 = sched_abs w"
  by (auto simp: new_handle_def sched_abs_def)

lemma call_soon_inv: "queue_inv w \<Longrightarrow> queue_inv (snd (call_soon cb args context cur w))"
  using q_ready.new_then_enq(1) [of w] by (simp add: call_soon_def Let_def split: prod.split)

lemma call_later_inv: "queue_inv w \<Longrightarrow> queue_inv (snd (call_later now delay cb args ctx w))"
  using q_sched.new_then_enq(1) [of w] by (simp add: call_later_def Let_def split: prod.split)

lemma sched_abs_sleep: "sched_abs (poll_sleep st hs w) = fold spec_soon hs (sched_abs w)"
proof -
  have "sp_ready (fold spec_soon hs s) = sp_ready s @ hs" "sp_timers (fold spec_soon hs s) = sp_timers s"
    for s :: sched_spec
    by (induction hs arbitrary: s) (simp_all add: spec_soon_def)
  then show ?thesis by (intro sched_spec.equality) (simp_all add: sched_abs_def)
qed

lemma filter_image_due:
  assumes "mset ds + mset rest = mset xs" "\<forall>t \<in> set ds. t_when t \<le> now" "\<forall>t \<in> set rest. now < t_when t"
  shows "filter_mset (\<lambda>x. snd x \<le> now) (image_mset (\<lambda>t. (t_handle t, t_when t)) (mset xs))
           = mset (map (\<lambda>t. (t_handle t, t_when t)) ds)
    \<and> filter_mset (\<lambda>x. now < snd x) (image_mset (\<lambda>t. (t_handle t, t_when t)) (mset xs))
           = image_mset (\<lambda>t. (t_handle t, t_when t)) (mset rest)"
proof -
  have "filter_mset (\<lambda>t. t_when t \<le> now) (mset xs) = mset ds"
    "filter_mset (\<lambda>t. now < t_when t) (mset xs) = mset rest"
    using assms(2,3) unfolding assms(1) [symmetric]
    by (simp_all add: not_less less_imp_not_less not_le flip: mset_filter)
  then show ?thesis by (simp add: filter_mset_image_mset)
qed

lemma collect_turn:
  assumes inv: "queue_inv w" and arr: "\<forall>h \<in> set (si_arrived si). handle_known w h"
    and evs: "\<forall>ev \<in> set (si_events si). plain_event w ev"
    and np: "\<not> snd (poll_timeout (si_now si) tick_last w)"
  shows "\<exists>batch w'. collect E si tick_last w = Ret (batch, w') \<and> queue_inv w'
     \<and> spec_turn (si_now_timers si) (concat (map (event_handles w) (si_events si)))
         (fold spec_soon (si_arrived si) (sched_abs w)) batch (sched_abs w')"
proof -
  from collect_spec [OF inv arr evs, of E tick_last] np obtain ds w' where
    c: "collect E si tick_last w = Ret (handles_ready w @ (si_arrived si
          @ concat (map (event_handles w) (si_events si))) @ map t_handle ds, w')" and
    m: "mset ds + mset (handles_sched w') = mset (handles_sched w)" and
    o: "sorted (map t_when ds)" "\<forall>t \<in> set ds. t_when t \<le> si_now_timers si"
      "\<forall>t \<in> set (handles_sched w'). si_now_timers si < t_when t" and
    e: "handles_ready w' = []" "queue_inv w'"
    by auto
  note f = filter_image_due [OF m o(2,3)]
  have soon: "sp_ready (fold spec_soon (si_arrived si) (sched_abs w)) = handles_ready w @ si_arrived si"
    "sp_timers (fold spec_soon (si_arrived si) (sched_abs w))
       = image_mset (\<lambda>t. (t_handle t, t_when t)) (mset (handles_sched w))"
    using sched_abs_sleep [of None "si_arrived si" w, symmetric] by (simp_all add: sched_abs_def)
  have "spec_turn (si_now_timers si) (concat (map (event_handles w) (si_events si)))
      (fold spec_soon (si_arrived si) (sched_abs w))
      (handles_ready w @ (si_arrived si @ concat (map (event_handles w) (si_events si))) @ map t_handle ds)
      (sched_abs w')"
    unfolding spec_turn_def soon
    by (rule exI [of _ "map (\<lambda>t. (t_handle t, t_when t)) ds"])
      (use f o(1) e(1) in \<open>simp add: sched_abs_def comp_def\<close>)
  then show ?thesis using c e(2) by blast
qed

text \<open>
  C1. The queues of the event loop refine an abstract scheduler, a list of callbacks and a bag of
  timers. Each scheduling call appends one callback to the list or adds one timer to the bag, with
  its deadline; cancelling leaves both alone. A step whose poll has returned, with events on streams,
  sockets and Python's descriptors only (none on a listener or on the signal socket), takes one turn:
  its batch is the ready callbacks with those other threads queued meanwhile, then the handles of
  the events, then the due timers in order of their deadlines; the other timers stay.
\<close>

theorem scheduler_refines:
  assumes "queue_inv w" "\<forall>h \<in> set (si_arrived si). handle_known w h"
    and "\<forall>ev \<in> set (si_events si). plain_event w ev"
    and "\<not> snd (poll_timeout (si_now si) tick_last w)"
  shows "sched_abs (snd (call_soon cb args context cur w)) = spec_soon (HCB (next_obj w)) (sched_abs w)
    \<and> sched_abs (snd (call_soon_threadsafe cb args context w)) = spec_soon (HCB (next_obj w)) (sched_abs w)
    \<and> sched_abs (snd (call_later now delay cb args ctx w))
        = spec_later (HCB (next_obj w)) (now + delay) (sched_abs w)
    \<and> sched_abs (schedule_handle now h None w) = spec_soon h (sched_abs w)
    \<and> sched_abs (schedule_handle now h (Some delay) w) = spec_later h ((now + delay) div 1000) (sched_abs w)
    \<and> sched_abs (cancel n w) = sched_abs w
    \<and> (\<exists>batch w'. collect E si tick_last w = Ret (batch, w') \<and> queue_inv w'
         \<and> spec_turn (si_now_timers si) (concat (map (event_handles w) (si_events si)))
             (fold spec_soon (si_arrived si) (sched_abs w)) batch (sched_abs w'))"
proof -
  have new: "new_handle c w = (next_obj w, snd (new_handle c w))"
    "sched_abs (snd (new_handle c w)) = sched_abs w" for c
    by (simp_all add: new_handle_def sched_abs_def)
  show ?thesis
    using collect_turn [OF assms] new
    by (simp add: call_soon_def call_soon_threadsafe_def call_later_def schedule_handle_def Let_def
        case_prod_beta cancel_def)
      (simp add: sched_abs_def new_handle_def)
qed

theorem scheduler_refines_witness:
  "let w = snd (call_later 10 20 7 8 9 loop0); si = demo_input\<lparr>si_events := []\<rparr> in
   queue_inv w \<and> \<not> snd (poll_timeout (si_now si) 0 w)
   \<and> sched_abs (snd (call_soon 1 2 None 3 w)) = spec_soon (HCB 1) (sched_abs w)
   \<and> (\<exists>batch w'. collect demo_ext si 0 w = Ret (batch, w') \<and> batch = [HNoOp, HCB 0])"
proof -
  let ?w = "snd (call_later 10 20 7 8 9 loop0)" and ?si = "demo_input\<lparr>si_events := []\<rparr>"
  have w: "handles_sched ?w = [\<lparr>t_handle = HCB 0, t_when = 30\<rparr>]" "handles_ready ?w = []"
    "counter_ready ?w = 0" "next_obj ?w = 1"
    by (simp_all add: call_later_def new_handle_def push_sched_def heap_push_def sift_up.simps [of _ _ 0])
  have inv: "queue_inv ?w" by (intro call_later_inv queue_inv_new)
  have np: "\<not> snd (poll_timeout (si_now ?si) 0 ?w)"
    using w by (simp add: poll_timeout_def heap_peek_def)
  have arr: "\<forall>h \<in> set (si_arrived ?si). handle_known ?w h" by (simp add: handle_known_def)
  have evs: "\<forall>ev \<in> set (si_events ?si). plain_event ?w ev" by simp
  note R = scheduler_refines [OF inv arr evs np]
  have "\<exists>batch w'. collect demo_ext ?si 0 ?w = Ret (batch, w')
      \<and> spec_turn (si_now_timers ?si) (concat (map (event_handles ?w) (si_events ?si)))
          (fold spec_soon (si_arrived ?si) (sched_abs ?w)) batch (sched_abs w')"
    using R [of 0 0 None 0 0 0 0 HNoOp 0 demo_ext] by blast
  then obtain batch w' where c: "collect demo_ext ?si 0 ?w = Ret (batch, w')"
    "spec_turn 100 [] (fold spec_soon [HNoOp] (sched_abs ?w)) batch (sched_abs w')"
    by (simp only: step_input.simps list.map concat.simps) blast
  then obtain due where d: "batch = [HNoOp] @ map fst due" "mset due = {#(HCB 0, 30 :: nat)#}"
    by (auto simp: spec_turn_def sched_abs_def spec_soon_def w)
  then have "batch = [HNoOp, HCB 0]" by (simp add: mset_single_iff)
  moreover have "sched_abs (snd (call_soon 1 2 None 3 ?w)) = spec_soon (HCB 1) (sched_abs ?w)"
    using R [of 1 2 None 3 0 0 0 HNoOp 0 demo_ext] w(4) by (simp only:)
  ultimately show ?thesis using inv np c(1) unfolding Let_def by blast
qed

section \<open>One step, from the queues to the calls\<close>

fun hcb :: "BoxedHandle \<Rightarrow> nat" where
  "hcb (HCB n) = n"
| "hcb _ = 0"

lemma collect_quiet:
  assumes "si_arrived si = []" "si_events si = []" "collect E si tick_last w = Ret (batch, w')"
  shows "callbacks_run (trace w') = callbacks_run (trace w) \<and> cb_objs w' = cb_objs w"
  using assms
  by (auto simp: collect_def take_ready_def poll_sleep_def Let_def and_then_eq_Ret_iff callbacks_run_def
      split: prod.splits if_splits)

text \<open>
  When the poll of a step waits without limit: with nothing ready and either no timer or one that is
  already due.
\<close>

definition waits_forever :: "nat \<Rightarrow> 'c world \<Rightarrow> bool" where
  "waits_forever now w =
     (counter_ready w = 0 \<and> (handles_sched w = [] \<or> (\<exists>t \<in> set (handles_sched w). t_when t \<le> now)))"

lemma poll_timeout_waits:
  assumes "queue_inv w"
  shows "fst (poll_timeout now tick_last w) = None \<longleftrightarrow> waits_forever now w"
    "waits_forever now w \<Longrightarrow> \<not> snd (poll_timeout now tick_last w)"
proof -
  have heap: "heap_inv Timer_le (handles_sched w)" using assms by (simp add: queue_inv_def)
  have "(\<exists>t \<in> set (handles_sched w). t_when t \<le> now) \<longleftrightarrow> t_when p \<le> now"
    if p: "heap_peek (handles_sched w) = Some p" for p
  proof -
    have "p \<in> set (handles_sched w)" using p by (cases "handles_sched w") (auto simp: heap_peek_def)
    moreover have "t_when p \<le> t_when t" if "t \<in> set (handles_sched w)" for t
      using th.heap_peek_greatest [OF heap p that] by (simp add: Timer_le_iff)
    ultimately show ?thesis by (meson order_trans)
  qed
  then show "fst (poll_timeout now tick_last w) = None \<longleftrightarrow> waits_forever now w"
    "waits_forever now w \<Longrightarrow> \<not> snd (poll_timeout now tick_last w)"
    by (auto simp: poll_timeout_def waits_forever_def heap_peek_def not_less split: list.splits if_splits)
qed

text \<open>
  C2. Which callbacks a step without I/O runs. Take any state with the queue invariant in which
  callbacks are queued, Python code that neither runs nor cancels callbacks itself, and a step during
  which no event comes and no other thread queues anything. If the poll can return (a callback
  is ready, or the timers are all in the future, or the poll is interrupted or fails), the step returns,
  and the callbacks it runs are, in this order, the ready ones and the timers due at its second
  clock reading, by deadline; each once, with its own arguments and context, and only those that
  were not cancelled. Otherwise, with nothing ready and a timer already due (or no timer at
  all), the step does not return, and so runs nothing.
\<close>

theorem step_runs_due:
  assumes py: "py_leaves_callbacks E" and inv: "queue_inv w"
    and ready: "handles_ready w = map HCB hs" and timers: "\<forall>t \<in> set (handles_sched w). t_handle t = HCB (hcb (t_handle t))"
    and quiet: "si_arrived si = []" "si_events si = []"
  shows "(waits_forever (si_now si) w \<and> si_poll si = PollOk \<longrightarrow> step E si tick_last w = Blocked)
   \<and> (\<not> waits_forever (si_now si) w \<or> si_poll si \<noteq> PollOk \<longrightarrow>
     (\<exists>ds res tick w'. step E si tick_last w = Ret (res, tick, w')
       \<and> mset ds = filter_mset (\<lambda>t. t_when t \<le> si_now_timers si) (mset (handles_sched w))
       \<and> sorted (map t_when ds)
       \<and> callbacks_run (trace w') = callbacks_run (trace w)
            @ map (\<lambda>h. cb_call (the (cb_objs w h)))
                (filter (\<lambda>h. \<not> handle_cancelled (HCB h) w) (hs @ map (hcb \<circ> t_handle) ds))))"
proof -
  note pt = poll_timeout_waits [OF inv, of "si_now si" tick_last]
  from collect_spec [OF inv, of si E tick_last] quiet obtain ds w1 where
    c: "collect E si tick_last w = Ret (map HCB hs @ map t_handle ds, w1)" and
    m: "mset ds + mset (handles_sched w1) = mset (handles_sched w)" and
    o: "sorted (map t_when ds)" "\<forall>t \<in> set ds. t_when t \<le> si_now_timers si"
      "\<forall>t \<in> set (handles_sched w1). si_now_timers si < t_when t"
    by (auto simp: ready split: if_splits)
  note q = collect_quiet [OF quiet c]
  have sub: "set ds \<subseteq> set (handles_sched w)"
    using m by (metis mset_subset_eq_add_left set_mset_mono set_mset_mset)
  let ?hs = "hs @ map (hcb \<circ> t_handle) ds"
  have batch: "map HCB hs @ map t_handle ds = map HCB ?hs"
    using timers sub by (auto simp: subset_iff)
  have known: "\<forall>h \<in> set ?hs. cb_objs w1 h \<noteq> None"
    using inv ready timers sub q by (auto simp: queue_inv_def handle_known_def subset_iff)
  from run_batch_spec [OF py known, of "si_envs si" 0] obtain w2 where
    b: "run_batch E (si_envs si) 0 (map HCB ?hs) w1 = Ret w2"
      "callbacks_run (trace w2) = callbacks_run (trace w1)
         @ map (\<lambda>h. cb_call (the (cb_objs w1 h))) (filter (\<lambda>h. \<not> handle_cancelled (HCB h) w1) ?hs)"
    by blast
  have due: "mset ds = filter_mset (\<lambda>t. t_when t \<le> si_now_timers si) (mset (handles_sched w))"
    using o(2,3) unfolding m [symmetric] by (simp add: not_le flip: mset_filter)
  have canc: "handle_cancelled (HCB h) w1 = handle_cancelled (HCB h) w" for h using q by simp
  have "\<exists>res t. step E si tick_last w = Ret (res, t, w2)"
    if "\<not> waits_forever (si_now si) w \<or> si_poll si \<noteq> PollOk"
    using that c b(1) batch pt(1) by (auto simp: step_def poll_blocks_def split: prod.split)
  moreover have "step E si tick_last w = Blocked" if "waits_forever (si_now si) w" "si_poll si = PollOk"
    using that pt quiet by (auto simp: step_def poll_blocks_def split: prod.split)
  ultimately show ?thesis using due o(1) b(2) q canc by auto
qed

theorem step_runs_due_witness:
  "let w = snd (call_soon 4 5 (Some 6) 0 (snd (call_later 10 20 7 8 9 loop0)));
       si = demo_input\<lparr>si_arrived := [], si_events := []\<rparr> in
   (\<exists>res tick w'. step demo_ext si 0 w = Ret (res, tick, w')
     \<and> callbacks_run (trace w') = [(4, Args 5, 6), (7, Args 8, 9)])
   \<and> step demo_ext si 0 (snd (call_later 10 20 7 8 9 loop0)) = Blocked"
proof -
  let ?v = "snd (call_later 10 20 7 8 9 loop0)"
  let ?w = "snd (call_soon 4 5 (Some 6) 0 ?v)" and ?si = "demo_input\<lparr>si_arrived := [], si_events := []\<rparr>"
  have inv: "queue_inv ?w" "queue_inv ?v" by (intro call_soon_inv call_later_inv queue_inv_new)+
  have v: "handles_sched ?v = [\<lparr>t_handle = HCB 0, t_when = 30\<rparr>]" "handles_ready ?v = map HCB []"
    "waits_forever 100 ?v"
    by (simp_all add: call_later_def new_handle_def push_sched_def heap_push_def sift_up.simps [of _ _ 0]
        waits_forever_def)
  have w: "handles_sched ?w = [\<lparr>t_handle = HCB 0, t_when = 30\<rparr>]" "handles_ready ?w = map HCB [1]"
    "cb_objs ?w = [0 \<mapsto> CBHandle_new 7 8 9, 1 \<mapsto> CBHandle_new 4 5 6]" "callbacks_run (trace ?w) = []"
    "\<not> waits_forever 100 ?w"
    by (simp_all add: call_later_def call_soon_def new_handle_def push_sched_def push_ready_def
        heap_push_def sift_up.simps [of _ _ 0] callbacks_run_def Let_def waits_forever_def usize_add_def usize_max1_def)
  have py: "py_leaves_callbacks demo_ext"
    by (simp add: py_leaves_callbacks_def demo_ext_def callbacks_run_def)
  have t: "\<forall>t \<in> set (handles_sched ?w). t_handle t = HCB (hcb (t_handle t))"
    "\<forall>t \<in> set (handles_sched ?v). t_handle t = HCB (hcb (t_handle t))" by (simp_all add: w(1) v(1))
  from step_runs_due [OF py inv(1) w(2) t(1), of ?si 0] w(5) obtain ds res tick w' where
    r: "step demo_ext ?si 0 ?w = Ret (res, tick, w')"
    "mset ds = filter_mset (\<lambda>t. t_when t \<le> 100) (mset (handles_sched ?w))"
    "callbacks_run (trace w') = callbacks_run (trace ?w) @ map (\<lambda>h. cb_call (the (cb_objs ?w h)))
       (filter (\<lambda>h. \<not> handle_cancelled (HCB h) ?w) ([1] @ map (hcb \<circ> t_handle) ds))"
    by (auto simp del: map_append filter_append)
  from r(2) have "ds = [\<lparr>t_handle = HCB 0, t_when = 30\<rparr>]" by (simp add: w(1) mset_single_iff)
  then have "callbacks_run (trace w') = [(4, Args 5, 6), (7, Args 8, 9)]"
    using r(3) w(3,4) by (simp add: CBHandle_new_def cb_cancelled_def cb_call_def)
  moreover have "step demo_ext ?si 0 ?v = Blocked"
    using step_runs_due [OF py inv(2) v(2) t(2), of ?si 0] v(3) by simp
  ultimately show ?thesis using r(1) by (simp add: Let_def)
qed

end
