(* ===== verification/Loop_Attributes.thy ===== *)
theory Loop_Attributes
  imports Scheduling
begin

text \<open>
  The attributes of \<^verbatim>\<open>EventLoop\<close> that Python reads and writes (\<^verbatim>\<open>#[getter]\<close> and \<^verbatim>\<open>#[setter]\<close> in
  \<^verbatim>\<open>event_loop.rs\<close>). The locale \<open>loop_attribute\<close> is the contract of one attribute; it is
  interpreted on every pair.
\<close>

section \<open>Getters and setters\<close>

text \<open>\<^verbatim>\<open>_clock\<close>: microseconds since the epoch, \<open>now_ns\<close> being the time since then in nanoseconds.\<close>

definition get_clock :: "nat \<Rightarrow> nat" where
  "get_clock now_ns = now_ns div 1000"

definition get_thread_id :: "'c world \<Rightarrow> 64 word" where
  "get_thread_id w = thread_id (attrs w)"

definition set_thread_id :: "64 word \<Rightarrow> 'c world \<Rightarrow> 'c world" where
  "set_thread_id val w = w\<lparr>attrs := (attrs w)\<lparr>thread_id := val\<rparr>\<rparr>"

definition get_closed :: "'c world \<Rightarrow> bool" where
  "get_closed w = loop_closed (attrs w)"

definition set_closed :: "bool \<Rightarrow> 'c world \<Rightarrow> 'c world" where
  "set_closed val w = w\<lparr>attrs := (attrs w)\<lparr>loop_closed := val\<rparr>\<rparr>"

definition get_stopping :: "'c world \<Rightarrow> bool" where
  "get_stopping w = stopping w"

definition set_stopping :: "bool \<Rightarrow> 'c world \<Rightarrow> 'c world" where
  "set_stopping val w = w\<lparr>stopping := val\<rparr>"

definition get_asyncgens_shutdown_called :: "'c world \<Rightarrow> bool" where
  "get_asyncgens_shutdown_called w = shutdown_called_asyncgens (attrs w)"

definition set_asyncgens_shutdown_called :: "bool \<Rightarrow> 'c world \<Rightarrow> 'c world" where
  "set_asyncgens_shutdown_called val w = w\<lparr>attrs := (attrs w)\<lparr>shutdown_called_asyncgens := val\<rparr>\<rparr>"

definition get_default_executor :: "'c world \<Rightarrow> pyobj" where
  "get_default_executor w = executor (attrs w)"

definition set_default_executor :: "pyobj \<Rightarrow> 'c world \<Rightarrow> 'c world" where
  "set_default_executor val w = w\<lparr>attrs := (attrs w)\<lparr>executor := val\<rparr>\<rparr>"

definition get_exc_handler :: "'c world \<Rightarrow> pyobj" where
  "get_exc_handler w = exc_handler w"

definition set_exc_handler :: "pyobj \<Rightarrow> 'c world \<Rightarrow> 'c world" where
  "set_exc_handler val w = w\<lparr>exc_handler := val\<rparr>"

definition get_exception_handler :: "'c world \<Rightarrow> pyobj" where
  "get_exception_handler w = exception_handler w"

definition set_exception_handler :: "pyobj \<Rightarrow> 'c world \<Rightarrow> 'c world" where
  "set_exception_handler val w = w\<lparr>exception_handler := val\<rparr>"

definition get_executor_shutdown_called :: "'c world \<Rightarrow> bool" where
  "get_executor_shutdown_called w = shutdown_called_executor (attrs w)"

definition set_executor_shutdown_called :: "bool \<Rightarrow> 'c world \<Rightarrow> 'c world" where
  "set_executor_shutdown_called val w = w\<lparr>attrs := (attrs w)\<lparr>shutdown_called_executor := val\<rparr>\<rparr>"

definition get_sig_listening :: "'c world \<Rightarrow> bool" where
  "get_sig_listening w = sig_listening w"

definition set_sig_listening :: "bool \<Rightarrow> 'c world \<Rightarrow> 'c world" where
  "set_sig_listening val w = w\<lparr>sig_listening := val\<rparr>"

definition get_sig_wfd :: "'c world \<Rightarrow> pyobj" where
  "get_sig_wfd w = sig_wfd (attrs w)"

definition set_sig_wfd :: "pyobj \<Rightarrow> 'c world \<Rightarrow> 'c world" where
  "set_sig_wfd val w = w\<lparr>attrs := (attrs w)\<lparr>sig_wfd := val\<rparr>\<rparr>"

definition get_ssock_r :: "'c world \<Rightarrow> pyobj" where
  "get_ssock_r w = ssock_r (attrs w)"

definition set_ssock_r :: "pyobj \<Rightarrow> 'c world \<Rightarrow> 'c world" where
  "set_ssock_r val w = w\<lparr>attrs := (attrs w)\<lparr>ssock_r := val\<rparr>\<rparr>"

definition get_ssock_w :: "'c world \<Rightarrow> pyobj" where
  "get_ssock_w w = ssock_w (attrs w)"

definition set_ssock_w :: "pyobj \<Rightarrow> 'c world \<Rightarrow> 'c world" where
  "set_ssock_w val w = w\<lparr>attrs := (attrs w)\<lparr>ssock_w := val\<rparr>\<rparr>"

definition get_task_factory :: "'c world \<Rightarrow> pyobj" where
  "get_task_factory w = task_factory (attrs w)"

definition set_task_factory :: "pyobj \<Rightarrow> 'c world \<Rightarrow> 'c world" where
  "set_task_factory val w = w\<lparr>attrs := (attrs w)\<lparr>task_factory := val\<rparr>\<rparr>"

definition get_watcher_child :: "'c world \<Rightarrow> pyobj" where
  "get_watcher_child w = watcher_child (attrs w)"

definition set_watcher_child :: "pyobj \<Rightarrow> 'c world \<Rightarrow> 'c world" where
  "set_watcher_child val w = w\<lparr>attrs := (attrs w)\<lparr>watcher_child := val\<rparr>\<rparr>"

section \<open>The contract of an attribute\<close>

text \<open>What the loop itself works on: its tables, queues, objects and the trace.\<close>

definition same_core :: "'c world \<Rightarrow> 'c world \<Rightarrow> bool" where
  "same_core w w' =
     (idle w' = idle w \<and> handles_io w' = handles_io w \<and> handles_ready w' = handles_ready w
      \<and> handles_sched w' = handles_sched w \<and> counter_ready w' = counter_ready w
      \<and> ssock w' = ssock w \<and> sig_handlers w' = sig_handlers w \<and> tcp_lstreams w' = tcp_lstreams w
      \<and> tcp_transports w' = tcp_transports w \<and> udp_transports w' = udp_transports w
      \<and> cb_objs w' = cb_objs w \<and> tcp_objs w' = tcp_objs w \<and> udp_objs w' = udp_objs w
      \<and> next_obj w' = next_obj w \<and> trace w' = trace w)"

lemma same_core_invs:
  assumes "same_core w w'"
  shows "queue_inv w' = queue_inv w" "io_wf w' = io_wf w" "poll_agrees w' = poll_agrees w"
  using assms by (simp_all add: same_core_def registry_defs queue_inv_def handle_known_def objs_below_def)

locale loop_attribute =
  fixes get :: "'c world \<Rightarrow> 'a" and set :: "'a \<Rightarrow> 'c world \<Rightarrow> 'c world"
  assumes get_set: "get (set v w) = v"
    and set_get: "set (get w) w = w"
    and set_set: "set v (set u w) = set v w"
    and set_core: "same_core w (set v w)"
begin

lemma set_twice: "set v (set v w) = set v w"
  by (rule set_set)

lemma set_inj: "set u w = set v w \<longleftrightarrow> u = v"
  using get_set by metis

lemma set_keeps:
  "queue_inv (set v w) = queue_inv w" "io_wf (set v w) = io_wf w" "poll_agrees (set v w) = poll_agrees w"
  using same_core_invs [OF set_core] by simp_all

lemma set_restores: "set (get w) (set v w) = w"
  by (simp add: set_set set_get)

end

interpretation thread_id: loop_attribute get_thread_id set_thread_id
  by unfold_locales (simp_all add: get_thread_id_def set_thread_id_def same_core_def)

interpretation closed: loop_attribute get_closed set_closed
  by unfold_locales (simp_all add: get_closed_def set_closed_def same_core_def)

interpretation stopping: loop_attribute get_stopping set_stopping
  by unfold_locales (simp_all add: get_stopping_def set_stopping_def same_core_def)

interpretation asyncgens_shutdown_called: loop_attribute get_asyncgens_shutdown_called set_asyncgens_shutdown_called
  by unfold_locales (simp_all add: get_asyncgens_shutdown_called_def set_asyncgens_shutdown_called_def same_core_def)

interpretation default_executor: loop_attribute get_default_executor set_default_executor
  by unfold_locales (simp_all add: get_default_executor_def set_default_executor_def same_core_def)

interpretation exc_handler: loop_attribute get_exc_handler set_exc_handler
  by unfold_locales (simp_all add: get_exc_handler_def set_exc_handler_def same_core_def)

interpretation exception_handler: loop_attribute get_exception_handler set_exception_handler
  by unfold_locales (simp_all add: get_exception_handler_def set_exception_handler_def same_core_def)

interpretation executor_shutdown_called: loop_attribute get_executor_shutdown_called set_executor_shutdown_called
  by unfold_locales (simp_all add: get_executor_shutdown_called_def set_executor_shutdown_called_def same_core_def)

interpretation sig_listening: loop_attribute get_sig_listening set_sig_listening
  by unfold_locales (simp_all add: get_sig_listening_def set_sig_listening_def same_core_def)

interpretation sig_wfd: loop_attribute get_sig_wfd set_sig_wfd
  by unfold_locales (simp_all add: get_sig_wfd_def set_sig_wfd_def same_core_def)

interpretation ssock_r: loop_attribute get_ssock_r set_ssock_r
  by unfold_locales (simp_all add: get_ssock_r_def set_ssock_r_def same_core_def)

interpretation ssock_w: loop_attribute get_ssock_w set_ssock_w
  by unfold_locales (simp_all add: get_ssock_w_def set_ssock_w_def same_core_def)

interpretation task_factory: loop_attribute get_task_factory set_task_factory
  by unfold_locales (simp_all add: get_task_factory_def set_task_factory_def same_core_def)

interpretation watcher_child: loop_attribute get_watcher_child set_watcher_child
  by unfold_locales (simp_all add: get_watcher_child_def set_watcher_child_def same_core_def)

end
