(* ===== verification/Loop_Ops.thy ===== *)
theory Loop_Ops
  imports Event_Loop Loop_Attributes
begin

text \<open>
  The operations of the mio loop as one relation, and the interface between the invariants of the
  loop and the code: an invariant has to survive the elementary changes of the state that the
  operations are made of (the assumptions of the locale \<open>op_inv\<close>); every operation, the handles run
  on readiness and a whole step then keep it.
\<close>

section \<open>How a transport changes\<close>

text \<open>
  A transport always has its water marks in order and no empty chunk in its buffer, and one
  without TLS none of the state of a TLS connection.
\<close>

definition tcp_wf :: "'c TCPTransport \<Rightarrow> bool" where
  "tcp_wf T =
     (water_lo T \<le> water_hi T \<and> [] \<notin> set (write_buf (tstate T))
      \<and> (tls_conn (tstate T) = None \<longrightarrow>
           \<not> handshake_complete (tstate T) \<and> \<not> connection_made_called (tstate T)
           \<and> \<not> tls_close_sent (tstate T) \<and> \<not> tls_close_received (tstate T)
           \<and> \<not> tls_pending_close (tstate T)))"

text \<open>
  What every change of a transport respects: it keeps its descriptor, its listener, its protocol
  and whether it uses TLS, and the flags that record an event are never taken back.
\<close>

definition tcp_evolves :: "'c TCPTransport \<Rightarrow> 'c TCPTransport \<Rightarrow> bool" where
  "tcp_evolves T T' =
     (tfd T' = tfd T \<and> lfd T' = lfd T \<and> proto T' = proto T \<and> proto_buffered T' = proto_buffered T
      \<and> (tls_conn (tstate T') = None \<longleftrightarrow> tls_conn (tstate T) = None)
      \<and> (closing T \<longrightarrow> closing T') \<and> (weof T \<longrightarrow> weof T')
      \<and> (handshake_complete (tstate T) \<longrightarrow> handshake_complete (tstate T'))
      \<and> (connection_made_called (tstate T) \<longrightarrow> connection_made_called (tstate T'))
      \<and> (tls_close_sent (tstate T) \<longrightarrow> tls_close_sent (tstate T'))
      \<and> (tls_close_received (tstate T) \<longrightarrow> tls_close_received (tstate T'))
      \<and> (tcp_wf T \<longrightarrow> tcp_wf T'))"

definition udp_wf :: "UDPTransport \<Rightarrow> bool" where
  "udp_wf U = (u_water_lo U \<le> u_water_hi U)"

definition udp_evolves :: "UDPTransport \<Rightarrow> UDPTransport \<Rightarrow> bool" where
  "udp_evolves U U' =
     (ufd U' = ufd U \<and> u_proto U' = u_proto U \<and> u_remote_addr U' = u_remote_addr U
      \<and> (u_closing U \<longrightarrow> u_closing U') \<and> (udp_wf U \<longrightarrow> udp_wf U'))"

lemma evolves_refl [simp]: "tcp_evolves T T" "udp_evolves U U"
  by (simp_all add: tcp_evolves_def udp_evolves_def)

lemma evolves_trans:
  "tcp_evolves T T' \<Longrightarrow> tcp_evolves T' T'' \<Longrightarrow> tcp_evolves T T''"
  "udp_evolves U U' \<Longrightarrow> udp_evolves U' U'' \<Longrightarrow> udp_evolves U U''"
  by (simp_all add: tcp_evolves_def udp_evolves_def)

text \<open>An entry of the table of descriptors that the dispatch of an event can rely on.\<close>

definition entry_ok :: "'c world \<Rightarrow> fd \<Rightarrow> IOHandle \<Rightarrow> bool" where
  "entry_ok w f h =
     (handle_interest h \<noteq> {}
      \<and> (case h of
           IOPy d \<Rightarrow> py_data_ok d \<and> (\<forall>n. phd_cbr d = Some n \<or> phd_cbw d = Some n \<longrightarrow> cb_objs w n \<noteq> None)
         | IOTCPListener s \<Rightarrow> sref_fd s = f \<and> tcp_lstreams w f \<noteq> None
         | _ \<Rightarrow> True))"

text \<open>Access to a transport.\<close>

lemma with_tcp_wp [wp]:
  "(\<And>T. tcp_objs w t = Some T \<Longrightarrow> holds P (k T)) \<Longrightarrow> holds P (with_tcp t w k)"
  by (simp add: with_tcp_def holds_def split: option.splits)

lemma borrow_wp [wp]:
  "(\<And>T. tcp_objs w t = Some T \<Longrightarrow> \<not> state_mut T \<Longrightarrow> holds P (k (tstate T))) \<Longrightarrow> holds P (borrow t w k)"
  by (simp add: borrow_def with_tcp_def holds_def split: option.splits)

lemma with_udp_wp [wp]:
  "(\<And>U. udp_objs w u = Some U \<Longrightarrow> holds P (k U)) \<Longrightarrow> holds P (with_udp u w k)"
  by (simp add: with_udp_def holds_def split: option.splits)

lemma udp_borrow_wp [wp]:
  "(\<And>U. udp_objs w u = Some U \<Longrightarrow> \<not> u_state_mut U \<Longrightarrow> holds P (k U)) \<Longrightarrow> holds P (udp_borrow u w k)"
  by (simp add: udp_borrow_def with_udp_def holds_def split: option.splits)

lemma holds_pyres [wp]:
  "(\<And>x b. r = PyOk x b \<Longrightarrow> holds P (f x b)) \<Longrightarrow> (\<And>e. r = PyErr e \<Longrightarrow> holds P (g e)) \<Longrightarrow>
     holds P (case r of PyOk x b \<Rightarrow> f x b | PyErr e \<Rightarrow> g e)"
  by (cases r) simp_all

lemma holds_sysres [wp]:
  "(\<And>n. r = SysOk n \<Longrightarrow> holds P (f n)) \<Longrightarrow> holds P a \<Longrightarrow> holds P b \<Longrightarrow> (\<And>e. r = SysErr e \<Longrightarrow> holds P (g e)) \<Longrightarrow>
     holds P (case r of SysOk n \<Rightarrow> f n | SysInterrupted \<Rightarrow> a | SysWouldBlock \<Rightarrow> b | SysErr e \<Rightarrow> g e)"
  by (cases r) simp_all

lemmas evolve_defs = tcp_evolves_def udp_evolves_def tcp_wf_def udp_wf_def

lemma set_io_wake: "set_io f h (wake w) = wake (set_io f h w)"
  by (simp add: wake_def set_io_def emit_def)

lemma entry_ok_stream [simp]:
  "entry_ok w f (IOTCPStream i) = (i \<noteq> {})" "entry_ok w f (IOUDPSocket i) = (i \<noteq> {})"
  "entry_ok w f IOSignals"
  by (simp_all add: entry_ok_def)

lemma write_chunks_nonempty: "write_chunks bs ks = (ret, left, sent) \<Longrightarrow> [] \<notin> set bs \<Longrightarrow> [] \<notin> set left"
  by (induction bs ks arbitrary: ret left sent rule: write_chunks.induct)
     (auto split: sysres.splits if_splits prod.splits)

lemma encrypt_chunks_nonempty:
  "encrypt_chunks E bs n c = (ok, ret, left, ds, c') \<Longrightarrow> [] \<notin> set bs \<Longrightarrow> [] \<notin> set left"
  by (induction bs arbitrary: n c ok ret left ds c') (auto split: if_splits prod.splits)

lemma entry_ok_emit [simp]: "entry_ok (emit e w) f h = entry_ok w f h"
  by (simp add: entry_ok_def split: IOHandle.split)

lemma entry_ok_same:
  "cb_objs w' = cb_objs w \<Longrightarrow> tcp_lstreams w' = tcp_lstreams w \<Longrightarrow> entry_ok w' f h = entry_ok w f h"
  by (simp add: entry_ok_def split: IOHandle.split)

lemma emit_lstreams: "emit e (w\<lparr>tcp_lstreams := m\<rparr>) = (emit e w)\<lparr>tcp_lstreams := m\<rparr>"
  by (cases w) (simp add: emit_def)

lemma dom_insert_at: "dom m \<subseteq> dom (m(l := map_option g (m l)))"
  by auto

lemma tcp_wf_new: "tcp_wf (TCPTransport_new f p b l e)" "tcp_wf (initialize_tls_server c (TCPTransport_new f p b l e))"
  by (simp_all add: tcp_wf_def TCPTransport_new_def initialize_tls_server_def Let_def)

section \<open>The operations as one relation\<close>

text \<open>
  One operation of the loop, from any thread, any callback or the loop itself: the methods Python
  can call on the loop, on its transports and on servers, and one step of \<^verbatim>\<open>_run\<close>. The kernel never
  takes more than it was given, and what other threads queue while the loop sleeps are handles.
\<close>

inductive loop_op :: "'c ext \<Rightarrow> 'c world \<Rightarrow> 'c world \<Rightarrow> bool" for E where
  op_call_soon: "loop_op E w (snd (call_soon cb args ctx cur w))"
| op_call_soon_threadsafe: "loop_op E w (snd (call_soon_threadsafe cb args ctx w))"
| op_call_later: "loop_op E w (snd (call_later now d cb args c w))"
| op_schedule0: "loop_op E w (schedule0 cb ctx w)"
| op_schedule1: "loop_op E w (schedule1 cb arg ctx w)"
| op_schedule: "loop_op E w (schedule cb args ctx w)"
| op_schedule_later0: "loop_op E w (schedule_later0 now d cb ctx w)"
| op_schedule_later1: "loop_op E w (schedule_later1 now d cb arg ctx w)"
| op_schedule_later: "loop_op E w (schedule_later now d cb args ctx w)"
| op_schedule_handle: "handle_known w h \<Longrightarrow> loop_op E w (schedule_handle now h delay w)"
| op_cancel: "loop_op E w (cancel n w)"
| op_sig_add: "loop_op E w (sig_add sig cb args c w)"
| op_sig_rem: "loop_op E w (snd (sig_rem sig w))"
| op_sig_clear: "loop_op E w (sig_clear w)"
| op_set_thread_id: "loop_op E w (set_thread_id tid w)"
| op_set_closed: "loop_op E w (set_closed b w)"
| op_set_stopping: "loop_op E w (set_stopping b w)"
| op_set_asyncgens: "loop_op E w (set_asyncgens_shutdown_called b w)"
| op_set_executor: "loop_op E w (set_default_executor x w)"
| op_set_exc_handler: "loop_op E w (set_exc_handler x w)"
| op_set_exception_handler: "loop_op E w (set_exception_handler x w)"
| op_set_executor_shutdown: "loop_op E w (set_executor_shutdown_called b w)"
| op_set_sig_listening: "loop_op E w (set_sig_listening b w)"
| op_set_sig_wfd: "loop_op E w (set_sig_wfd x w)"
| op_set_ssock_r: "loop_op E w (set_ssock_r x w)"
| op_set_ssock_w: "loop_op E w (set_ssock_w x w)"
| op_set_task_factory: "loop_op E w (set_task_factory x w)"
| op_set_watcher_child: "loop_op E w (set_watcher_child x w)"
| op_ssock_set: "loop_op E w (snd (ssock_set f_r f_w ok w))"
| op_ssock_del: "loop_op E w (snd (ssock_del f_r ok w))"
| op_add_reader: "add_reader f h w = Ret (n, w') \<Longrightarrow> loop_op E w w'"
| op_add_writer: "add_writer f h w = Ret (n, w') \<Longrightarrow> loop_op E w w'"
| op_remove_reader: "remove_reader f w = Ret (b, w') \<Longrightarrow> loop_op E w w'"
| op_remove_writer: "remove_writer f w = Ret (b, w') \<Longrightarrow> loop_op E w w'"
| op_tcp_conn: "tcp_conn E f pf ssl w = Ret (tc, w') \<Longrightarrow> loop_op E w w'"
| op_udp_conn: "udp_conn E parse_ip f pf remote w = Ret (tc, w') \<Longrightarrow> loop_op E w w'"
| op_write: "\<forall>n. k_write K = SysOk n \<longrightarrow> n \<le> length data \<Longrightarrow> try_write E K t data w = Ret (pr, w') \<Longrightarrow> loop_op E w w'"
| op_writelines: "\<forall>n. k_write K = SysOk n \<longrightarrow> n \<le> length (concat ds) \<Longrightarrow>
    writelines E K t ds w = Ret (pr, w') \<Longrightarrow> loop_op E w w'"
| op_write_eof: "write_eof t w = Ret w' \<Longrightarrow> loop_op E w w'"
| op_pause_reading: "pause_reading t w = Ret w' \<Longrightarrow> loop_op E w w'"
| op_resume_reading: "resume_reading t w = Ret w' \<Longrightarrow> loop_op E w w'"
| op_set_limits: "set_write_buffer_limits E t high low w = Ret (pr, w') \<Longrightarrow> loop_op E w w'"
| op_close: "tcp_close E K t w = Ret w' \<Longrightarrow> loop_op E w w'"
| op_abort: "tcp_abort E K t w = Ret w' \<Longrightarrow> loop_op E w w'"
| op_connection_lost: "call_conn_lost E K t None w = Ret w' \<Longrightarrow> loop_op E w w'"
| op_sendto: "sendto E parse_ip u data a r w = Ret (pr, w') \<Longrightarrow> loop_op E w w'"
| op_udp_set_limits: "udp_set_write_buffer_limits E u high low w = Ret (pr, w') \<Longrightarrow> loop_op E w w'"
| op_udp_close: "udp_close E u w = Ret w' \<Longrightarrow> loop_op E w w'"
| op_udp_abort: "udp_abort E u w = Ret w' \<Longrightarrow> loop_op E w w'"
| op_start_serving: "loop_op E w (snd (snd (start_serving sv oks w)))"
| op_server_close: "Server_close E Ks order ok sv w = Ret (sv', w') \<Longrightarrow> loop_op E w w'"
| op_streams_close: "Server_streams_close E Ks order sv w = Ret w' \<Longrightarrow> loop_op E w w'"
| op_streams_abort: "Server_streams_abort E Ks order sv w = Ret w' \<Longrightarrow> loop_op E w w'"
| op_step: "\<forall>h \<in> set (si_arrived si). handle_known w h \<Longrightarrow> step E si tick w = Ret (pres, tick', w') \<Longrightarrow> loop_op E w w'"
| op_signal_seen: "loop_op E w (w\<lparr>sig_loop_handled := False\<rparr>)"

text \<open>
  Python code that reaches the loop only through these operations. The callbacks those operations
  run are again such code, nested to any depth.
\<close>

inductive api_python :: "'c ext \<Rightarrow> bool" where
  api: "\<forall>c w. (\<lambda>v v'. \<exists>E'. api_python E' \<and> loop_op E' v v')\<^sup>*\<^sup>* w (snd (py E c w)) \<Longrightarrow> api_python E"

section \<open>The interface\<close>

locale op_inv =
  fixes I :: "'c world \<Rightarrow> bool" and E :: "'c ext"
  assumes py_I: "I w \<Longrightarrow> I (snd (py E c w))"
    and py_tcp: "I w \<Longrightarrow> tcp_objs w t = Some T \<Longrightarrow> \<exists>T'. tcp_objs (snd (py E c w)) t = Some T' \<and> tcp_evolves T T'"
    and py_udp: "I w \<Longrightarrow> udp_objs w u = Some U \<Longrightarrow> \<exists>U'. udp_objs (snd (py E c w)) u = Some U' \<and> udp_evolves U U'"
    and I_entry: "I w \<Longrightarrow> handles_io w f = Some ioh \<Longrightarrow> entry_ok w f ioh"
    and I_emit: "I w \<Longrightarrow> (\<And>p. e \<noteq> Poll p) \<Longrightarrow> I (emit e w)"
    and I_core: "I w \<Longrightarrow> same_core w w' \<Longrightarrow> I w'"
    and I_idle: "I w \<Longrightarrow> I (w\<lparr>idle := b\<rparr>)"
    and I_ssock: "I w \<Longrightarrow> I (w\<lparr>ssock := p\<rparr>)"
    and I_new_handle: "I w \<Longrightarrow> I (snd (new_handle cb w))"
    and I_cancel: "I w \<Longrightarrow> I (cancel n w)"
    and I_push_ready: "I w \<Longrightarrow> handle_known w h \<Longrightarrow> I (push_ready h w)"
    and I_push_sched: "I w \<Longrightarrow> handle_known w h \<Longrightarrow> I (push_sched h tm w)"
    and I_sig_put: "I w \<Longrightarrow> cb_objs w n \<noteq> None \<Longrightarrow> I (w\<lparr>sig_handlers := (sig_handlers w)(s \<mapsto> n)\<rparr>)"
    and I_sig_del: "I w \<Longrightarrow> m \<subseteq>\<^sub>m sig_handlers w \<Longrightarrow> I (w\<lparr>sig_handlers := m\<rparr>)"
    and I_take_ready: "I w \<Longrightarrow> I (snd (take_ready w))"
    and I_drain: "I w \<Longrightarrow> drain_timers tick (handles_sched w) hs = Ret (batch, sched) \<Longrightarrow> I (w\<lparr>handles_sched := sched\<rparr>)"
    and I_register: "I w \<Longrightarrow> entry_ok w f ioh \<Longrightarrow> watch_ok i ioh \<Longrightarrow> I (set_io f ioh (emit (Poll (Register f i)) w))"
    and I_reregister: "I w \<Longrightarrow> handles_io w f \<noteq> None \<Longrightarrow> entry_ok w f ioh \<Longrightarrow> watch_ok i ioh \<Longrightarrow>
       I (set_io f ioh (emit (Poll (Reregister f i)) w))"
    and I_deregister: "I w \<Longrightarrow> handles_io w f = None \<Longrightarrow> I (emit (Poll (Deregister f)) w)"
    and I_del_io: "I w \<Longrightarrow> I (del_io f w)"
    and I_lstreams: "I w \<Longrightarrow> dom (tcp_lstreams w) \<subseteq> dom lm \<Longrightarrow> I (w\<lparr>tcp_lstreams := lm\<rparr>)"
    and I_lstreams_del: "I w \<Longrightarrow> handles_io w f = None \<Longrightarrow> I (w\<lparr>tcp_lstreams := (tcp_lstreams w)(f := None)\<rparr>)"
    and I_upd_tcp: "I w \<Longrightarrow> (\<And>T. tcp_objs w t = Some T \<Longrightarrow> tcp_evolves T (g T)) \<Longrightarrow> I (upd_tcp t g w)"
    and I_new_tcp: "I w \<Longrightarrow> tcp_wf T \<Longrightarrow> I (snd (new_transport T w))"
    and I_attach: "I w \<Longrightarrow> tcp_objs w t = Some T \<Longrightarrow> I (w\<lparr>tcp_transports := (tcp_transports w)(tfd T \<mapsto> t)\<rparr>)"
    and I_detach: "I w \<Longrightarrow> I (w\<lparr>tcp_transports := (tcp_transports w)(f := None)\<rparr>)"
    and I_upd_udp: "I w \<Longrightarrow> (\<And>U. udp_objs w u = Some U \<Longrightarrow> udp_evolves U (g' U)) \<Longrightarrow> I (upd_udp u g' w)"
    and I_new_udp: "I w \<Longrightarrow> udp_wf U \<Longrightarrow>
       I (w\<lparr>udp_objs := (udp_objs w)(next_obj w \<mapsto> U), next_obj := Suc (next_obj w)\<rparr>)"
    and I_attach_udp: "I w \<Longrightarrow> udp_objs w u = Some U \<Longrightarrow> I (w\<lparr>udp_transports := (udp_transports w)(ufd U \<mapsto> u)\<rparr>)"
    and I_detach_udp: "I w \<Longrightarrow> I (w\<lparr>udp_transports := (udp_transports w)(f := None)\<rparr>)"
begin

lemma I_case [wp]:
  "(b \<Longrightarrow> I x) \<Longrightarrow> (\<not> b \<Longrightarrow> I y) \<Longrightarrow> I (if b then x else y)"
  by simp

lemma I_wake: "I w \<Longrightarrow> I (wake w)"
  by (simp add: wake_def I_emit)

lemma I_call: "I w \<Longrightarrow> I (snd (call_py E c w))"
  by (simp add: call_py_def py_I I_emit)

lemma call_wp [wp]:
  "I w \<Longrightarrow> (\<And>r w1. I w1 \<Longrightarrow> holds P (k r w1)) \<Longrightarrow> holds P (case call_py E c w of (r, w1) \<Rightarrow> k r w1)"
  using I_call [of w c] by (cases "call_py E c w") simp

lemma I_log: "I w \<Longrightarrow> I (log_exception E ctx w)"
  by (simp add: log_exception_def I_call)

lemma I_run: "I w \<Longrightarrow> I (CBHandle_run E h w)"
  using I_call [of w] by (auto simp: CBHandle_run_def I_log split: option.splits prod.splits pyres.splits)
    (metis I_log snd_conv)+

lemma I_fold: "I w \<Longrightarrow> (\<And>x v. I v \<Longrightarrow> I (f x v)) \<Longrightarrow> I (fold f xs w)"
  by (induction xs arbitrary: w) simp_all

lemmas keep = I_wake I_call I_log I_detach I_detach_udp

subsection \<open>The table of descriptors\<close>

lemma I_drop_entry: "I w \<Longrightarrow> I (emit (Poll (Deregister f)) (del_io f w))"
  by (intro I_deregister I_del_io) simp_all

lemma tcp_stream_add_wp [wp]:
  assumes "I w" "i \<noteq> {}" "\<And>w'. I w' \<Longrightarrow> P w'"
  shows "holds P (tcp_stream_add f i w)"
  using assms
  by (auto simp: tcp_stream_add_def holds_def set_io_wake Let_def set_io_triv
      intro!: assms(3) I_wake I_register I_reregister split: option.splits IOHandle.splits if_splits)

lemma tcp_stream_rem_wp [wp]:
  assumes "I w" "\<And>w'. I w' \<Longrightarrow> P w'"
  shows "holds P (tcp_stream_rem f i w)"
  using assms
  by (auto simp: tcp_stream_rem_def holds_def
      intro!: assms(2) I_drop_entry I_reregister split: option.splits IOHandle.splits if_splits)

lemma udp_socket_add_wp [wp]:
  assumes "I w" "i \<noteq> {}" "\<And>w'. I w' \<Longrightarrow> P w'"
  shows "holds P (udp_socket_add f i w)"
  using assms
  by (auto simp: udp_socket_add_def holds_def Let_def set_io_triv
      intro!: assms(3) I_register I_reregister split: option.splits IOHandle.splits if_splits)

lemma udp_socket_rem_wp [wp]:
  assumes "I w" "\<And>w'. I w' \<Longrightarrow> P w'"
  shows "holds P (udp_socket_rem f i w)"
  using assms
  by (auto simp: udp_socket_rem_def holds_def
      intro!: assms(2) I_drop_entry I_reregister split: option.splits IOHandle.splits if_splits)

subsection \<open>TCP transports\<close>

lemma sys_write_I: "I w \<Longrightarrow> I (sys_write f d r w)"
  by (simp add: sys_write_def I_emit split: sysres.splits)

lemma proto_pause_wp [wp]: "I w \<Longrightarrow> (\<And>w'. I w' \<Longrightarrow> P w') \<Longrightarrow> holds P (proto_pause E t w)"
  unfolding proto_pause_def by (intro wp) (auto intro: I_log)

lemma proto_resume_wp [wp]: "I w \<Longrightarrow> (\<And>w'. I w' \<Longrightarrow> P w') \<Longrightarrow> holds P (proto_resume E t w)"
  unfolding proto_resume_def by (intro wp) (auto intro: I_log)

lemma write_buf_size_decr_wp [wp]:
  "I w \<Longrightarrow> (\<And>w'. I w' \<Longrightarrow> P w') \<Longrightarrow> holds P (write_buf_size_decr E t w)"
  unfolding write_buf_size_decr_def by (intro wp I_upd_tcp) (simp_all add: evolve_defs)

lemma set_write_buffer_limits_wp [wp]:
  assumes "I w" "\<And>r w'. I w' \<Longrightarrow> P (r, w')"
  shows "holds P (set_write_buffer_limits E t hi lo w)"
  unfolding set_write_buffer_limits_def Let_def
  by (rule holds_prod, intro wp I_upd_tcp assms) (auto simp: evolve_defs)

lemma send_close_alert_wp [wp]:
  assumes "I w" "\<And>w'. I w' \<Longrightarrow> P w'"
  shows "holds P (send_close_alert E K t w)"
  unfolding send_close_alert_def Let_def upd_state_def
  by (intro wp holds_prod assms sys_write_I I_upd_tcp) (simp_all add: evolve_defs)

lemma close_tls_wp:
  assumes "I w" "\<And>T. tcp_objs w t = Some T \<Longrightarrow> tls_conn (tstate T) \<noteq> None" "\<And>w'. I w' \<Longrightarrow> P w'"
  shows "holds P (close_tls E K t w)"
  unfolding close_tls_def upd_state_def
  by (intro wp assms I_upd_tcp) (use assms(2) in \<open>auto simp: evolve_defs\<close>)

lemma is_tls_wp [wp]:
  "(\<And>T. tcp_objs w t = Some T \<Longrightarrow> P (tls_conn (tstate T) \<noteq> None)) \<Longrightarrow> holds P (is_tls t w)"
  unfolding is_tls_def by (intro wp)

lemma I_closing: "I w \<Longrightarrow> I (upd_tcp t (\<lambda>T. T\<lparr>closing := True\<rparr>) w)"
  by (rule I_upd_tcp) (simp_all add: evolve_defs)

lemma I_lstreams_put: "I w \<Longrightarrow> I (case tcp_lstreams w l of None \<Rightarrow> w | Some s \<Rightarrow> w\<lparr>tcp_lstreams := (tcp_lstreams w)(l \<mapsto> g s)\<rparr>)"
  by (auto intro!: I_lstreams split: option.split)

lemma tcp_stream_close_wp [wp]:
  assumes "I w" "\<And>w'. I w' \<Longrightarrow> P w'"
  shows "holds P (tcp_stream_close E K f w)"
  unfolding tcp_stream_close_def Let_def
  by (intro wp close_tls_wp I_closing I_detach I_lstreams_put assms) auto

lemma call_conn_lost_wp [wp]:
  "I w \<Longrightarrow> (\<And>w'. I w' \<Longrightarrow> P w') \<Longrightarrow> holds P (call_conn_lost E K t err w)"
  unfolding call_conn_lost_def by (intro wp I_call)

lemma tcp_close_wp [wp]:
  assumes "I w" "\<And>w'. I w' \<Longrightarrow> P w'"
  shows "holds P (tcp_close E K t w)"
  unfolding tcp_close_def Let_def
  by (intro wp close_tls_wp I_closing assms) auto

lemma tcp_abort_wp [wp]:
  "I w \<Longrightarrow> (\<And>w'. I w' \<Longrightarrow> P w') \<Longrightarrow> holds P (tcp_abort E K t w)"
  unfolding tcp_abort_def by (intro wp I_closing)

lemma close_from_read_handle_wp [wp]:
  assumes "I w" "\<And>r w'. I w' \<Longrightarrow> P (r, w')"
  shows "holds P (close_from_read_handle E K t w)"
  unfolding close_from_read_handle_def Let_def
  by (intro wp I_closing I_call assms)

lemma close_from_write_handle_wp [wp]:
  "I w \<Longrightarrow> (\<And>b w'. I w' \<Longrightarrow> P (b, w')) \<Longrightarrow> holds P (close_from_write_handle E t err w)"
  unfolding close_from_write_handle_def by (intro wp) (simp_all add: I_call)

lemma try_write_failed_wp [wp]:
  "I w \<Longrightarrow> (\<And>w'. I w' \<Longrightarrow> P w') \<Longrightarrow> holds P (try_write_failed E K t err w)"
  unfolding try_write_failed_def by (intro wp I_closing)

lemma I_buffer: "I w \<Longrightarrow> d \<noteq> [] \<Longrightarrow> I (upd_state t (\<lambda>st. st\<lparr>write_buf := write_buf st @ [d]\<rparr>) w)"
  unfolding upd_state_def by (rule I_upd_tcp) (simp_all add: evolve_defs)

lemma try_write_data_wp [wp]:
  assumes "I w" "data \<noteq> []" "\<And>n. k_write K = SysOk n \<Longrightarrow> n \<le> length data" "\<And>n w'. I w' \<Longrightarrow> P (n, w')"
  shows "holds P (try_write_data E K t data w)"
  unfolding try_write_data_def Let_def
  by (intro wp assms(1,2,4) I_buffer sys_write_I) (use assms(3) in \<open>auto simp: le_less\<close>)

lemma try_write_account_wp [wp]:
  assumes "I w" "\<And>w'. I w' \<Longrightarrow> P w'"
  shows "holds P (try_write_account E t n w)"
  unfolding try_write_account_def Let_def upd_state_def
  by (intro wp I_upd_tcp assms) (simp_all add: evolve_defs)

lemma try_write_wp [wp]:
  assumes "I w" "\<And>n. k_write K = SysOk n \<Longrightarrow> n \<le> length data" "\<And>r w'. I w' \<Longrightarrow> P (r, w')"
  shows "holds P (try_write E K t data w)"
  unfolding try_write_def
  by (intro wp holds_prod I_upd_tcp assms) (auto simp: evolve_defs)

lemma write_eof_wp [wp]:
  assumes "I w" "\<And>w'. I w' \<Longrightarrow> P w'"
  shows "holds P (write_eof t w)"
  unfolding write_eof_def Let_def
  by (intro wp I_emit I_upd_tcp assms) (auto simp: evolve_defs)

lemma pause_reading_wp [wp]:
  "I w \<Longrightarrow> (\<And>w'. I w' \<Longrightarrow> P w') \<Longrightarrow> holds P (pause_reading t w)"
  unfolding pause_reading_def by (intro wp I_upd_tcp) (simp_all add: evolve_defs)

lemma resume_reading_wp [wp]:
  "I w \<Longrightarrow> (\<And>w'. I w' \<Longrightarrow> P w') \<Longrightarrow> holds P (resume_reading t w)"
  unfolding resume_reading_def by (intro wp I_upd_tcp) (simp_all add: evolve_defs)

subsection \<open>The read and write handles\<close>

lemma I_enqueue: "I w \<Longrightarrow> I (push_ready (HCB (fst (new_handle cb w))) (snd (new_handle cb w)))"
  by (intro I_push_ready I_new_handle) (simp_all add: handle_known_def new_handle_def)

lemma I_enqueue_at: "I w \<Longrightarrow> I (push_sched (HCB (fst (new_handle cb w))) tm (snd (new_handle cb w)))"
  by (intro I_push_sched I_new_handle) (simp_all add: handle_known_def new_handle_def)

lemma I_schedule1: "I w \<Longrightarrow> I (schedule1 cb arg ctx w)"
  using I_enqueue [of w "CBHandle_new1 cb arg (ctx_or_base ctx w)"]
  by (simp add: schedule1_def case_prod_beta' Let_def I_wake)

lemma I_handshake_done: "I w \<Longrightarrow> I (tls_handshake_done E t f w)"
  unfolding tls_handshake_done_def Let_def upd_state_def
  by (auto intro!: I_schedule1 I_upd_tcp simp: evolve_defs split: option.split)

lemma tls_feed_wp [wp]:
  assumes "I w" "\<And>b w'. I w' \<Longrightarrow> P (b, w')"
  shows "holds P (tls_feed E t b w)"
  unfolding tls_feed_def Let_def upd_state_def
  by (intro wp holds_prod I_upd_tcp assms) (auto simp: evolve_defs)

lemma tls_want_write_wp [wp]:
  "I w \<Longrightarrow> (\<And>w'. I w' \<Longrightarrow> P w') \<Longrightarrow> holds P (tls_want_write E t w)"
  unfolding tls_want_write_def by (intro wp) simp_all

lemma tls_app_data_wp [wp]:
  assumes "I w" "\<And>d w'. I w' \<Longrightarrow> P (d, w')"
  shows "holds P (tls_app_data E t w)"
  unfolding tls_app_data_def Let_def upd_state_def
  by (intro wp holds_prod I_upd_tcp assms) (auto simp: evolve_defs)

lemma tls_closed_check_wp [wp]:
  assumes "I w" "\<And>d e w' s'. I w' \<Longrightarrow> P (d, e, w', s')"
  shows "holds P (tls_closed_check t w s)"
  unfolding tls_closed_check_def by (intro wp holds_prod assms)

lemma tcp_recv_wp [wp]:
  assumes "I w" "\<And>d e w' s'. I w' \<Longrightarrow> P (d, e, w', s')"
  shows "holds P (tcp_recv E t f room w s)"
  unfolding tcp_recv_def recv_buffered_def recv_direct_def recv_tls_def
  by (intro wp holds_prod I_handshake_done I_emit assms) simp_all

lemma I_deliver: "I w \<Longrightarrow> I (deliver E t d w)"
  by (simp add: deliver_def I_call split: option.split)

lemma read_loop_keeps: "I w \<Longrightarrow> holds (\<lambda>(_, w', _). I w') (read_loop E t f room w s)"
proof (induction "script_size s" arbitrary: w s rule: less_induct)
  case less
  have "holds (\<lambda>(_, w', _). I w')
      (case d of Some x \<Rightarrow> (let w2 = deliver E t x w1 in
          if \<not> e then read_loop E t f room w2 s1 else Ret (True, w2, s1)) | None \<Rightarrow> Ret (e, w1, s1))"
    if r: "tcp_recv E t f room w s = Ret (d, e, w1, s1)" for d e w1 s1
  proof -
    have "I w1" using holdsD [OF tcp_recv_wp [OF less.prems, of "\<lambda>(_, _, w', _). I w'"] r] by simp
    then show ?thesis
      unfolding Let_def by (intro wp less.hyps) (use r tcp_recv_consumes in \<open>auto simp: I_deliver\<close>)
  qed
  then show ?case
    unfolding read_loop.simps [of E t f room w s] by (intro holds_bind) (auto simp: holds_def)
qed

lemma read_loop_wp [wp]:
  assumes "I w" "\<And>b w' s'. I w' \<Longrightarrow> P (b, w', s')"
  shows "holds P (read_loop E t f room w s)"
  by (rule holds_mono [OF read_loop_keeps [OF assms(1)]]) (auto intro: assms(2))

lemma recv_eof_wp [wp]:
  assumes "I w" "\<And>b w'. I w' \<Longrightarrow> P (b, w')"
  shows "holds P (recv_eof E K t f w)"
  unfolding recv_eof_def by (intro wp assms) simp_all

lemma read_handle_wp [wp]:
  assumes "I w" "\<And>w'. I w' \<Longrightarrow> P w'"
  shows "holds P (TCPReadHandle_run E K f room s w)"
  unfolding TCPReadHandle_run_def by (intro wp holds_prod assms) simp_all

lemma write_plain_wp [wp]:
  assumes "I w" "\<And>r w'. I w' \<Longrightarrow> P (r, w')"
  shows "holds P (write_plain t ks w)"
  unfolding write_plain_def Let_def upd_state_def
  by (intro wp holds_prod assms)
     (auto intro!: I_upd_tcp I_fold I_emit assms(1) simp: evolve_defs split: option.split
       dest: write_chunks_nonempty)

lemma write_tls_conn_wp [wp]:
  assumes "I w" "\<And>r w'. I w' \<Longrightarrow> P (r, w')"
  shows "holds P (write_tls_conn E t r1 r2 w)"
proof -
  have flush: "I v \<Longrightarrow> I (flush_trace f b r v)" for f b r v
    by (simp add: flush_trace_def sys_write_I)
  show ?thesis
    unfolding write_tls_conn_def Let_def upd_state_def
    by (intro wp holds_prod assms flush I_upd_tcp)
       (auto simp: evolve_defs flush_trace_def sys_write_def dest: encrypt_chunks_nonempty
         split: if_splits sysres.splits)
qed

lemma write_handle_write_wp [wp]:
  assumes "I w" "\<And>r w'. I w' \<Longrightarrow> P (r, w')"
  shows "holds P (TCPWriteHandle_write E t ks w)"
  unfolding TCPWriteHandle_write_def Let_def by (intro wp assms)

lemma send_pending_close_wp [wp]:
  assumes "I w" "\<And>w'. I w' \<Longrightarrow> P w'"
  shows "holds P (send_pending_close E K t w)"
  unfolding send_pending_close_def Let_def upd_state_def
  by (intro wp holds_prod assms sys_write_I I_upd_tcp) (simp_all add: evolve_defs)

lemma after_write_wp [wp]:
  assumes "I w" "\<And>r w'. I w' \<Longrightarrow> P (r, w')"
  shows "holds P (after_write E K t res w)"
  unfolding after_write_def by (intro wp assms)

lemma write_handle_wp [wp]:
  assumes "I w" "\<And>w'. I w' \<Longrightarrow> P w'"
  shows "holds P (TCPWriteHandle_run E K f ks w)"
  unfolding TCPWriteHandle_run_def by (intro wp holds_prod assms I_emit) simp_all

subsection \<open>UDP transports\<close>

lemma udp_proto_pause_wp [wp]: "I w \<Longrightarrow> (\<And>w'. I w' \<Longrightarrow> P w') \<Longrightarrow> holds P (udp_proto_pause E u w)"
  unfolding udp_proto_pause_def by (intro wp) (auto intro: I_log)

lemma udp_proto_resume_wp [wp]: "I w \<Longrightarrow> (\<And>w'. I w' \<Longrightarrow> P w') \<Longrightarrow> holds P (udp_proto_resume E u w)"
  unfolding udp_proto_resume_def by (intro wp) (auto intro: I_log)

lemma udp_write_buf_size_decr_wp [wp]:
  "I w \<Longrightarrow> (\<And>w'. I w' \<Longrightarrow> P w') \<Longrightarrow> holds P (udp_write_buf_size_decr E u w)"
  unfolding udp_write_buf_size_decr_def by (intro wp I_upd_udp) (simp_all add: evolve_defs)

lemma udp_set_write_buffer_limits_wp [wp]:
  assumes "I w" "\<And>r w'. I w' \<Longrightarrow> P (r, w')"
  shows "holds P (udp_set_write_buffer_limits E u hi lo w)"
  unfolding udp_set_write_buffer_limits_def Let_def
  by (rule holds_prod, intro wp I_upd_udp assms) (auto simp: evolve_defs)

lemma udp_call_conn_lost_wp [wp]:
  "I w \<Longrightarrow> (\<And>w'. I w' \<Longrightarrow> P w') \<Longrightarrow> holds P (udp_call_conn_lost E u err w)"
  unfolding udp_call_conn_lost_def by (intro wp) (simp add: I_call)

lemma udp_try_send_wp [wp]:
  assumes "I w" "\<And>n w'. I w' \<Longrightarrow> P (n, w')"
  shows "holds P (udp_try_send E u data a r w)"
  unfolding udp_try_send_def Let_def
  by (intro wp assms I_emit I_upd_udp) (simp_all add: evolve_defs)

lemma udp_write_account_wp [wp]:
  assumes "I w" "\<And>w'. I w' \<Longrightarrow> P w'"
  shows "holds P (udp_write_account E u n w)"
  unfolding udp_write_account_def Let_def by (intro wp I_upd_udp assms) (simp_all add: evolve_defs)

lemma udp_write_wp [wp]:
  assumes "I w" "\<And>w'. I w' \<Longrightarrow> P w'"
  shows "holds P (udp_write E u data a r w)"
  unfolding udp_write_def Let_def
  by (intro wp holds_prod I_upd_udp assms) (auto intro!: I_upd_udp assms(1) simp: evolve_defs)

lemma sendto_wp [wp]:
  assumes "I w" "\<And>r w'. I w' \<Longrightarrow> P (r, w')"
  shows "holds P (sendto E parse_ip u data a r w)"
  unfolding sendto_def by (intro wp holds_prod assms)

lemma udp_close_wp [wp]:
  assumes "I w" "\<And>w'. I w' \<Longrightarrow> P w'"
  shows "holds P (udp_close E u w)"
  unfolding udp_close_def by (intro wp I_upd_udp assms) (simp_all add: evolve_defs)

lemma udp_abort_wp [wp]:
  assumes "I w" "\<And>w'. I w' \<Longrightarrow> P w'"
  shows "holds P (udp_abort E u w)"
  unfolding udp_abort_def by (intro wp I_upd_udp assms) (simp_all add: evolve_defs)

lemma udp_close_from_write_handle_wp [wp]:
  assumes "I w" "\<And>b w'. I w' \<Longrightarrow> P (b, w')"
  shows "holds P (udp_close_from_write_handle E u err w)"
  unfolding udp_close_from_write_handle_def by (intro wp I_call assms)

lemma I_udp_socket_close: "I w \<Longrightarrow> I (udp_socket_close f w)"
  by (simp add: udp_socket_close_def I_detach_udp)

lemma udp_read_loop_wp [wp]:
  assumes "I w" "\<And>w'. I w' \<Longrightarrow> P w'"
  shows "holds P (udp_read_loop E u f room s w)"
  using assms(1)
proof (induction s arbitrary: w)
  case Nil
  then show ?case by (auto intro!: wp assms(2))
next
  case (Cons r s)
  then show ?case by (cases r) (auto intro!: wp assms(2) I_call I_udp_socket_close)
qed

lemma udp_read_handle_wp [wp]:
  assumes "I w" "\<And>w'. I w' \<Longrightarrow> P w'"
  shows "holds P (UDPReadHandle_run E f room s w)"
  unfolding UDPReadHandle_run_def get_udp_transport_def by (intro wp assms)

lemma udp_handle_write_wp [wp]:
  assumes "I w" "\<And>r w'. I w' \<Longrightarrow> P (r, w')"
  shows "holds P (udp_handle_write u ks w)"
  unfolding udp_handle_write_def Let_def
  by (intro wp holds_prod assms)
     (auto intro!: I_upd_udp I_fold I_emit assms(1) simp: evolve_defs split: option.split)

lemma udp_write_handle_wp [wp]:
  assumes "I w" "\<And>w'. I w' \<Longrightarrow> P w'"
  shows "holds P (UDPWriteHandle_run E f ks w)"
  unfolding UDPWriteHandle_run_def get_udp_transport_def
  by (intro wp holds_prod assms I_udp_socket_close) simp_all

subsection \<open>Scheduling and the registry\<close>

lemma I_schedule:
  assumes "I w"
  shows "I (snd (call_soon cb args ctx cur w))" "I (snd (call_soon_threadsafe cb args ctx w))"
    "I (snd (call_later now d cb args c w))" "I (schedule0 cb ctx w)" "I (schedule cb args ctx w)"
    "I (schedule_later0 now d cb ctx w)" "I (schedule_later1 now d cb arg ctx w)"
    "I (schedule_later now d cb args ctx w)"
  using assms
  by (simp_all add: call_soon_def call_soon_threadsafe_def call_later_def schedule0_def schedule_def
      schedule_later0_def schedule_later1_def schedule_later_def case_prod_beta' Let_def I_wake I_enqueue
      I_enqueue_at)

lemma I_schedule_handle: "I w \<Longrightarrow> handle_known w h \<Longrightarrow> I (schedule_handle now h d w)"
  by (simp add: schedule_handle_def I_wake I_push_ready I_push_sched split: option.split)

lemma I_sig_add: "I w \<Longrightarrow> I (sig_add s cb args c w)"
  using I_sig_put [OF I_new_handle, of w "CBHandle_new cb args c" "next_obj w" s]
  by (simp add: sig_add_def Let_def new_handle_def)

lemma I_sig_rem: "I w \<Longrightarrow> I (snd (sig_rem s w))" "I w \<Longrightarrow> I (sig_clear w)"
  by (auto simp: sig_rem_def sig_clear_def map_le_def intro!: I_sig_del)

lemma I_reregister_new:
  assumes "I w" "handles_io w f \<noteq> None" "entry_ok (snd (new_handle h w)) f d" "watch_ok i d"
  shows "I (set_io f d (emit (Poll (Reregister f i)) (snd (new_handle h w))))"
  using assms by (intro I_reregister I_new_handle) (simp_all add: new_handle_def)

lemma py_handle_wp:
  assumes "I w" "\<And>x w'. I w' \<Longrightarrow> P (x, w')"
  shows "holds P (add_reader f h w)" "holds P (add_writer f h w)"
  using assms(1) I_entry [OF assms(1), of f]
  by (auto simp: add_reader_def add_writer_def Let_def case_prod_beta' holds_def and_then_eq_Ret_iff entry_ok_def
      py_data_ok_def new_handle_def unwrap_def
      intro!: assms(2) I_reregister_new [unfolded new_handle_def snd_conv] I_register
        I_new_handle [unfolded new_handle_def snd_conv]
      split: option.splits IOHandle.splits)

lemma py_handle_rem_wp:
  assumes "I w" "\<And>x w'. I w' \<Longrightarrow> P (x, w')"
  shows "holds P (remove_reader f w)" "holds P (remove_writer f w)"
  using assms(1) I_entry [OF assms(1), of f]
  by (auto simp: remove_reader_def remove_writer_def holds_def and_then_eq_Ret_iff entry_ok_def py_data_ok_def
      unwrap_def intro!: assms(2) I_reregister I_drop_entry split: option.splits IOHandle.splits if_splits)

lemma I_ssock_ops:
  "I w \<Longrightarrow> I (snd (ssock_set r v ok w))" "I w \<Longrightarrow> I (snd (ssock_del r ok w))"
  by (auto simp: ssock_set_def ssock_del_def Let_def
      intro!: I_register I_ssock I_drop_entry I_del_io intro: I_emit)

subsection \<open>Servers and accepted streams\<close>

lemma I_listener_add: "I w \<Longrightarrow> I (tcp_listener_add s w)"
proof -
  assume "I w"
  let ?w = "w\<lparr>tcp_lstreams := (tcp_lstreams w)(sref_fd s \<mapsto> {})\<rparr>"
  have "I ?w" using \<open>I w\<close> by (rule I_lstreams) auto
  then have "I (set_io (sref_fd s) (IOTCPListener s) (emit (Poll (Register (sref_fd s) {READABLE})) ?w))"
    by (rule I_register) (simp_all add: entry_ok_def)
  then show ?thesis by (simp add: tcp_listener_add_def Let_def emit_lstreams)
qed

lemma listener_rem_wp [wp]:
  assumes "I w" "\<And>x w'. I w' \<Longrightarrow> P (x, w')"
  shows "holds P (tcp_listener_rem f ok w)"
proof -
  have "I (emit (Poll (Deregister f)) ((del_io f w)\<lparr>tcp_lstreams := (tcp_lstreams (del_io f w))(f := None)\<rparr>))"
    by (intro I_deregister I_lstreams_del I_del_io assms) simp_all
  then show ?thesis
    using assms by (auto simp: tcp_listener_rem_def holds_def Let_def split: option.splits IOHandle.splits)
qed

lemma I_listen_all: "I w \<Longrightarrow> I (snd (listen_all srvs oks w))"
  by (induction srvs arbitrary: w) (auto simp: listen_def I_listener_add)

lemma for_each_wp:
  assumes "I w" "\<And>t v. I v \<Longrightarrow> holds I (op t v)" "\<And>w'. I w' \<Longrightarrow> P w'"
  shows "holds P (for_each op ts w)"
proof -
  have "holds I (for_each op ts w)"
    using assms(1) by (induction ts arbitrary: w) (auto intro!: wp intro: holds_mono [OF assms(2)])
  then show ?thesis by (rule holds_mono) (rule assms(3))
qed

lemma each_server_wp:
  assumes "I w" "\<And>s v. I v \<Longrightarrow> holds I (op s v)" "\<And>w'. I w' \<Longrightarrow> P w'"
  shows "holds P (each_server op ss w)"
proof -
  have "holds I (each_server op ss w)"
    using assms(1) by (induction ss arbitrary: w) (auto intro!: wp intro: holds_mono [OF assms(2)])
  then show ?thesis by (rule holds_mono) (rule assms(3))
qed

lemma streams_wp [wp]:
  assumes "I w" "\<And>w'. I w' \<Longrightarrow> P w'"
  shows "holds P (streams_close E Ks srv order w)" "holds P (streams_abort E Ks srv order w)"
  unfolding streams_close_def streams_abort_def by (intro for_each_wp wp assms; assumption)+

lemma server_close_wp:
  assumes "I w" "\<And>x w'. I w' \<Longrightarrow> P (x, w')"
  shows "holds P (Server_close E Ks order ok sv w)"
  unfolding Server_close_def TCPServer_close_def by (intro wp holds_prod each_server_wp assms) simp_all

lemma server_streams_wp:
  assumes "I w" "\<And>w'. I w' \<Longrightarrow> P w'"
  shows "holds P (Server_streams_close E Ks order sv w)" "holds P (Server_streams_abort E Ks order sv w)"
  unfolding Server_streams_close_def Server_streams_abort_def by (intro each_server_wp wp assms; assumption)+

text \<open>A new stream's transport is there, with the stream's descriptor.\<close>

lemma new_stream_wp:
  assumes "I w" "\<And>t T h w'. I w' \<Longrightarrow> tcp_objs w' t = Some T \<Longrightarrow> tfd T = f \<Longrightarrow> P ((t, h), w')"
  shows "holds P (new_stream E sref f ctx w)"
proof -
  have step: "holds P (case new_transport T v of (t, w2) \<Rightarrow>
       if b then Ret ((t, HNoOp), w2)
       else and_then (unwrap m) (\<lambda>cm. case new_handle (CBHandle_new1 cm t ctx) w2 of (h, w3) \<Rightarrow> Ret ((t, HCB h), w3)))"
    if v: "I v" "tcp_wf T" "tfd T = f" for v T b m
  proof -
    let ?v = "snd (new_transport T v)"
    have v': "I ?v" "tcp_objs ?v (next_obj v) = Some T" by (rule I_new_tcp [OF v(1,2)]) (simp add: new_transport_def)
    have "I (snd (new_handle h ?v)) \<and> tcp_objs (snd (new_handle h ?v)) (next_obj v) = Some T" for h
      using I_new_handle [OF v'(1), of h] v'(2) by (simp add: new_handle_def)
    then show ?thesis
      using v' v(3) by (auto simp: case_prod_beta' new_transport_def new_handle_def intro!: wp assms(2))
  qed
  show ?thesis
    unfolding new_stream_def Let_def
    by (intro wp step assms tcp_wf_new) (simp_all add: TCPTransport_new_def initialize_tls_server_def Let_def)
qed

lemma accept_all_wp [wp]:
  assumes "I w" "\<And>hs w'. I w' \<Longrightarrow> P (hs, w')"
  shows "holds P (accept_all E sref ctx fs handles w)"
  using assms(1)
proof (induction fs arbitrary: handles w)
  case Nil
  then show ?case by (simp add: wp assms(2))
next
  case (Cons f fs)
  have "I (set_io f (IOTCPStream {READABLE}) (emit (Poll (Register f {READABLE}))
      (v\<lparr>tcp_transports := (tcp_transports v)(f \<mapsto> t),
         tcp_lstreams := (tcp_lstreams v)(l := map_option (insert f) (tcp_lstreams v l))\<rparr>)))"
    if "I v" "tcp_objs v t = Some T" "tfd T = f" for v t T l
    using I_lstreams [OF I_attach [OF that(1,2)], of "(tcp_lstreams v)(l := map_option (insert f) (tcp_lstreams v l))"] that(3)
      dom_insert_at [of "tcp_lstreams v" l "insert f"]
    by (intro I_register) simp_all
  then show ?case
    unfolding accept_all.simps Let_def
    by (intro holds_bind new_stream_wp [OF Cons.prems]) (auto intro!: Cons.IH)
qed

subsection \<open>Connections\<close>

lemma call_tcp:
  assumes "I w" "tcp_objs w t = Some T"
  shows "\<exists>T'. tcp_objs (snd (call_py E c w)) t = Some T' \<and> tcp_evolves T T'"
  using py_tcp [of "emit (Py c) w" t T c] assms by (simp add: call_py_def I_emit)

lemma call_udp:
  assumes "I w" "udp_objs w u = Some U"
  shows "\<exists>U'. udp_objs (snd (call_py E c w)) u = Some U' \<and> udp_evolves U U'"
  using py_udp [of "emit (Py c) w" u U c] assms by (simp add: call_py_def I_emit)

lemma attach_wp:
  assumes "I w" "tcp_objs w t = Some T" "\<And>r T' w'. I w' \<Longrightarrow> tcp_objs w' t = Some T' \<Longrightarrow> tfd T' = tfd T \<Longrightarrow> P (r, w')"
  shows "holds P (attach E t w)"
proof -
  let ?w = "snd (call_py E (ConnectionMade (proto T) t) w)"
  obtain T' where "tcp_objs ?w t = Some T'" "tfd T' = tfd T"
    using call_tcp [OF assms(1,2)] by (auto simp: tcp_evolves_def)
  then show ?thesis
    using assms I_call [OF assms(1), of "ConnectionMade (proto T) t"]
    by (auto simp: attach_def borrow_def with_tcp_def holds_def case_prod_beta' split: pyres.splits if_splits)
qed

lemma initialize_tls_client_wp:
  assumes "I w" "\<And>T' w'. I w' \<Longrightarrow> T' = T\<lparr>tstate := (tstate T)\<lparr>tls_conn := Some c, handshake_complete := False\<rparr>\<rparr> \<Longrightarrow> P (T', w')"
  shows "holds P (initialize_tls_client E c T w)"
  unfolding initialize_tls_client_def Let_def by (intro wp assms) simp_all

lemma tcp_from_py_wp:
  assumes "I w" "\<And>p b e v. I v \<Longrightarrow> holds P (k (TCPTransport_new f p b None e) v)"
  shows "holds P (and_then (TCPTransport_from_py E f pf w) (\<lambda>(T, v). k T v))"
  unfolding TCPTransport_from_py_def by (intro wp) (auto intro!: assms)

lemma tcp_conn_wp:
  assumes "I w" "\<And>x w'. I w' \<Longrightarrow> P (x, w')"
  shows "holds P (tcp_conn E f pf ssl w)"
proof -
  have fin: "holds P (case new_transport T v of (t, w3) \<Rightarrow>
       and_then (attach E t w3) (\<lambda>(res, w4).
         case res of Inl e \<Rightarrow> Ret (Inl e, w4)
         | Inr pr \<Rightarrow> and_then (tcp_stream_add f {READABLE} (w4\<lparr>tcp_transports := (tcp_transports w4)(f \<mapsto> t)\<rparr>))
             (\<lambda>w5. Ret (Inr (t, pr), w5))))" if v: "I v" "tcp_wf T" "tfd T = f" for v T
  proof -
    let ?v = "snd (new_transport T v)"
    have v': "I ?v" "tcp_objs ?v (next_obj v) = Some T" by (rule I_new_tcp [OF v(1,2)]) (simp add: new_transport_def)
    have att: "I (u\<lparr>tcp_transports := (tcp_transports u)(f \<mapsto> t)\<rparr>)"
      if "I u" "tcp_objs u t = Some T'" "tfd T' = tfd T" for u t T'
      using I_attach [OF that(1,2)] that(3) v(3) by simp
    have "fst (new_transport T v) = next_obj v" by (simp add: new_transport_def)
    then show ?thesis
      unfolding case_prod_beta'
      by (intro holds_bind attach_wp [OF v'(1)]) (auto intro!: wp assms(2) simp: v' intro: att)
  qed
  have wf: "tcp_wf ((TCPTransport_new f p b None e)\<lparr>tstate := (tstate (TCPTransport_new f p b None e))
      \<lparr>tls_conn := Some c, handshake_complete := False\<rparr>\<rparr>)" for p b e c
    by (simp add: tcp_wf_def TCPTransport_new_def Let_def)
  show ?thesis
    unfolding tcp_conn_def Let_def
    by (rule tcp_from_py_wp, rule assms, intro wp holds_prod initialize_tls_client_wp fin assms tcp_wf_new)
       (auto simp: wf tcp_wf_new, simp_all add: TCPTransport_new_def Let_def)
qed

lemma udp_from_py_wp:
  assumes "I w" "\<And>p a v. I v \<Longrightarrow> holds P (k (UDPTransport_new f p a) v)"
  shows "holds P (and_then (UDPTransport_from_py E parse_ip f pf remote w) (\<lambda>(U, v). k U v))"
  unfolding UDPTransport_from_py_def and_then_assoc by (intro wp holds_prod) (auto intro!: wp assms)

lemma udp_attach_wp:
  assumes "I w" "udp_objs w u = Some U" "\<And>r U' w'. I w' \<Longrightarrow> udp_objs w' u = Some U' \<Longrightarrow> ufd U' = ufd U \<Longrightarrow> P (r, w')"
  shows "holds P (udp_attach E u w)"
proof -
  let ?w = "snd (call_py E (ConnectionMade (u_proto U) u) w)"
  obtain U' where "udp_objs ?w u = Some U'" "ufd U' = ufd U"
    using call_udp [OF assms(1,2)] by (auto simp: udp_evolves_def)
  then show ?thesis
    using assms I_call [OF assms(1), of "ConnectionMade (u_proto U) u"]
    by (auto simp: udp_attach_def with_udp_def holds_def case_prod_beta' split: pyres.splits)
qed

lemma udp_conn_wp:
  assumes "I w" "\<And>x w'. I w' \<Longrightarrow> P (x, w')"
  shows "holds P (udp_conn E parse_ip f pf remote w)"
proof -
  have att: "I (v\<lparr>udp_transports := (udp_transports v)(f \<mapsto> u)\<rparr>)"
    if "I v" "udp_objs v u = Some U'" "ufd U' = ufd (UDPTransport_new f p a)" for v u U' p a
    using I_attach_udp [OF that(1,2)] that(3) by (simp add: UDPTransport_new_def Let_def)
  have new: "I (v\<lparr>udp_objs := (udp_objs v)(next_obj v \<mapsto> UDPTransport_new f p a), next_obj := Suc (next_obj v)\<rparr>)"
    if "I v" for v p a
    using that by (rule I_new_udp) (simp add: udp_wf_def UDPTransport_new_def Let_def)
  show ?thesis
    unfolding udp_conn_def Let_def
    by (rule udp_from_py_wp, rule assms, intro wp holds_prod udp_attach_wp new assms) (auto intro!: wp assms(2) intro: att)
qed

subsection \<open>Events, handles and steps\<close>

lemma I_sig_handle: "I w \<Longrightarrow> I (snd (sig_handle s (hs, w)))"
  by (auto simp: sig_handle_def Let_def same_core_def split: option.split intro!: I_sig_rem I_core [of w])

lemma fold_sig_handle: "I (snd hw) \<Longrightarrow> I (snd (fold sig_handle ss hw))"
proof (induction ss arbitrary: hw)
  case (Cons s ss)
  then show ?case using I_sig_handle [of "snd hw" s "fst hw"] by simp
qed simp

lemma dispatch_wp [wp]:
  assumes "I w" "\<And>hs w'. I w' \<Longrightarrow> P (hs, w')"
  shows "holds P (dispatch E ctx evs handles w)"
  using assms(1)
proof (induction evs arbitrary: handles w)
  case Nil
  then show ?case by (simp add: wp assms(2))
next
  case (Cons ev evs)
  have "I (snd (handle_io_signals ev handles w))"
    using Cons.prems fold_sig_handle [of "(handles, w)"] by (simp add: handle_io_signals_def Let_def)
  then show ?case
    using Cons.prems
    by (auto simp: handle_io_tcpl_def case_prod_beta' split: option.split IOHandle.split intro!: wp Cons.IH)
qed

lemma run_handle_wp [wp]:
  assumes "I w" "\<And>w'. I w' \<Longrightarrow> P w'"
  shows "holds P (run_handle E env h w)"
  using assms by (cases h) (auto intro!: wp I_run)

lemma run_batch_wp [wp]:
  assumes "I w" "\<And>w'. I w' \<Longrightarrow> P w'"
  shows "holds P (run_batch E envs n hs w)"
  using assms(1) by (induction hs arbitrary: n w) (auto intro!: wp assms(2))

lemma I_arrivals:
  "I w \<Longrightarrow> \<forall>h \<in> set hs. handle_known w h \<Longrightarrow> I (fold (\<lambda>h w. wake (push_ready h w)) hs w)"
proof (induction hs arbitrary: w)
  case (Cons h hs)
  then have "\<forall>h' \<in> set hs. handle_known (wake (push_ready h w)) h'" by (simp add: handle_known_def)
  then show ?case using Cons by (simp add: I_wake I_push_ready)
qed simp

lemma I_poll_sleep: "I w \<Longrightarrow> \<forall>h \<in> set hs. handle_known w h \<Longrightarrow> I (poll_sleep st hs w)"
  unfolding poll_sleep_def Let_def by (auto intro!: I_idle I_arrivals I_emit simp: handle_known_def)

lemma drain_wp:
  "I v \<Longrightarrow> (\<And>b s. I (v\<lparr>handles_sched := s\<rparr>) \<Longrightarrow> P (b, s)) \<Longrightarrow> holds P (drain_timers now (handles_sched v) hs)"
  using I_drain by (auto simp: holds_def)

lemma take_ready_wp:
  "I v \<Longrightarrow> (\<And>hs v'. I v' \<Longrightarrow> holds P (k hs v')) \<Longrightarrow> holds P (case take_ready v of (hs, v') \<Rightarrow> k hs v')"
  using I_take_ready [of v] by (cases "take_ready v") simp

lemma collect_wp [wp]:
  assumes "I w" "\<forall>h \<in> set (si_arrived si). handle_known w h" "\<And>hs w'. I w' \<Longrightarrow> P (hs, w')"
  shows "holds P (collect E si tick w)"
  unfolding collect_def Let_def
  by (rule holds_prod, rule take_ready_wp)
     (auto intro!: wp drain_wp assms(3) intro: I_poll_sleep [OF assms(1,2)] assms(1) split: if_splits)

lemma step_wp:
  assumes "I w" "\<forall>h \<in> set (si_arrived si). handle_known w h" "\<And>r tl w'. I w' \<Longrightarrow> P (r, tl, w')"
  shows "holds P (step E si tick w)"
  unfolding step_def Let_def by (intro wp holds_prod assms) (auto intro!: wp assms)

subsection \<open>Every operation\<close>

lemma I_attributes:
  assumes "I w"
  shows "I (set_thread_id tid w)" "I (set_closed b w)" "I (set_stopping b w)"
    "I (set_asyncgens_shutdown_called b w)" "I (set_default_executor x w)" "I (set_exc_handler x w)"
    "I (set_exception_handler x w)" "I (set_executor_shutdown_called b w)" "I (set_sig_listening b w)"
    "I (set_sig_wfd x w)" "I (set_ssock_r x w)" "I (set_ssock_w x w)" "I (set_task_factory x w)"
    "I (set_watcher_child x w)" "I (w\<lparr>sig_loop_handled := b\<rparr>)"
  by (rule I_core [OF assms], (rule thread_id.set_core closed.set_core stopping.set_core
    asyncgens_shutdown_called.set_core default_executor.set_core exc_handler.set_core
    exception_handler.set_core executor_shutdown_called.set_core sig_listening.set_core
    sig_wfd.set_core ssock_r.set_core ssock_w.set_core task_factory.set_core watcher_child.set_core
    | simp add: same_core_def))+

lemmas op_wps =
  tcp_conn_wp udp_conn_wp try_write_wp write_eof_wp pause_reading_wp resume_reading_wp
  set_write_buffer_limits_wp tcp_close_wp tcp_abort_wp call_conn_lost_wp sendto_wp
  udp_set_write_buffer_limits_wp udp_close_wp udp_abort_wp server_close_wp server_streams_wp
  py_handle_wp py_handle_rem_wp step_wp

lemma I_start_serving: "I w \<Longrightarrow> I (snd (snd (start_serving sv oks w)))"
  using I_listen_all [of w "sv_servers sv" oks]
  by (cases "listen_all (sv_servers sv) oks w") (simp add: start_serving_def split: sum.split)

lemma ret_I:
  "m = Ret w' \<Longrightarrow> (\<And>P. (\<And>v. I v \<Longrightarrow> P v) \<Longrightarrow> holds P m) \<Longrightarrow> I w'"
  "m' = Ret (x, w') \<Longrightarrow> (\<And>P. (\<And>x v. I v \<Longrightarrow> P (x, v)) \<Longrightarrow> holds P m') \<Longrightarrow> I w'"
  "m'' = Ret (x, y, w') \<Longrightarrow> (\<And>P. (\<And>x y v. I v \<Longrightarrow> P (x, y, v)) \<Longrightarrow> holds P m'') \<Longrightarrow> I w'"
  using holdsD [where P = I and a = w'] holdsD [where P = "\<lambda>(x, v). I v" and a = "(x, w')"]
    holdsD [where P = "\<lambda>(x, y, v). I v" and a = "(x, y, w')"] by fastforce+

lemma loop_op_keeps: "loop_op E w w' \<Longrightarrow> I w \<Longrightarrow> I w'"
proof (induction rule: loop_op.induct)
qed (simp_all add: I_schedule I_schedule1 I_schedule_handle I_cancel I_sig_add I_sig_rem
    I_attributes I_ssock_ops I_start_serving writelines_def,
  (erule ret_I, rule op_wps, assumption, (assumption | blast)+)+)

end

end
