(* ===== verification/Tcp_Session.thy ===== *)
theory Tcp_Session
  imports Loop_Ops
begin

text \<open>
  A connection from its first operation to its end when nothing disturbs it: any sequence of the
  calls Python makes on an open mio transport without TLS and of the readiness handles the loop
  runs for it, without errors of the kernel and before the stream ends, composed from
  \<open>Tcp_Transport\<close> and \<open>Tcp_Handles\<close>. The specification is a pair of byte streams; the transport
  refines it step by step, and after \<^verbatim>\<open>close\<close> the loop's write handles send everything that was
  accepted before the connection is reported lost.
\<close>

section \<open>Refinement of an abstract machine by operations with a budget\<close>

primrec run_events :: "('e \<Rightarrow> 's \<Rightarrow> 's outcome) \<Rightarrow> 'e list \<Rightarrow> 's \<Rightarrow> 's outcome" where
  "run_events f [] s = Ret s"
| "run_events f (e # es) s = and_then (f e s) (run_events f es)"

text \<open>
  The interface: states \<open>ok\<close> of the concrete machine, operations that return as long as the
  size of the state and the cost of the operation fit the limit, and the abstract step they refine.
\<close>

locale budgeted_refinement =
  fixes ok :: "'s \<Rightarrow> bool" and step :: "'e \<Rightarrow> 's \<Rightarrow> 's outcome" and good :: "'e \<Rightarrow> bool"
    and size_of :: "'s \<Rightarrow> nat" and cost :: "'e \<Rightarrow> nat" and limit :: nat
    and view :: "'s \<Rightarrow> 'v" and spec :: "'e \<Rightarrow> 'v \<Rightarrow> 'v" and env_ok :: bool
  assumes step_refines: "ok s \<Longrightarrow> good e \<Longrightarrow> size_of s + cost e < limit \<Longrightarrow> env_ok \<Longrightarrow>
    \<exists>s'. step e s = Ret s' \<and> ok s' \<and> size_of s' \<le> size_of s + cost e \<and> view s' = spec e (view s)"
begin

lemma run_refines:
  "ok s \<Longrightarrow> list_all good es \<Longrightarrow> size_of s + sum_list (map cost es) < limit \<Longrightarrow> env_ok \<Longrightarrow>
    \<exists>s'. run_events step es s = Ret s' \<and> ok s' \<and> size_of s' \<le> size_of s + sum_list (map cost es)
       \<and> view s' = fold spec es (view s)"
proof (induction es arbitrary: s)
  case (Cons e es)
  have "size_of s + cost e < limit" using Cons.prems(3) by simp
  then obtain s1 where s1: "step e s = Ret s1" "ok s1" "size_of s1 \<le> size_of s + cost e"
    "view s1 = spec e (view s)" using step_refines [OF Cons.prems(1)] Cons.prems(2,4) by auto
  moreover have "\<exists>s'. run_events step es s1 = Ret s' \<and> ok s' \<and> size_of s' \<le> size_of s1 + sum_list (map cost es)
      \<and> view s' = fold spec es (view s1)"
    using Cons.IH [OF s1(2)] Cons.prems s1(3) by simp
  ultimately show ?case by fastforce
qed simp

end

section \<open>What Python is given\<close>

text \<open>Operations that deliver no data leave what a protocol has received as it is.\<close>

lemma received_py_calls:
  "received p tr = concat (map (\<lambda>c. case c of DataReceived q b \<Rightarrow> if q = p then b else [] | _ \<Rightarrow> []) (py_calls tr))"
  by (induction tr) (auto simp: received_def py_calls_def split: effect.split)

lemma received_frame: "io_frame w w' \<Longrightarrow> received p (trace w') = received p (trace w)"
  using io_frame_fields(5) [of w w'] by (simp add: received_py_calls)

lemma received_call_other:
  "py_delivers_nothing E \<Longrightarrow> (\<And>q b. c \<noteq> DataReceived q b) \<Longrightarrow>
     received p (trace (snd (call_py E c w))) = received p (trace w)"
  by (simp add: received_call_py) (simp add: received_def split: pycall.split)

lemma received_other [simp]:
  "received p [Poll q] = []" "received p [Wake] = []" "received p [Sent f b] = []"
  by (simp_all add: received_def)

lemma received_emit [simp]:
  "received p (trace (wake w)) = received p (trace w)"
  "received p (map (Sent f) bs) = []"
  by (auto simp: wake_def received_def)

definition silent :: "'c ext \<Rightarrow> pyobj \<Rightarrow> bytes \<Rightarrow> 'c world \<Rightarrow> bool" where
  "silent E p R w = (py_delivers_nothing E \<and> received p (trace w) = R)"

lemma silent_simps [simp]:
  "silent E p R (upd_tcp t g w) = silent E p R w"
  "silent E p R (upd_state t h w) = silent E p R w"
  "silent E p R (w\<lparr>tcp_transports := x\<rparr>) = silent E p R w"
  "silent E p R (w\<lparr>tcp_lstreams := y\<rparr>) = silent E p R w"
  "silent E p R (emit (Poll q) w) = silent E p R w"
  "silent E p R (emit (Sent f b) w) = silent E p R w"
  "silent E p R (emit (ShutdownWrite f) w) = silent E p R w"
  "silent E p R (set_io f io w) = silent E p R w"
  "silent E p R (del_io f w) = silent E p R w"
  "silent E p R (wake w) = silent E p R w"
  "silent E p R (fold (\<lambda>b. emit (Sent f b)) bs w) = silent E p R w"
  by (simp_all add: silent_def upd_state_def set_io_def del_io_def) (simp add: received_def)

lemma silent_call:
  "silent E p R w \<Longrightarrow> (\<And>q b. c \<noteq> DataReceived q b) \<Longrightarrow> silent E p R (snd (call_py E c w))"
  by (simp add: silent_def received_call_other)

lemma silent_call_wp [wp]:
  "silent E p R w \<Longrightarrow> (\<And>q b. c \<noteq> DataReceived q b) \<Longrightarrow>
     (\<And>r w1. silent E p R w1 \<Longrightarrow> holds P (k r w1)) \<Longrightarrow> holds P (case call_py E c w of (r, w1) \<Rightarrow> k r w1)"
  using silent_call [of E p R w c] by (cases "call_py E c w") simp

lemma silent_log: "silent E p R w \<Longrightarrow> silent E p R (log_exception E x w)"
  by (simp add: log_exception_def silent_call)

lemma silent_sys_write: "silent E p R w \<Longrightarrow> silent E p R (sys_write f d r w)"
  by (simp add: sys_write_def split: sysres.split)

lemma silent_registry [wp]:
  "silent E p R w \<Longrightarrow> (\<And>w'. silent E p R w' \<Longrightarrow> P w') \<Longrightarrow> holds P (tcp_stream_add f i w)"
  "silent E p R w \<Longrightarrow> (\<And>w'. silent E p R w' \<Longrightarrow> P w') \<Longrightarrow> holds P (tcp_stream_rem f i w)"
  by (auto simp: tcp_stream_add_def tcp_stream_rem_def holds_def Let_def
      split: option.splits IOHandle.splits if_splits)

lemma silent_is_tls [wp]:
  "(\<And>T. tcp_objs w t = Some T \<Longrightarrow> P (tls_conn (tstate T) \<noteq> None)) \<Longrightarrow> holds P (is_tls t w)"
  unfolding is_tls_def by (intro wp)

lemma proto_pause_silent [wp]:
  assumes "silent E p R w" "\<And>w'. silent E p R w' \<Longrightarrow> P w'"
  shows "holds P (proto_pause E t w)"
  unfolding proto_pause_def by (intro wp holds_prod assms silent_log) (use assms in \<open>simp_all\<close>)

lemma proto_resume_silent [wp]:
  assumes "silent E p R w" "\<And>w'. silent E p R w' \<Longrightarrow> P w'"
  shows "holds P (proto_resume E t w)"
  unfolding proto_resume_def by (intro wp holds_prod assms silent_log) (use assms in \<open>simp_all\<close>)

lemma write_buf_size_decr_silent [wp]:
  assumes "silent E p R w" "\<And>w'. silent E p R w' \<Longrightarrow> P w'"
  shows "holds P (write_buf_size_decr E t w)"
  unfolding write_buf_size_decr_def by (intro wp holds_prod assms(2)) (use assms in \<open>simp_all\<close>)

lemma limits_silent [wp]:
  assumes "silent E p R w" "\<And>r w'. silent E p R w' \<Longrightarrow> P (r, w')"
  shows "holds P (set_write_buffer_limits E t hi lo w)"
  unfolding set_write_buffer_limits_def Let_def by (intro wp holds_prod assms(2)) (use assms in \<open>simp_all\<close>)

lemma send_close_alert_silent [wp]:
  assumes "silent E p R w" "\<And>w'. silent E p R w' \<Longrightarrow> P w'"
  shows "holds P (send_close_alert E K t w)"
  unfolding send_close_alert_def Let_def by (intro wp holds_prod assms(2) silent_sys_write) (use assms in \<open>auto simp: silent_sys_write\<close>)

lemma close_tls_silent [wp]:
  assumes "silent E p R w" "\<And>w'. silent E p R w' \<Longrightarrow> P w'"
  shows "holds P (close_tls E K t w)"
  unfolding close_tls_def by (intro wp holds_prod assms(2)) (use assms in \<open>simp_all\<close>)

lemma tcp_stream_close_silent [wp]:
  assumes "silent E p R w" "\<And>w'. silent E p R w' \<Longrightarrow> P w'"
  shows "holds P (tcp_stream_close E K f w)"
  unfolding tcp_stream_close_def Let_def by (intro wp holds_prod assms(2)) (use assms in \<open>auto split: option.split\<close>)

lemma call_conn_lost_silent [wp]:
  assumes "silent E p R w" "\<And>w'. silent E p R w' \<Longrightarrow> P w'"
  shows "holds P (call_conn_lost E K t err w)"
  unfolding call_conn_lost_def by (intro wp holds_prod assms silent_call) (use assms in \<open>simp_all\<close>)

lemma close_from_write_handle_silent [wp]:
  assumes "silent E p R w" "\<And>r w'. silent E p R w' \<Longrightarrow> P (r, w')"
  shows "holds P (close_from_write_handle E t err w)"
  unfolding close_from_write_handle_def by (intro wp holds_prod assms silent_call) (use assms in \<open>simp_all\<close>)

lemma try_write_failed_silent [wp]:
  assumes "silent E p R w" "\<And>w'. silent E p R w' \<Longrightarrow> P w'"
  shows "holds P (try_write_failed E K t err w)"
  unfolding try_write_failed_def by (intro wp holds_prod assms(2)) (use assms in \<open>simp_all\<close>)

lemma try_write_data_silent [wp]:
  assumes "silent E p R w" "\<And>r w'. silent E p R w' \<Longrightarrow> P (r, w')"
  shows "holds P (try_write_data E K t data w)"
  unfolding try_write_data_def Let_def by (intro wp holds_prod assms(2)) (use assms in \<open>simp_all add: silent_sys_write\<close>)

lemma try_write_account_silent [wp]:
  assumes "silent E p R w" "\<And>w'. silent E p R w' \<Longrightarrow> P w'"
  shows "holds P (try_write_account E t n w)"
  unfolding try_write_account_def Let_def by (intro wp holds_prod assms(2)) (use assms in \<open>simp_all\<close>)

lemma try_write_silent [wp]:
  assumes "silent E p R w" "\<And>r w'. silent E p R w' \<Longrightarrow> P (r, w')"
  shows "holds P (try_write E K t data w)"
  unfolding try_write_def by (intro wp holds_prod assms(2)) (use assms in \<open>simp_all\<close>)

lemma pause_reading_silent [wp]:
  assumes "silent E p R w" "\<And>w'. silent E p R w' \<Longrightarrow> P w'"
  shows "holds P (pause_reading t w)"
  unfolding pause_reading_def by (intro wp holds_prod assms(2)) (use assms in \<open>simp_all\<close>)

lemma resume_reading_silent [wp]:
  assumes "silent E p R w" "\<And>w'. silent E p R w' \<Longrightarrow> P w'"
  shows "holds P (resume_reading t w)"
  unfolding resume_reading_def by (intro wp holds_prod assms(2)) (use assms in \<open>simp_all\<close>)

lemma write_plain_silent [wp]:
  assumes "silent E p R w" "\<And>r w'. silent E p R w' \<Longrightarrow> P (r, w')"
  shows "holds P (write_plain t ks w)"
  unfolding write_plain_def Let_def by (intro wp holds_prod assms(2)) (use assms in \<open>auto split: option.split\<close>)

lemma write_tls_conn_silent [wp]:
  assumes "silent E p R w" "\<And>r w'. silent E p R w' \<Longrightarrow> P (r, w')"
  shows "holds P (write_tls_conn E t r1 r2 w)"
  unfolding write_tls_conn_def Let_def by (intro wp holds_prod assms(2)) (use assms in \<open>auto simp: flush_trace_def silent_sys_write\<close>)

lemma write_silent [wp]:
  assumes "silent E p R w" "\<And>r w'. silent E p R w' \<Longrightarrow> P (r, w')"
  shows "holds P (TCPWriteHandle_write E t ks w)"
  unfolding TCPWriteHandle_write_def Let_def by (intro wp holds_prod assms(2)) (use assms in \<open>simp_all\<close>)

lemma send_pending_close_silent [wp]:
  assumes "silent E p R w" "\<And>w'. silent E p R w' \<Longrightarrow> P w'"
  shows "holds P (send_pending_close E K t w)"
  unfolding send_pending_close_def Let_def by (intro wp holds_prod assms(2)) (use assms in \<open>auto simp: silent_sys_write\<close>)

lemma after_write_silent [wp]:
  assumes "silent E p R w" "\<And>r w'. silent E p R w' \<Longrightarrow> P (r, w')"
  shows "holds P (after_write E K t res w)"
  unfolding after_write_def by (intro wp holds_prod assms(2)) (use assms in \<open>simp_all\<close>)

lemma write_handle_silent [wp]:
  assumes "silent E p R w" "\<And>w'. silent E p R w' \<Longrightarrow> P w'"
  shows "holds P (TCPWriteHandle_run E K f ks w)"
  unfolding TCPWriteHandle_run_def by (intro wp holds_prod assms(2)) (use assms in \<open>simp_all\<close>)

section \<open>Sessions\<close>

text \<open>
  What can happen to an open connection: a call of a method by Python, with the kernel's answer to
  a direct write, or one run of a readiness handle by the loop, with the answers the kernel gives
  to what is buffered at that moment or the stretch of the stream it has ready.
\<close>

datatype sess_event =
    Write kernel bytes
  | WriteLines kernel "bytes list"
  | SetLimits "nat option" "nat option"
  | PauseReading
  | ResumeReading
  | WriteReady kernel "bytes list \<Rightarrow> sysres list"
  | ReadReady kernel nat "rdres list"

definition sess_step :: "'c ext \<Rightarrow> nat \<Rightarrow> sess_event \<Rightarrow> 'c world \<Rightarrow> 'c world outcome" where
  "sess_step E t e w =
     (case e of
        Write K data \<Rightarrow> and_then (try_write E K t data w) (\<lambda>(_, w'). Ret w')
      | WriteLines K data \<Rightarrow> and_then (writelines E K t data w) (\<lambda>(_, w'). Ret w')
      | SetLimits high low \<Rightarrow> and_then (set_write_buffer_limits E t high low w) (\<lambda>(_, w'). Ret w')
      | PauseReading \<Rightarrow> pause_reading t w
      | ResumeReading \<Rightarrow> resume_reading t w
      | WriteReady K ker \<Rightarrow>
          with_tcp t w (\<lambda>T. TCPWriteHandle_run E K (tfd T) (ker (write_buf (tstate T))) w)
      | ReadReady K room s \<Rightarrow> with_tcp t w (\<lambda>T. TCPReadHandle_run E K (tfd T) room s w))"

text \<open>The kernel behaves, reports no error and does not reach the end of the stream.\<close>

definition event_ok :: "sess_event \<Rightarrow> bool" where
  "event_ok e =
     (case e of
        Write K data \<Rightarrow> write_answer_ok data (k_write K)
      | WriteLines K data \<Rightarrow> write_answer_ok (concat data) (k_write K)
      | SetLimits high low \<Rightarrow> (\<forall>l. low = Some l \<longrightarrow> 4 * l < usize_max1)
      | WriteReady K ker \<Rightarrow> (\<forall>bs. [] \<notin> set bs \<longrightarrow> answers_ok bs (ker bs))
      | ReadReady K room s \<Rightarrow> 0 < room \<and> steady s \<and> RdOk [] \<notin> set s
      | _ \<Rightarrow> True)"

text \<open>The specification: a descriptor and a protocol with two byte streams, one in each direction.\<close>

record stream =
  st_fd :: fd
  st_proto :: pyobj
  st_out :: bytes
  st_in :: bytes

definition sess_written :: "sess_event \<Rightarrow> bytes" where
  "sess_written e = (case e of Write K data \<Rightarrow> data | WriteLines K data \<Rightarrow> concat data | _ \<Rightarrow> [])"

definition sess_read :: "sess_event \<Rightarrow> bytes" where
  "sess_read e = (case e of ReadReady K room s \<Rightarrow> rd_bytes s | _ \<Rightarrow> [])"

definition stream_step :: "sess_event \<Rightarrow> stream \<Rightarrow> stream" where
  "stream_step e st = st\<lparr>st_out := st_out st @ sess_written e, st_in := st_in st @ sess_read e\<rparr>"

text \<open>An open transport without TLS, attached to the loop, with a protocol that is not buffered.\<close>

definition open_plain :: "nat \<Rightarrow> 'c world \<Rightarrow> bool" where
  "open_plain t w =
     (tcp_inv t w
      \<and> (case tcp_objs w t of
           None \<Rightarrow> False
         | Some T \<Rightarrow> tls_conn (tstate T) = None \<and> \<not> tls_pending_close (tstate T) \<and> \<not> closing T
             \<and> \<not> weof T \<and> \<not> proto_buffered T \<and> tcp_transports w (tfd T) = Some t))"

definition stream_of :: "nat \<Rightarrow> 'c world \<Rightarrow> stream" where
  "stream_of t w =
     (case tcp_objs w t of
        None \<Rightarrow> \<lparr>st_fd = 0, st_proto = 0, st_out = [], st_in = []\<rparr>
      | Some T \<Rightarrow> \<lparr>st_fd = tfd T, st_proto = proto T, st_out = outgoing T w, st_in = received (proto T) (trace w)\<rparr>)"

definition buffered :: "nat \<Rightarrow> 'c world \<Rightarrow> nat" where
  "buffered t w = (case tcp_objs w t of None \<Rightarrow> 0 | Some T \<Rightarrow> buf_len (write_buf (tstate T)))"

text \<open>The Python code called from the connection does not use the transport or forge data.\<close>

definition py_minds :: "nat \<Rightarrow> 'c ext \<Rightarrow> bool" where
  "py_minds t E = (py_spares t E \<and> py_delivers_nothing E)"

section \<open>Every event refines the streams\<close>

lemma silentD: "py_delivers_nothing E \<Longrightarrow> holds (silent E p (received p (trace w))) m \<Longrightarrow> m = Ret w' \<Longrightarrow>
    received p (trace w') = received p (trace w)"
  by (auto simp: holds_def silent_def)

lemma event_silent:
  assumes "py_delivers_nothing E" "\<And>K room s. e \<noteq> ReadReady K room s" "sess_step E t e w = Ret w'"
  shows "received p (trace w') = received p (trace w)"
proof -
  have s: "silent E p (received p (trace w)) w" using assms(1) by (simp add: silent_def)
  have "holds (silent E p (received p (trace w))) (sess_step E t e w)"
    using assms(2)
    by (cases e) (auto simp: sess_step_def writelines_def intro!: wp holds_prod s)
  then show ?thesis by (rule silentD [OF assms(1) _ assms(3)])
qed

definition refined :: "'c ext \<Rightarrow> nat \<Rightarrow> sess_event \<Rightarrow> 'c world \<Rightarrow> bool" where
  "refined E t e w =
     (\<exists>w'. sess_step E t e w = Ret w' \<and> open_plain t w'
        \<and> buffered t w' \<le> buffered t w + length (sess_written e)
        \<and> stream_of t w' = stream_step e (stream_of t w))"

lemma refinedI:
  assumes T: "open_plain t w" "tcp_objs w t = Some T"
    and run: "sess_step E t e w = Ret w'" "tcp_objs w' t = Some T'" "tcp_inv t w'"
      "tcp_transports w' (tfd T) = Some t"
    and same: "T' = T\<lparr>tstate := (tstate T)\<lparr>write_buf := B, write_buf_dsize := d\<rparr>, proto_paused := pp,
        paused := pr, water_hi := hi, water_lo := lo\<rparr>"
    and out: "outgoing T' w' = outgoing T w @ sess_written e"
    and len: "buf_len B \<le> buf_len (write_buf (tstate T)) + length (sess_written e)"
    and inp: "received (proto T) (trace w') = received (proto T) (trace w) @ sess_read e"
  shows "refined E t e w"
proof -
  have "open_plain t w'" using T run(2-4) same by (simp add: open_plain_def)
  then show ?thesis using assms by (simp add: refined_def buffered_def stream_of_def stream_step_def)
qed

lemma open_plainE:
  assumes "open_plain t w"
  obtains T where "tcp_objs w t = Some T" "tcp_inv t w" "tls_conn (tstate T) = None"
    "\<not> tls_pending_close (tstate T)" "\<not> closing T" "\<not> weof T" "\<not> proto_buffered T"
    "tcp_transports w (tfd T) = Some t"
  using assms by (auto simp: open_plain_def split: option.splits)

lemma write_event:
  assumes op: "open_plain t w" and py: "py_spares t E" "py_delivers_nothing E"
    and k: "write_answer_ok data (k_write K)" and fits: "buffered t w + length data < usize_max1"
  shows "refined E t (Write K data) w"
proof (cases "data = []")
  case True
  then have "sess_step E t (Write K data) w = Ret w"
    using open_plainE [OF op] by (fastforce simp: sess_step_def try_write_def)
  then show ?thesis using True op by (simp add: refined_def sess_written_def stream_step_def sess_read_def)
next
  case False
  obtain T where T: "tcp_objs w t = Some T" "tcp_inv t w" "\<not> weof T" "tcp_transports w (tfd T) = Some t"
    by (rule open_plainE [OF op])
  have "buf_len (write_buf (tstate T)) + length data < usize_max1" using fits T(1) by (simp add: buffered_def)
  from try_write_spec [OF T(2,1,3) False py(1) k this]
  obtain w' B where w': "try_write E K t data w = Ret (Inr (), w')"
    "tcp_objs w' t = Some (T\<lparr>tstate := (tstate T)\<lparr>write_buf := B, write_buf_dsize := buf_len B\<rparr>,
                  proto_paused := (proto_paused T \<or> buf_len B > water_hi T)\<rparr>)"
    "outgoing (T\<lparr>tstate := (tstate T)\<lparr>write_buf := B, write_buf_dsize := buf_len B\<rparr>,
                  proto_paused := (proto_paused T \<or> buf_len B > water_hi T)\<rparr>) w' = outgoing T w @ data"
    "tcp_inv t w'" "tcp_transports w' (tfd T) = Some t"
    "buf_len B \<le> buf_len (write_buf (tstate T)) + length data" using T(4) by auto
  have run: "sess_step E t (Write K data) w = Ret w'" using w'(1) by (simp add: sess_step_def)
  show ?thesis
    by (rule refinedI [OF op T(1) run w'(2,4,5), where d = "buf_len B" and B = B and pr = "paused T"
          and hi = "water_hi T" and lo = "water_lo T"])
       (use w'(3,6) event_silent [OF py(2) _ run] in \<open>simp_all add: sess_written_def sess_read_def\<close>)
qed

lemma limits_event:
  assumes op: "open_plain t w" and py: "py_spares t E" "py_delivers_nothing E"
    and fits: "\<forall>l. low = Some l \<longrightarrow> 4 * l < usize_max1"
  shows "refined E t (SetLimits high low) w"
proof -
  obtain T where T: "tcp_objs w t = Some T" "tcp_inv t w" "tcp_transports w (tfd T) = Some t"
    by (rule open_plainE [OF op])
  note spec = set_write_buffer_limits_spec [OF T(2,1) py(1) fits, of high]
  show ?thesis
  proof (cases "asyncio_limits high low")
    case None
    then have "sess_step E t (SetLimits high low) w = Ret w" using spec by (simp add: sess_step_def)
    then show ?thesis using op by (simp add: refined_def sess_written_def stream_step_def sess_read_def)
  next
    case (Some q)
    then obtain lo hi w' where w': "set_write_buffer_limits E t high low w = Ret (Inr (), w')"
      "tcp_objs w' t = Some (T\<lparr>water_hi := hi, water_lo := lo,
          proto_paused := (proto_paused T \<or> buf_len (write_buf (tstate T)) > hi)\<rparr>)"
      "outgoing (T\<lparr>water_hi := hi, water_lo := lo,
          proto_paused := (proto_paused T \<or> buf_len (write_buf (tstate T)) > hi)\<rparr>) w' = outgoing T w"
      "tcp_inv t w'" "tcp_transports w' (tfd T) = Some t"
      using spec T(3) by (cases q) auto
    have run: "sess_step E t (SetLimits high low) w = Ret w'" using w'(1) by (simp add: sess_step_def)
    show ?thesis
      by (rule refinedI [OF op T(1) run w'(2,4,5), where d = "write_buf_dsize (tstate T)"
            and B = "write_buf (tstate T)" and pr = "paused T" and hi = hi and lo = lo
            and pp = "proto_paused T \<or> buf_len (write_buf (tstate T)) > hi"])
         (use w'(3) event_silent [OF py(2) _ run] in \<open>simp_all add: sess_written_def sess_read_def\<close>)
  qed
qed

lemma pause_step:
  assumes inv: "tcp_inv t w" and T: "tcp_objs w t = Some T" and i: "f = tcp_stream_add \<or> f = tcp_stream_rem"
  shows "\<exists>w'. f (tfd T) {READABLE} (upd_tcp t (\<lambda>T. T\<lparr>paused := pr\<rparr>) w) = Ret w'
      \<and> tcp_objs w' t = Some (T\<lparr>paused := pr\<rparr>) \<and> tcp_inv t w'
      \<and> tcp_transports w' = tcp_transports w \<and> outgoing T w' = outgoing T w"
proof -
  let ?u = "upd_tcp t (\<lambda>T. T\<lparr>paused := pr\<rparr>) w"
  note ok = tcp_inv_SomeD [OF inv T]
  have u: "owns IOTCPStream (tfd T) ?u" "io_wf ?u" "poll_agrees ?u" using ok by simp_all
  obtain w' where w': "f (tfd T) {READABLE} ?u = Ret w'" "io_frame ?u w'" "io_wf w'" "poll_agrees w'"
    "owns IOTCPStream (tfd T) w'"
    "WRITABLE \<in> watching IOTCPStream (tfd T) w \<longrightarrow> WRITABLE \<in> watching IOTCPStream (tfd T) w'"
    using tcp_src.add_keeps [OF u, of READABLE] tcp_src.rem_keeps [OF u, of READABLE] i by fastforce
  note fr = io_frame_fields [OF w'(2)]
  have T': "tcp_objs w' t = Some (T\<lparr>paused := pr\<rparr>)" using fr(1) T by simp
  have "tcp_ok (T\<lparr>paused := pr\<rparr>)" using ok(1) by (simp add: tcp_ok_def)
  then have "tcp_inv t w'" using w'(3-6) ok(5) fr(2) by (intro tcp_inv_SomeI [OF T']) auto
  then show ?thesis using w'(1) T' fr by (simp add: outgoing_def)
qed

lemma pause_reading_spec:
  assumes inv: "tcp_inv t w" and T: "tcp_objs w t = Some T"
  shows "\<exists>w' pr. pause_reading t w = Ret w' \<and> tcp_objs w' t = Some (T\<lparr>paused := pr\<rparr>) \<and> tcp_inv t w'
      \<and> tcp_transports w' = tcp_transports w \<and> outgoing T w' = outgoing T w"
    "\<exists>w' pr. resume_reading t w = Ret w' \<and> tcp_objs w' t = Some (T\<lparr>paused := pr\<rparr>) \<and> tcp_inv t w'
      \<and> tcp_transports w' = tcp_transports w \<and> outgoing T w' = outgoing T w"
  using pause_step [OF assms, of tcp_stream_rem True] pause_step [OF assms, of tcp_stream_add False] T inv
  by (auto simp: pause_reading_def resume_reading_def intro: exI [of _ "paused T"])

lemma paused_event:
  assumes op: "open_plain t w" and py: "py_delivers_nothing E" and e: "e = PauseReading \<or> e = ResumeReading"
  shows "refined E t e w"
proof -
  obtain T where T: "tcp_objs w t = Some T" "tcp_transports w (tfd T) = Some t" "tcp_inv t w"
    by (rule open_plainE [OF op])
  obtain w' pr where w': "sess_step E t e w = Ret w'" "tcp_objs w' t = Some (T\<lparr>paused := pr\<rparr>)" "tcp_inv t w'"
    "tcp_transports w' (tfd T) = Some t" "outgoing T w' = outgoing T w"
    using pause_reading_spec [OF T(3,1)] e T(2) by (auto simp: sess_step_def)
  show ?thesis
    by (rule refinedI [OF op T(1) w'(1-4), where d = "write_buf_dsize (tstate T)"
          and B = "write_buf (tstate T)" and pr = pr and hi = "water_hi T" and lo = "water_lo T" and pp = "proto_paused T"])
       (use e w'(5) event_silent [OF py _ w'(1)] in \<open>auto simp: sess_written_def sess_read_def outgoing_def\<close>)
qed

lemma write_ready_event:
  assumes op: "open_plain t w" and py: "py_spares t E" "py_delivers_nothing E"
    and ks: "\<forall>bs. [] \<notin> set bs \<longrightarrow> answers_ok bs (ker bs)"
  shows "refined E t (WriteReady K ker) w"
proof -
  obtain T where T: "tcp_objs w t = Some T" "tcp_inv t w" "tls_conn (tstate T) = None"
    "\<not> tls_pending_close (tstate T)" "\<not> closing T" "tcp_transports w (tfd T) = Some t"
    by (rule open_plainE [OF op])
  have "[] \<notin> set (write_buf (tstate T))" by (rule tcp_okD(3) [OF tcp_inv_SomeD(1) [OF T(2,1)]])
  from write_handle_spec [OF T(2,1,3,4,6) py(1) ks [rule_format, OF this], of K]
  obtain w' left n where w': "TCPWriteHandle_run E K (tfd T) (ker (write_buf (tstate T))) w = Ret w'"
    "n + buf_len left = buf_len (write_buf (tstate T))" "tcp_objs w' t = Some (drained n left T)"
    "sent_bytes (tfd T) (trace w') @ concat left = outgoing T w" "tcp_inv t w'"
    "tcp_transports w' (tfd T) = Some t" using T(5) by blast
  have run: "sess_step E t (WriteReady K ker) w = Ret w'" using w'(1) T(1) by (simp add: sess_step_def)
  show ?thesis
    by (rule refinedI [OF op T(1) run w'(3,5,6), where d = "buf_len left" and B = left and pr = "paused T"
          and hi = "water_hi T" and lo = "water_lo T"
          and pp = "proto_paused T \<and> \<not> (n > 0 \<and> buf_len left \<le> water_lo T)"])
       (use w'(2,4) event_silent [OF py(2) _ run] in
         \<open>simp_all add: sess_written_def sess_read_def outgoing_def\<close>)
qed

lemma read_ready_event:
  assumes op: "open_plain t w" and py: "py_spares t E" "py_delivers_nothing E"
    and s: "0 < room" "steady s" "RdOk [] \<notin> set s"
  shows "refined E t (ReadReady K room s) w"
proof -
  obtain T where T: "tcp_objs w t = Some T" "tcp_inv t w" "tls_conn (tstate T) = None"
    "\<not> proto_buffered T" "tcp_transports w (tfd T) = Some t" by (rule open_plainE [OF op])
  have "\<not> state_mut T" by (rule tcp_okD(5) [OF tcp_inv_SomeD(1) [OF T(2,1)]])
  from read_loop_delivers [OF T(1,3,4) this py s(1,2), of "tfd T"] s(3)
  obtain w' s' where w': "read_loop E t (tfd T) room w s = Ret (False, w', s')" "spared t T w w'"
    "received (proto T) (trace w') = received (proto T) (trace w) @ rd_bytes s" by auto
  have run: "sess_step E t (ReadReady K room s) w = Ret w'"
    using w'(1) T(1,5) by (simp add: sess_step_def TCPReadHandle_run_def get_tcp_transport_def)
  note sp = spared_fields [OF w'(2)] spared_inv [OF w'(2) T(2,1)]
  show ?thesis
    by (rule refinedI [OF op T(1) run sp(1), where d = "write_buf_dsize (tstate T)"
          and B = "write_buf (tstate T)" and pr = "paused T" and hi = "water_hi T" and lo = "water_lo T"
          and pp = "proto_paused T"])
       (use sp T(5) w'(3) in \<open>simp_all add: sess_written_def sess_read_def\<close>)
qed

lemma event_refines:
  assumes "open_plain t w" "event_ok e" "buffered t w + length (sess_written e) < usize_max1" "py_minds t E"
  shows "refined E t e w"
proof (cases e)
  case (WriteLines K data)
  have "refined E t (Write K (concat data)) w"
    using assms WriteLines by (intro write_event) (simp_all add: event_ok_def sess_written_def py_minds_def)
  then show ?thesis
    by (simp add: WriteLines refined_def sess_step_def writelines_def stream_step_def sess_written_def sess_read_def)
qed (use assms in \<open>auto simp: event_ok_def sess_written_def py_minds_def
      intro: write_event limits_event paused_event write_ready_event read_ready_event\<close>)

interpretation tcp_stream: budgeted_refinement "open_plain t" "sess_step E t" event_ok "buffered t"
    "\<lambda>e. length (sess_written e)" usize_max1 "stream_of t" stream_step "py_minds t E" for E t
  by unfold_locales (use event_refines in \<open>simp add: refined_def\<close>)

section \<open>Steps of the loop are events of a session\<close>

text \<open>A loop with nothing queued.\<close>

definition quiescent :: "'c world \<Rightarrow> bool" where
  "quiescent w = (\<not> idle w \<and> counter_ready w = 0 \<and> handles_ready w = [] \<and> handles_sched w = [])"

lemma quiescent_collect:
  assumes q: "quiescent w" "si_arrived si = []" and ev: "si_events si = [ev]" "ev_token ev = f"
    and io: "handles_io w f = Some (IOTCPStream i)"
  shows "collect E si tick w = Ret (handle_io_tcps ev [], emit (PollWait None) w)"
    "poll_timeout (si_now si) tick w = (None, False)"
proof -
  let ?w = "emit (PollWait None) w"
  show t: "poll_timeout (si_now si) tick w = (None, False)"
    using q(1) by (simp add: poll_timeout_def heap_peek_def quiescent_def)
  have "poll_sleep None [] w = ?w" using q(1) by (cases w) (simp add: poll_sleep_def quiescent_def emit_def)
  moreover have "take_ready ?w = ([], ?w)"
    using q(1) by (cases w) (simp add: take_ready_def quiescent_def usize_sub_def emit_def)
  moreover have "drain_timers (si_now_timers si) (handles_sched w) hs = Ret (hs, [])" "?w\<lparr>handles_sched := []\<rparr> = ?w" for hs
    using q(1) by (cases w, simp add: quiescent_def drain_timers.simps heap_peek_def emit_def)+
  ultimately show "collect E si tick w = Ret (handle_io_tcps ev [], ?w)"
    using t q(2) ev io by (simp add: collect_def)
qed

text \<open>
  When the poller reports a stream writable, and not readable as well, a step of an otherwise idle loop
  is the corresponding event of the session, after the poll has been noted; and so for a readable
  stream.
\<close>

lemma step_is_event:
  assumes q: "quiescent w" "si_arrived si = []" and ev: "si_events si = [ev]" "ev_token ev = tfd T"
    and io: "handles_io w (tfd T) = Some (IOTCPStream i)" and T: "tcp_objs w t = Some T"
  shows "\<lbrakk>ev_writable ev; \<not> ev_readable ev; re_writes (si_envs si 0) = ker (write_buf (tstate T))\<rbrakk> \<Longrightarrow>
      step E si tick w = and_then (sess_step E t (WriteReady (re_kernel (si_envs si 0)) ker) (emit (PollWait None) w))
        (\<lambda>w'. Ret (si_poll si, si_tick_poll si, w'))"
    "ev_readable ev \<Longrightarrow>
      step E si tick w = and_then (sess_step E t (ReadReady (re_kernel (si_envs si 0)) 262144 (re_reads (si_envs si 0)))
          (emit (PollWait None) w))
        (\<lambda>w'. Ret (si_poll si, si_tick_poll si, w'))"
  using quiescent_collect [OF q ev io] T ev
  by (simp_all add: step_def handle_io_tcps_def sess_step_def and_then_assoc poll_blocks_def)

section \<open>The end of a connection\<close>

text \<open>
  The rounds the loop makes while the poller reports the descriptor writable; the kernel takes at
  least one byte each time.
\<close>

definition write_rounds :: "'c ext \<Rightarrow> nat \<Rightarrow> kernel \<Rightarrow> (bytes list \<Rightarrow> sysres list) \<Rightarrow> nat \<Rightarrow> 'c world \<Rightarrow> 'c world outcome" where
  "write_rounds E t K ker n w = run_events (sess_step E t) (replicate n (WriteReady K ker)) w"

definition kernel_takes :: "(bytes list \<Rightarrow> sysres list) \<Rightarrow> bool" where
  "kernel_takes ker = (\<forall>bs. [] \<notin> set bs \<longrightarrow> answers_ok bs (ker bs) \<and> (bs \<noteq> [] \<longrightarrow> takes_some (ker bs)))"

lemma write_rounds_simps [simp]:
  "write_rounds E t K ker 0 w = Ret w"
  "write_rounds E t K ker (Suc n) w = and_then (sess_step E t (WriteReady K ker) w) (write_rounds E t K ker n)"
  by (auto simp: write_rounds_def intro!: and_then_cong)

text \<open>Once the loop has forgotten the transport its rounds do nothing.\<close>

lemma write_rounds_detached:
  "tcp_objs w t = Some T \<Longrightarrow> tcp_transports w (tfd T) = None \<Longrightarrow> write_rounds E t K ker n w = Ret w"
  by (induction n) (simp_all add: sess_step_def TCPWriteHandle_run_def get_tcp_transport_def)

lemma unwatched_free:
  assumes "owns IOTCPStream f w" "io_wf w" "watching IOTCPStream f w = {}"
  shows "handles_io w f = None"
  using assms by (cases "handles_io w f") (auto simp: registry_defs)

lemma closing_flush:
  assumes "tcp_inv t w" "tcp_objs w t = Some T" "tls_conn (tstate T) = None" "\<not> tls_pending_close (tstate T)"
    "closing T" "tcp_transports w (tfd T) = Some t" "watching IOTCPStream (tfd T) w = {WRITABLE}"
    "write_buf (tstate T) \<noteq> []" "buf_len (write_buf (tstate T)) \<le> n"
    and py: "py_spares t E" and ker: "kernel_takes ker"
  shows "\<exists>w'. write_rounds E t K ker n w = Ret w' \<and> sent_bytes (tfd T) (trace w') = outgoing T w
    \<and> tcp_transports w' (tfd T) = None \<and> handles_io w' (tfd T) = None
    \<and> ConnectionLost (proto T) None \<in> set (py_calls (trace w'))"
  using assms(1-9)
proof (induction n arbitrary: w T)
  case 0
  then show ?case using buf_len_0 tcp_okD(3) tcp_inv_SomeD(1) by blast
next
  case (Suc n)
  have ks: "answers_ok (write_buf (tstate T)) (ker (write_buf (tstate T)))"
    "takes_some (ker (write_buf (tstate T)))"
    using ker Suc.prems(8) tcp_okD(3) [OF tcp_inv_SomeD(1) [OF Suc.prems(1,2)]] by (simp_all add: kernel_takes_def)
  from write_handle_spec [OF Suc.prems(1-4,6) py ks(1), of K]
  obtain w1 left m where w1: "TCPWriteHandle_run E K (tfd T) (ker (write_buf (tstate T))) w = Ret w1"
    "m + buf_len left = buf_len (write_buf (tstate T))" "tcp_objs w1 t = Some (drained m left T)"
    "sent_bytes (tfd T) (trace w1) @ concat left = outgoing T w" "0 < m"
    "left \<noteq> [] \<longrightarrow> tcp_transports w1 (tfd T) = Some t"
    "watching IOTCPStream (tfd T) w1 = watching IOTCPStream (tfd T) w - (if left = [] then {WRITABLE} else {})"
    "tcp_inv t w1"
    "left = [] \<longrightarrow> tcp_transports w1 (tfd T) = None \<and> ConnectionLost (proto T) None \<in> set (py_calls (trace w1))"
    using Suc.prems(5,8) ks(2) by blast
  have run: "write_rounds E t K ker (Suc n) w = write_rounds E t K ker n w1"
    using w1(1) Suc.prems(2) by (simp add: sess_step_def)
  show ?case
  proof (cases "left = []")
    case True
    have "handles_io w1 (tfd T) = None"
      using tcp_inv_SomeD(2,3) [OF w1(8,3)] w1(7) Suc.prems(7) True by (intro unwatched_free) simp_all
    then show ?thesis
      using True run w1(3,4,9) write_rounds_detached [OF w1(3), of E K ker n] by simp
  next
    case False
    have "\<exists>w'. write_rounds E t K ker n w1 = Ret w'
        \<and> sent_bytes (tfd (drained m left T)) (trace w') = outgoing (drained m left T) w1
        \<and> tcp_transports w' (tfd (drained m left T)) = None \<and> handles_io w' (tfd (drained m left T)) = None
        \<and> ConnectionLost (proto (drained m left T)) None \<in> set (py_calls (trace w'))"
      by (rule Suc.IH [OF w1(8,3)]) (use Suc.prems False w1(2,5-7) in simp_all)
    then show ?thesis using run w1(4) by (simp add: outgoing_def)
  qed
qed

lemma fold_stream_step:
  "fold stream_step es st = st\<lparr>st_out := st_out st @ concat (map sess_written es),
                               st_in := st_in st @ concat (map sess_read es)\<rparr>"
  by (induction es arbitrary: st) (simp_all add: stream_step_def)

lemma session_runs:
  assumes "open_plain t w" "py_minds t E" "list_all event_ok es"
    and "buffered t w + length (concat (map sess_written es)) < usize_max1"
  shows "\<exists>w'. run_events (sess_step E t) es w = Ret w' \<and> open_plain t w'
    \<and> buffered t w' \<le> buffered t w + length (concat (map sess_written es))
    \<and> stream_of t w' = (stream_of t w)\<lparr>st_out := st_out (stream_of t w) @ concat (map sess_written es),
                                      st_in := st_in (stream_of t w) @ concat (map sess_read es)\<rparr>"
  using tcp_stream.run_refines [OF assms(1,3) _ assms(2)] assms(4)
  by (simp add: fold_stream_step length_concat comp_def)

text \<open>A session on the transport of the examples, with a kernel that takes one byte at a time.\<close>

definition demo_kernel :: "nat \<Rightarrow> kernel" where
  "demo_kernel n = \<lparr>k_write = SysOk n, k_now = 0\<rparr>"

definition demo_session :: "sess_event list" where
  "demo_session =
     [Write (demo_kernel 1) [1, 2, 3], ReadReady (demo_kernel 0) 2 [RdOk [9, 8, 7], RdInterrupted],
      PauseReading, WriteLines (demo_kernel 0) [[4], [5]], SetLimits None (Some 10),
      WriteReady (demo_kernel 0) (\<lambda>_. [SysOk 1]), ResumeReading]"

lemma demo_takes: "kernel_takes (\<lambda>_. [SysOk 1])"
proof -
  have nil: "answers_ok bs []" for bs by (cases bs) simp_all
  have "answers_ok bs [SysOk 1]" if "[] \<notin> set bs" for bs
    using that by (cases bs; cases "hd bs") (auto simp: nil)
  then show ?thesis by (simp add: kernel_takes_def)
qed

lemma demo_session_ok:
  "list_all event_ok demo_session" "concat (map sess_written demo_session) = [1, 2, 3, 4, 5]"
  "concat (map sess_read demo_session) = [9, 8, 7]"
  using demo_takes
  by (simp_all add: demo_session_def event_ok_def write_answer_ok_def demo_kernel_def kernel_takes_def
      usize_max1_def sess_written_def sess_read_def)

lemma demo_open:
  "open_plain 0 (demo_world demo_tcp)" "py_minds 0 demo_ext" "buffered 0 (demo_world demo_tcp) = 0"
  "stream_of 0 (demo_world demo_tcp) = \<lparr>st_fd = 7, st_proto = 5, st_out = [], st_in = []\<rparr>"
proof -
  have inv: "tcp_inv 0 (demo_world demo_tcp)" by (rule demo_world_inv [OF demo_tcp_ok]) simp
  show "open_plain 0 (demo_world demo_tcp)" using inv by (simp add: open_plain_def)
  show "py_minds 0 demo_ext"
    by (simp add: py_minds_def demo_ext_spares) (simp add: py_delivers_nothing_def demo_ext_def)
  show "buffered 0 (demo_world demo_tcp) = 0" by (simp add: buffered_def)
  show "stream_of 0 (demo_world demo_tcp) = \<lparr>st_fd = 7, st_proto = 5, st_out = [], st_in = []\<rparr>"
    by (simp add: stream_of_def outgoing_def) (simp add: demo_world_def received_def)
qed

text \<open>
  C5. An undisturbed session of a plain connection. The transport is open, attached, without TLS and
  with a protocol that is not buffered; the callbacks of the protocol do not use the transport and
  deliver no data themselves; the session is any sequence of writes, changes of the limits, pauses and
  resumptions by Python and of readiness events, in which the kernel answers every write with bytes
  taken, would-block or interrupted and no read meets an error or the end of the stream (errors and
  ends are the subject of other properties), with less than \<open>2 ^ 64\<close> bytes written in all. Such a
  session refines a pair of byte streams: every call returns, what the kernel has followed by what is
  buffered is what Python wrote, and what the protocol received is what the kernel read, both
  in order and each byte once; the transport is open and attached throughout.
\<close>

theorem tcp_session_refines:
  assumes "open_plain t w" "py_minds t E" "list_all event_ok es"
    and "buffered t w + length (concat (map sess_written es)) < usize_max1"
  shows "\<exists>w'. run_events (sess_step E t) es w = Ret w' \<and> open_plain t w'
    \<and> stream_of t w' = (stream_of t w)\<lparr>st_out := st_out (stream_of t w) @ concat (map sess_written es),
                                      st_in := st_in (stream_of t w) @ concat (map sess_read es)\<rparr>"
  using session_runs [OF assms] by blast

theorem tcp_session_refines_witness:
  "\<exists>w'. run_events (sess_step demo_ext 0) demo_session (demo_world demo_tcp) = Ret w'
     \<and> stream_of 0 w' = \<lparr>st_fd = 7, st_proto = 5, st_out = [1, 2, 3, 4, 5], st_in = [9, 8, 7]\<rparr>"
proof -
  have "(5 :: nat) < usize_max1" by (simp add: usize_max1_def)
  then show ?thesis
    using tcp_session_refines [OF demo_open(1,2) demo_session_ok(1)] demo_open(3,4) demo_session_ok(2,3)
    by auto
qed

lemma close_then_flush:
  assumes op: "open_plain t w" and py: "py_spares t E" and ker: "kernel_takes ker" and n: "buffered t w \<le> n"
  shows "\<exists>w1 w2. tcp_close E K t w = Ret w1 \<and> write_rounds E t K' ker n w1 = Ret w2
    \<and> sent_bytes (st_fd (stream_of t w)) (trace w2) = st_out (stream_of t w)
    \<and> tcp_transports w2 (st_fd (stream_of t w)) = None \<and> handles_io w2 (st_fd (stream_of t w)) = None
    \<and> ConnectionLost (st_proto (stream_of t w)) None \<in> set (py_calls (trace w2))"
proof -
  obtain T where T: "tcp_objs w t = Some T" "tcp_inv t w" "tls_conn (tstate T) = None"
    "\<not> tls_pending_close (tstate T)" "\<not> closing T" "tcp_transports w (tfd T) = Some t"
    by (rule open_plainE [OF op])
  let ?T1 = "T\<lparr>closing := True\<rparr>"
  have st: "stream_of t w = \<lparr>st_fd = tfd T, st_proto = proto T, st_out = outgoing T w,
      st_in = received (proto T) (trace w)\<rparr>" using T(1) by (simp add: stream_of_def)
  from tcp_close_spec [OF T(2,1,3,5,6) py, of K]
  obtain w1 where w1: "tcp_close E K t w = Ret w1" "tcp_objs w1 t = Some ?T1" "tcp_inv t w1"
    "outgoing T w1 = outgoing T w"
    "if write_buf (tstate T) = []
     then handles_io w1 (tfd T) = None \<and> tcp_transports w1 (tfd T) = None
       \<and> (\<exists>cs. py_calls (trace w1) = py_calls (trace w) @ ConnectionLost (proto T) None # cs)
     else watching IOTCPStream (tfd T) w1 = {WRITABLE} \<and> tcp_transports w1 (tfd T) = Some t"
    by (auto split: if_splits)
  show ?thesis
  proof (cases "write_buf (tstate T) = []")
    case True
    have "write_rounds E t K' ker n w1 = Ret w1"
      by (rule write_rounds_detached [OF w1(2)]) (use w1(5) True in simp)
    then show ?thesis using w1(1,4,5) True st by (auto simp: outgoing_def)
  next
    case False
    have "\<exists>w2. write_rounds E t K' ker n w1 = Ret w2 \<and> sent_bytes (tfd ?T1) (trace w2) = outgoing ?T1 w1
        \<and> tcp_transports w2 (tfd ?T1) = None \<and> handles_io w2 (tfd ?T1) = None
        \<and> ConnectionLost (proto ?T1) None \<in> set (py_calls (trace w2))"
      by (rule closing_flush [OF w1(3,2)]) (use T w1(5) False py ker n in \<open>simp_all add: buffered_def\<close>)
    then show ?thesis using w1(1,4) st by (simp add: outgoing_def)
  qed
qed

lemma session_delivers:
  assumes "open_plain t w" "py_minds t E" "list_all event_ok es" "kernel_takes ker"
    and "buffered t w + length (concat (map sess_written es)) < usize_max1"
    and "buffered t w + length (concat (map sess_written es)) \<le> n"
  shows "\<exists>w1 w2 w3. run_events (sess_step E t) es w = Ret w1 \<and> tcp_close E K t w1 = Ret w2
    \<and> write_rounds E t K' ker n w2 = Ret w3
    \<and> st_in (stream_of t w1) = st_in (stream_of t w) @ concat (map sess_read es)
    \<and> st_proto (stream_of t w1) = st_proto (stream_of t w) \<and> open_plain t w1
    \<and> sent_bytes (st_fd (stream_of t w)) (trace w3) = st_out (stream_of t w) @ concat (map sess_written es)
    \<and> tcp_transports w3 (st_fd (stream_of t w)) = None \<and> handles_io w3 (st_fd (stream_of t w)) = None
    \<and> ConnectionLost (st_proto (stream_of t w)) None \<in> set (py_calls (trace w3))"
proof -
  obtain w1 where w1: "run_events (sess_step E t) es w = Ret w1" "open_plain t w1"
    "buffered t w1 \<le> n"
    "stream_of t w1 = (stream_of t w)\<lparr>st_out := st_out (stream_of t w) @ concat (map sess_written es),
                                      st_in := st_in (stream_of t w) @ concat (map sess_read es)\<rparr>"
    using session_runs [OF assms(1-3,5)] assms(6) by auto
  have "py_spares t E" using assms(2) by (simp add: py_minds_def)
  from close_then_flush [OF w1(2) this assms(4) w1(3), of K K'] show ?thesis
    using w1(1,2,4) by auto
qed

lemma conn_opens:
  assumes py: "py_plain_protocol pf p E" "\<not> py_is_buffered E p"
    and io: "handles_io w f = None" "io_wf w" "poll_agrees w"
  shows "\<exists>w'. tcp_conn E f pf None w = Ret (Inr (next_obj w, p), w') \<and> open_plain (next_obj w) w'
    \<and> buffered (next_obj w) w' = 0
    \<and> stream_of (next_obj w) w' = \<lparr>st_fd = f, st_proto = p, st_out = sent_bytes f (trace w),
                                    st_in = received p (trace w)\<rparr>"
proof -
  let ?T = "TCPTransport_new f p (py_is_buffered E p) None (env_close_timeout E) :: 'a TCPTransport"
  have T: "tls_conn (tstate ?T) = None" "\<not> tls_pending_close (tstate ?T)" "\<not> closing ?T" "\<not> weof ?T"
    "\<not> proto_buffered ?T" "tfd ?T = f" "proto ?T = p" "write_buf (tstate ?T) = []"
    using py(2) by (simp_all add: TCPTransport_new_def Let_def)
  obtain w' where w': "tcp_conn E f pf None w = Ret (Inr (next_obj w, p), w')"
    "py_calls (trace w') = py_calls (trace w) @ [ProtoFactory pf, ConnectionMade p (next_obj w)]"
    "tcp_objs w' (next_obj w) = Some ?T" "tcp_transports w' f = Some (next_obj w)" "tcp_inv (next_obj w) w'"
    "sent_bytes f (trace w') = sent_bytes f (trace w)"
    using tcp_conn_spec [OF py(1) io] by blast
  show ?thesis
    using w' T by (auto simp: open_plain_def buffered_def stream_of_def outgoing_def received_py_calls)
qed

text \<open>
  C4. The life of a plain connection that nothing disturbs, from \<^verbatim>\<open>_tcp_conn\<close> without TLS on a free
  descriptor through a session to \<^verbatim>\<open>close\<close>. The scope: the protocol factory answers a protocol that is
  not buffered and changes nothing else, nor does \<^verbatim>\<open>connection_made\<close>; the callbacks of the protocol do
  not use the transport and deliver no data themselves; the session is any sequence of writes, changes
  of the limits, pauses, resumptions and readiness events in which the kernel reports no error on
  a write or a read and the stream does not end, with less than \<open>2 ^ 64\<close> bytes written; in each
  round of write readiness after the close the kernel takes at least one byte and reports no error.
  Then every call returns; the protocol has received exactly what the kernel read; after at most
  as many rounds as bytes were written the kernel has all of them, in order and once, the protocol
  has been told \<^verbatim>\<open>connection_lost(None)\<close>, the loop has forgotten the transport and the descriptor has
  no entry any more.
\<close>

theorem tcp_connection_lifecycle:
  assumes py: "py_plain_protocol pf p E" "\<not> py_is_buffered E p" "py_minds (next_obj w) E"
    and io: "handles_io w f = None" "io_wf w" "poll_agrees w"
    and es: "list_all event_ok es" "kernel_takes ker"
    and n: "length (concat (map sess_written es)) < usize_max1" "length (concat (map sess_written es)) \<le> n"
  shows "\<exists>w1 w2 w3 w4. tcp_conn E f pf None w = Ret (Inr (next_obj w, p), w1)
    \<and> run_events (sess_step E (next_obj w)) es w1 = Ret w2 \<and> tcp_close E K (next_obj w) w2 = Ret w3
    \<and> write_rounds E (next_obj w) K' ker n w3 = Ret w4
    \<and> received p (trace w2) = received p (trace w) @ concat (map sess_read es)
    \<and> sent_bytes f (trace w4) = sent_bytes f (trace w) @ concat (map sess_written es)
    \<and> ConnectionLost p None \<in> set (py_calls (trace w4))
    \<and> tcp_transports w4 f = None \<and> handles_io w4 f = None"
proof -
  obtain w1 where w1: "tcp_conn E f pf None w = Ret (Inr (next_obj w, p), w1)" "open_plain (next_obj w) w1"
    "buffered (next_obj w) w1 = 0" "stream_of (next_obj w) w1 = \<lparr>st_fd = f, st_proto = p,
       st_out = sent_bytes f (trace w), st_in = received p (trace w)\<rparr>"
    using conn_opens [OF py(1,2) io] by blast
  obtain w2 w3 w4 where w: "run_events (sess_step E (next_obj w)) es w1 = Ret w2"
    "tcp_close E K (next_obj w) w2 = Ret w3" "write_rounds E (next_obj w) K' ker n w3 = Ret w4"
    "st_in (stream_of (next_obj w) w2) = received p (trace w) @ concat (map sess_read es)"
    "st_proto (stream_of (next_obj w) w2) = p" "open_plain (next_obj w) w2"
    "sent_bytes f (trace w4) = sent_bytes f (trace w) @ concat (map sess_written es)"
    "tcp_transports w4 f = None" "handles_io w4 f = None" "ConnectionLost p None \<in> set (py_calls (trace w4))"
    using session_delivers [OF w1(2) py(3) es, of n K K'] n w1(3,4) by auto
  have "received p (trace w2) = st_in (stream_of (next_obj w) w2)"
    using w(5,6) by (auto simp: open_plain_def stream_of_def split: option.splits)
  then show ?thesis using w1(1) w by auto
qed

theorem tcp_connection_lifecycle_witness:
  "\<exists>w1 w2 w3 w4. tcp_conn demo_ext 7 9 None (EventLoop_new 0 0) = Ret (Inr (0, 0), w1)
     \<and> run_events (sess_step demo_ext 0) demo_session w1 = Ret w2
     \<and> tcp_close demo_ext (demo_kernel 0) 0 w2 = Ret w3
     \<and> write_rounds demo_ext 0 (demo_kernel 0) (\<lambda>_. [SysOk 1]) 5 w3 = Ret w4
     \<and> received 0 (trace w2) = [9, 8, 7] \<and> sent_bytes 7 (trace w4) = [1, 2, 3, 4, 5]
     \<and> ConnectionLost 0 None \<in> set (py_calls (trace w4)) \<and> handles_io w4 7 = None"
proof -
  let ?w = "EventLoop_new 0 0 :: unit world"
  have py: "py_plain_protocol 9 0 demo_ext" "\<not> py_is_buffered demo_ext 0"
    by (auto simp: py_plain_protocol_def demo_ext_def intro!: exI [of _ False])
  have w: "next_obj ?w = 0" "handles_io ?w 7 = None" "io_wf ?w" "poll_agrees ?w" "trace ?w = []"
    by (simp_all add: EventLoop_new_def io_wf_def poll_agrees_def)
  have n: "length (concat (map sess_written demo_session)) < usize_max1"
    "length (concat (map sess_written demo_session)) \<le> 5"
    by (simp_all add: demo_session_ok(2) usize_max1_def)
  show ?thesis
    using tcp_connection_lifecycle [OF py _ w(2-4) demo_session_ok(1) demo_takes n, of "demo_kernel 0" "demo_kernel 0"]
      demo_open(2) w(1,5) demo_session_ok(2,3) by auto
qed

end
