(* ===== verification/Loop_Invariant.thy ===== *)
theory Loop_Invariant
  imports Loop_Ops
begin

text \<open>
  The invariant of the whole mio loop, in every state that the operations of the loop and Python
  code using them can reach, and what never changes back along the way.
\<close>

section \<open>The invariant\<close>

text \<open>
  The last request to the poller about a descriptor in the table was to watch it as its entry says,
  and the entry can be dispatched;
  the transports the loop finds by descriptor are there and have that descriptor; a number names
  at most one object; the objects are well formed and the queues are.
\<close>

definition table_ok :: "'c world \<Rightarrow> bool" where
  "table_ok w =
     (\<forall>f h. handles_io w f = Some h \<longrightarrow>
        entry_ok w f h \<and> (\<exists>i. requested (trace w) f = Some i \<and> watch_ok i h))"

definition objects_ok :: "'c world \<Rightarrow> bool" where
  "objects_ok w =
     ((\<forall>f t. tcp_transports w f = Some t \<longrightarrow> (\<exists>T. tcp_objs w t = Some T \<and> tfd T = f))
      \<and> (\<forall>f u. udp_transports w f = Some u \<longrightarrow> (\<exists>U. udp_objs w u = Some U \<and> ufd U = f))
      \<and> (\<forall>t T. tcp_objs w t = Some T \<longrightarrow> tcp_wf T \<and> t < next_obj w \<and> cb_objs w t = None)
      \<and> (\<forall>u U. udp_objs w u = Some U \<longrightarrow>
           udp_wf U \<and> u < next_obj w \<and> cb_objs w u = None \<and> tcp_objs w u = None))"

definition loop_inv :: "'c world \<Rightarrow> bool" where
  "loop_inv w = (queue_inv w \<and> table_ok w \<and> objects_ok w)"

text \<open>What the loop never takes back: an object, an event in the history, a flag of a transport.\<close>

definition maps_evolve :: "('a \<Rightarrow> 'a \<Rightarrow> bool) \<Rightarrow> ('n \<rightharpoonup> 'a) \<Rightarrow> ('n \<rightharpoonup> 'a) \<Rightarrow> bool" where
  "maps_evolve R m m' = (\<forall>n x. m n = Some x \<longrightarrow> (\<exists>y. m' n = Some y \<and> R x y))"

definition cb_evolves :: "CBHandle \<Rightarrow> CBHandle \<Rightarrow> bool" where
  "cb_evolves c c' =
     (callback c' = callback c \<and> cbargs c' = cbargs c \<and> cbcontext c' = cbcontext c
      \<and> (cbcancelled c \<longrightarrow> cbcancelled c'))"

definition world_evolves :: "'c world \<Rightarrow> 'c world \<Rightarrow> bool" where
  "world_evolves w w' =
     (maps_evolve tcp_evolves (tcp_objs w) (tcp_objs w') \<and> maps_evolve udp_evolves (udp_objs w) (udp_objs w')
      \<and> maps_evolve cb_evolves (cb_objs w) (cb_objs w') \<and> (\<exists>us. trace w' = trace w @ us))"

lemma maps_evolveD: "maps_evolve R m m' \<Longrightarrow> m n = Some x \<Longrightarrow> \<exists>y. m' n = Some y \<and> R x y"
  by (simp add: maps_evolve_def)

lemma maps_evolve_trans:
  "maps_evolve R l m \<Longrightarrow> maps_evolve R m n \<Longrightarrow> (\<And>x y z. R x y \<Longrightarrow> R y z \<Longrightarrow> R x z) \<Longrightarrow> maps_evolve R l n"
  unfolding maps_evolve_def by meson

lemma maps_evolve_simps [simp]:
  "(\<And>x. R x x) \<Longrightarrow> maps_evolve R m m"
  "(\<And>x. R x x) \<Longrightarrow> m n = None \<Longrightarrow> maps_evolve R m (m(n \<mapsto> y))"
  "(\<And>x. R x x) \<Longrightarrow> (\<And>x. m n = Some x \<Longrightarrow> R x (g x)) \<Longrightarrow> maps_evolve R m (m(n := map_option g (m n)))"
  by (auto simp: maps_evolve_def)

lemma cb_evolves_refl [simp]: "cb_evolves c c"
  by (simp add: cb_evolves_def)

lemma world_evolves_refl [simp]: "world_evolves w w"
  by (simp add: world_evolves_def)

lemma cb_evolves_trans: "cb_evolves c d \<Longrightarrow> cb_evolves d e \<Longrightarrow> cb_evolves c e"
  by (simp add: cb_evolves_def)

lemma world_evolves_trans:
  assumes "world_evolves u v" "world_evolves v w"
  shows "world_evolves u w"
proof -
  note D = assms [unfolded world_evolves_def]
  have "maps_evolve tcp_evolves (tcp_objs u) (tcp_objs w)"
    by (rule maps_evolve_trans) (use D evolves_trans(1) in blast)+
  moreover have "maps_evolve udp_evolves (udp_objs u) (udp_objs w)"
    by (rule maps_evolve_trans) (use D evolves_trans(2) in blast)+
  moreover have "maps_evolve cb_evolves (cb_objs u) (cb_objs w)"
    by (rule maps_evolve_trans) (use D cb_evolves_trans in blast)+
  moreover have "\<exists>us. trace w = trace u @ us" using D by auto
  ultimately show ?thesis by (simp add: world_evolves_def)
qed

section \<open>Python\<close>

definition py_respects :: "'c ext \<Rightarrow> bool" where
  "py_respects E =
     (\<forall>c w. loop_inv w \<longrightarrow> loop_inv (snd (py E c w)) \<and> world_evolves w (snd (py E c w)))"

definition safe_from :: "'c ext \<Rightarrow> 'c world \<Rightarrow> 'c world \<Rightarrow> bool" where
  "safe_from E w w' = (py_respects E \<and> loop_inv w' \<and> world_evolves w w')"

lemma safe_fromI:
  "safe_from E w v \<Longrightarrow> (loop_inv v \<Longrightarrow> loop_inv v') \<Longrightarrow> (loop_inv v \<Longrightarrow> world_evolves v v') \<Longrightarrow> safe_from E w v'"
  unfolding safe_from_def by (blast intro: world_evolves_trans)

text \<open>The elementary changes.\<close>

lemma queue_inv_upd [simp]:
  "queue_inv (w\<lparr>ssock := p\<rparr>) = queue_inv w" "queue_inv (w\<lparr>tcp_lstreams := m\<rparr>) = queue_inv w"
  "queue_inv (w\<lparr>tcp_transports := m'\<rparr>) = queue_inv w" "queue_inv (w\<lparr>udp_transports := m''\<rparr>) = queue_inv w"
  "queue_inv (set_io f h w) = queue_inv w" "queue_inv (del_io f w) = queue_inv w"
  "queue_inv (upd_tcp t g w) = queue_inv w" "queue_inv (upd_udp u g' w) = queue_inv w"
  by (rule queue_inv_cong; simp add: set_io_def del_io_def upd_tcp_def upd_udp_def)+

lemma reg_step_other: "(\<And>p. e \<noteq> Poll p) \<Longrightarrow> reg_step e r = r"
  by (cases e) auto

lemma entry_ok_mono:
  assumes "entry_ok w f h" "\<And>n. cb_objs w n \<noteq> None \<Longrightarrow> cb_objs w' n \<noteq> None"
    "\<And>g. tcp_lstreams w g \<noteq> None \<Longrightarrow> tcp_lstreams w' g \<noteq> None"
  shows "entry_ok w' f h"
  using assms by (auto simp: entry_ok_def split: IOHandle.splits)

lemma table_ok_mono:
  assumes "table_ok w" "handles_io w' = handles_io w" "\<And>n. cb_objs w n \<noteq> None \<Longrightarrow> cb_objs w' n \<noteq> None"
    "\<And>g. tcp_lstreams w g \<noteq> None \<Longrightarrow> tcp_lstreams w' g \<noteq> None"
    "requested (trace w') = requested (trace w)"
  shows "table_ok w'"
  using assms entry_ok_mono [of w _ _ w'] unfolding table_ok_def by metis

lemma elem_emit:
  assumes "loop_inv w" "\<And>p. e \<noteq> Poll p"
  shows "loop_inv (emit e w)" "world_evolves w (emit e w)"
proof -
  have "table_ok (emit e w)"
    by (rule table_ok_mono [of w]) (use assms in \<open>simp_all add: loop_inv_def reg_step_other\<close>)
  then show "loop_inv (emit e w)" using assms(1) by (simp add: loop_inv_def objects_ok_def)
qed (simp add: world_evolves_def)

text \<open>A change of the queues alone.\<close>

lemma elem_queues:
  assumes "loop_inv w" "queue_inv w'" "handles_io w' = handles_io w" "tcp_lstreams w' = tcp_lstreams w"
    "tcp_transports w' = tcp_transports w" "udp_transports w' = udp_transports w" "tcp_objs w' = tcp_objs w"
    "udp_objs w' = udp_objs w" "cb_objs w' = cb_objs w" "next_obj w' = next_obj w" "trace w' = trace w"
  shows "loop_inv w'" "world_evolves w w'"
proof -
  have "table_ok w'" by (rule table_ok_mono [of w]) (use assms(1) in \<open>simp_all add: loop_inv_def assms(3,4,9,11)\<close>)
  moreover have "objects_ok w'" using assms(1) by (simp add: loop_inv_def objects_ok_def assms(5-10))
  ultimately show "loop_inv w'" using assms(2) by (simp add: loop_inv_def)
  show "world_evolves w w'" by (simp add: world_evolves_def assms(7-9,11))
qed

lemma elem_core:
  assumes "loop_inv w" "same_core w w'"
  shows "loop_inv w'" "world_evolves w w'"
proof -
  have q: "queue_inv w'" using assms same_core_invs(1) [OF assms(2)] by (simp add: loop_inv_def)
  from elem_queues [OF assms(1) q] assms(2) show "loop_inv w'" "world_evolves w w'"
    by (simp_all add: same_core_def)
qed

lemma fresh_number:
  assumes "loop_inv w"
  shows "cb_objs w (next_obj w) = None" "tcp_objs w (next_obj w) = None" "udp_objs w (next_obj w) = None"
proof -
  have "\<forall>n. cb_objs w n \<noteq> None \<longrightarrow> n < next_obj w" "\<forall>n T. tcp_objs w n = Some T \<longrightarrow> n < next_obj w"
    "\<forall>n U. udp_objs w n = Some U \<longrightarrow> n < next_obj w"
    using assms by (simp_all add: loop_inv_def queue_inv_def objs_below_def objects_ok_def)
  then show "cb_objs w (next_obj w) = None" "tcp_objs w (next_obj w) = None" "udp_objs w (next_obj w) = None"
    by (metis less_irrefl option.exhaust)+
qed

lemma elem_new_handle:
  assumes "loop_inv w"
  shows "loop_inv (snd (new_handle c w))" "world_evolves w (snd (new_handle c w))"
proof -
  have q: "queue_inv w" "table_ok w" "objects_ok w" using assms by (simp_all add: loop_inv_def)
  note fresh = fresh_number [OF assms]
  note objs = q(3) [unfolded objects_ok_def]
  have "queue_inv (snd (new_handle c w))" using new_handle_inv(1) [OF q(1)] by (simp add: new_handle_def)
  moreover have "table_ok (snd (new_handle c w))"
    using q(2) by (rule table_ok_mono) (simp_all add: new_handle_def)
  moreover have "objects_ok (snd (new_handle c w))"
    using objs fresh unfolding objects_ok_def by (simp add: new_handle_def less_SucI) (metis option.distinct(1))
  ultimately show "loop_inv (snd (new_handle c w))" by (simp add: loop_inv_def)
  show "world_evolves w (snd (new_handle c w))" using fresh by (simp add: world_evolves_def new_handle_def)
qed

lemma elem_cancel:
  assumes "loop_inv w"
  shows "loop_inv (cancel n w)" "world_evolves w (cancel n w)"
proof -
  have dom: "(cb_objs (cancel n w) m = None) = (cb_objs w m = None)" for m by (simp add: cancel_def)
  have q: "queue_inv w" "table_ok w" "objects_ok w" using assms by (simp_all add: loop_inv_def)
  have "table_ok (cancel n w)" using q(2) by (rule table_ok_mono) (auto simp: cancel_def)
  moreover have "queue_inv (cancel n w)"
    using q(1) dom by (simp add: queue_inv_def handle_known_def objs_below_def) (simp add: cancel_def)
  moreover have "objects_ok (cancel n w)" using q(3) dom by (simp add: objects_ok_def) (simp add: cancel_def)
  ultimately show "loop_inv (cancel n w)" by (simp add: loop_inv_def)
  show "world_evolves w (cancel n w)" by (simp add: world_evolves_def cancel_def cb_evolves_def)
qed

lemma elem_take_ready:
  assumes "loop_inv w"
  shows "loop_inv (snd (take_ready w))" "world_evolves w (snd (take_ready w))"
  using elem_queues [OF assms, of "snd (take_ready w)"] take_ready_inv [of w "fst (take_ready w)" "snd (take_ready w)"] assms
  by (simp_all add: loop_inv_def) (simp_all add: take_ready_def)

lemma elem_push:
  assumes "loop_inv w" "handle_known w h"
  shows "loop_inv (push_ready h w)" "world_evolves w (push_ready h w)"
    "loop_inv (push_sched h tm w)" "world_evolves w (push_sched h tm w)"
proof -
  have q: "queue_inv (push_ready h w)" "queue_inv (push_sched h tm w)"
    using assms by (simp_all add: loop_inv_def push_ready_inv push_sched_inv)
  show "loop_inv (push_ready h w)" "world_evolves w (push_ready h w)"
    by (rule elem_queues [OF assms(1) q(1)]; simp add: push_ready_def Let_def)+
  show "loop_inv (push_sched h tm w)" "world_evolves w (push_sched h tm w)"
    by (rule elem_queues [OF assms(1) q(2)]; simp add: push_sched_def)+
qed

lemma elem_signals:
  assumes "loop_inv w" "\<forall>s h. m s = Some h \<longrightarrow> cb_objs w h \<noteq> None"
  shows "loop_inv (w\<lparr>sig_handlers := m\<rparr>)" "world_evolves w (w\<lparr>sig_handlers := m\<rparr>)"
proof -
  have q: "queue_inv (w\<lparr>sig_handlers := m\<rparr>)"
    using assms by (simp add: loop_inv_def queue_inv_def handle_known_def objs_below_def)
  show "loop_inv (w\<lparr>sig_handlers := m\<rparr>)" "world_evolves w (w\<lparr>sig_handlers := m\<rparr>)"
    by (rule elem_queues [OF assms(1) q]; simp)+
qed

lemma signals_known: "loop_inv w \<Longrightarrow> \<forall>s h. sig_handlers w s = Some h \<longrightarrow> cb_objs w h \<noteq> None"
  by (simp add: loop_inv_def queue_inv_def)

lemma elem_drain:
  assumes "loop_inv w" "drain_timers tick (handles_sched w) hs = Ret (b, sched)"
  shows "loop_inv (w\<lparr>handles_sched := sched\<rparr>)" "world_evolves w (w\<lparr>handles_sched := sched\<rparr>)"
proof -
  have heap: "heap_inv Timer_le (handles_sched w)" using assms(1) by (simp add: loop_inv_def queue_inv_def)
  obtain ds where ds: "pop_while Timer_le (\<lambda>t. t_when t \<le> tick) (handles_sched w) = (ds, sched)"
    using assms(2) by (auto simp: drain_timers_pop_while split: prod.splits)
  note pw = th.pop_while_steps [OF heap ds]
  have "set sched \<subseteq> set (handles_sched w)"
    using arg_cong [OF conjunct1 [OF pw], of set_mset] by auto
  then have q: "queue_inv (w\<lparr>handles_sched := sched\<rparr>)"
    using assms(1) pw by (auto simp: loop_inv_def queue_inv_def handle_known_def objs_below_def)
  show "loop_inv (w\<lparr>handles_sched := sched\<rparr>)" "world_evolves w (w\<lparr>handles_sched := sched\<rparr>)"
    by (rule elem_queues [OF assms(1) q]; simp)+
qed

text \<open>A change of the table and of the poller.\<close>

lemma elem_table:
  assumes "loop_inv w" "w' = w\<lparr>handles_io := handles_io w', trace := trace w @ us\<rparr>"
    "\<And>f h. handles_io w' f = Some h \<Longrightarrow> entry_ok w f h \<and> (\<exists>i. requested (trace w @ us) f = Some i \<and> watch_ok i h)"
  shows "loop_inv w'" "world_evolves w w'"
proof -
  have same: "cb_objs w' = cb_objs w" "tcp_objs w' = tcp_objs w" "udp_objs w' = udp_objs w"
    "tcp_lstreams w' = tcp_lstreams w" "tcp_transports w' = tcp_transports w" "next_obj w' = next_obj w"
    "udp_transports w' = udp_transports w" "trace w' = trace w @ us" "handles_ready w' = handles_ready w"
    "handles_sched w' = handles_sched w" "counter_ready w' = counter_ready w" "sig_handlers w' = sig_handlers w"
    by (subst assms(2), simp)+
  have "queue_inv w'"
    using assms(1) queue_inv_cong [OF same(9-11,1,6,12)] by (simp add: loop_inv_def)
  moreover have "table_ok w'"
    using assms(3) entry_ok_same [OF same(1,4)] by (simp add: table_ok_def same(8))
  moreover have "objects_ok w'" using assms(1) by (simp add: loop_inv_def objects_ok_def same)
  ultimately show "loop_inv w'" by (simp add: loop_inv_def)
  show "world_evolves w w'" by (simp add: world_evolves_def same)
qed

lemma tableD: "loop_inv w \<Longrightarrow> handles_io w f = Some h \<Longrightarrow> entry_ok w f h \<and> (\<exists>i. requested (trace w) f = Some i \<and> watch_ok i h)"
  by (auto simp: loop_inv_def table_ok_def)

lemma elem_registry:
  assumes "loop_inv w"
  shows "entry_ok w f h \<Longrightarrow> watch_ok i h \<Longrightarrow> loop_inv (set_io f h (emit (Poll (Register f i)) w))"
    "world_evolves w (set_io f h (emit (Poll (Register f i)) w))"
    "entry_ok w f h \<Longrightarrow> watch_ok i h \<Longrightarrow> loop_inv (set_io f h (emit (Poll (Reregister f i)) w))"
    "world_evolves w (set_io f h (emit (Poll (Reregister f i)) w))"
    "handles_io w f = None \<Longrightarrow> loop_inv (emit (Poll (Deregister f)) w)" "world_evolves w (emit (Poll (Deregister f)) w)"
    "loop_inv (del_io f w)" "world_evolves w (del_io f w)"
proof -
  show "loop_inv (set_io f h (emit (Poll (Register f i)) w))" if "entry_ok w f h" "watch_ok i h"
    by (rule elem_table(1) [OF assms, where us = "[Poll (Register f i)]"])
       (use that tableD [OF assms] in \<open>auto simp: set_io_def emit_def split: if_splits\<close>)
  show "loop_inv (set_io f h (emit (Poll (Reregister f i)) w))" if "entry_ok w f h" "watch_ok i h"
    by (rule elem_table(1) [OF assms, where us = "[Poll (Reregister f i)]"])
       (use that tableD [OF assms] in \<open>auto simp: set_io_def emit_def split: if_splits\<close>)
  show "loop_inv (emit (Poll (Deregister f)) w)" if "handles_io w f = None"
    by (rule elem_table(1) [OF assms, where us = "[Poll (Deregister f)]"])
       (use that tableD [OF assms] in \<open>auto simp: emit_def\<close>)
  show "loop_inv (del_io f w)"
    by (rule elem_table(1) [OF assms, where us = "[]"])
       (use tableD [OF assms] in \<open>auto simp: del_io_def split: if_splits\<close>)
qed (simp_all add: world_evolves_def set_io_def del_io_def)

text \<open>A change of the objects or of the maps that find them.\<close>

lemma elem_objects:
  assumes "loop_inv w" "queue_inv w'" "objects_ok w'" "handles_io w' = handles_io w" "cb_objs w' = cb_objs w"
    "trace w' = trace w" "\<And>g. tcp_lstreams w g \<noteq> None \<Longrightarrow> tcp_lstreams w' g \<noteq> None"
  shows "loop_inv w'"
proof -
  have "table_ok w'"
    by (rule table_ok_mono [of w]) (use assms in \<open>simp_all add: loop_inv_def\<close>)
  then show ?thesis using assms(2,3) by (simp add: loop_inv_def)
qed

lemma invD:
  assumes "loop_inv w"
  shows "queue_inv w" "table_ok w" "objects_ok w"
  using assms by (simp_all add: loop_inv_def)

lemma elem_lstreams:
  assumes "loop_inv w"
  shows "dom (tcp_lstreams w) \<subseteq> dom m \<Longrightarrow> loop_inv (w\<lparr>tcp_lstreams := m\<rparr>)"
    "handles_io w f = None \<Longrightarrow> loop_inv (w\<lparr>tcp_lstreams := (tcp_lstreams w)(f := None)\<rparr>)"
    "world_evolves w (w\<lparr>tcp_lstreams := m\<rparr>)"
proof -
  note D = invD [OF assms]
  show "loop_inv (w\<lparr>tcp_lstreams := m\<rparr>)" if "dom (tcp_lstreams w) \<subseteq> dom m"
    by (rule elem_objects [OF assms]) (use D that in \<open>auto simp: objects_ok_def\<close>)
  show "loop_inv (w\<lparr>tcp_lstreams := (tcp_lstreams w)(f := None)\<rparr>)" if "handles_io w f = None"
  proof -
    have "entry_ok (w\<lparr>tcp_lstreams := (tcp_lstreams w)(f := None)\<rparr>) g h"
      if "handles_io w g = Some h" "entry_ok w g h" for g h
      using that \<open>handles_io w f = None\<close> by (auto simp: entry_ok_def split: IOHandle.splits)
    then show ?thesis using D by (auto simp: loop_inv_def table_ok_def objects_ok_def)
  qed
qed (simp add: world_evolves_def)

lemma elem_upd_tcp:
  assumes "loop_inv w" "\<And>T. tcp_objs w t = Some T \<Longrightarrow> tcp_evolves T (g T)"
  shows "loop_inv (upd_tcp t g w)" "world_evolves w (upd_tcp t g w)"
proof -
  note D = invD [OF assms(1)]
  have "objects_ok (upd_tcp t g w)"
    using D(3) assms(2) unfolding objects_ok_def
    by (simp add: upd_tcp_def tcp_evolves_def) (metis option.distinct(1) option.inject)
  then show "loop_inv (upd_tcp t g w)"
    using D(1) by (intro elem_objects [OF assms(1)]) (simp_all, simp_all add: upd_tcp_def)
  show "world_evolves w (upd_tcp t g w)" using assms(2) by (simp add: world_evolves_def upd_tcp_def)
qed

lemma elem_upd_udp:
  assumes "loop_inv w" "\<And>U. udp_objs w u = Some U \<Longrightarrow> udp_evolves U (g U)"
  shows "loop_inv (upd_udp u g w)" "world_evolves w (upd_udp u g w)"
proof -
  note D = invD [OF assms(1)]
  have "objects_ok (upd_udp u g w)"
    using D(3) assms(2) unfolding objects_ok_def
    by (simp add: upd_udp_def udp_evolves_def) (metis option.distinct(1) option.inject)
  then show "loop_inv (upd_udp u g w)"
    using D(1) by (intro elem_objects [OF assms(1)]) (simp_all, simp_all add: upd_udp_def)
  show "world_evolves w (upd_udp u g w)" using assms(2) by (simp add: world_evolves_def upd_udp_def)
qed

lemma elem_new_tcp:
  assumes "loop_inv w" "tcp_wf T"
  shows "loop_inv (snd (new_transport T w))" "world_evolves w (snd (new_transport T w))"
proof -
  note D = invD [OF assms(1)] and fresh = fresh_number [OF assms(1)]
  let ?w = "snd (new_transport T w)"
  have "queue_inv ?w" using D(1) by (auto simp: new_transport_def queue_inv_def handle_known_def objs_below_def)
  moreover have "objects_ok ?w"
    using D(3) fresh assms(2) unfolding objects_ok_def
    by (simp add: new_transport_def less_SucI) (metis option.distinct(1))
  ultimately show "loop_inv ?w" by (rule elem_objects [OF assms(1)]) (simp_all add: new_transport_def)
  show "world_evolves w ?w" using fresh by (simp add: world_evolves_def new_transport_def)
qed

lemma elem_new_udp:
  assumes "loop_inv w" "udp_wf U"
  shows "loop_inv (w\<lparr>udp_objs := (udp_objs w)(next_obj w \<mapsto> U), next_obj := Suc (next_obj w)\<rparr>)" (is "loop_inv ?w")
    "world_evolves w (w\<lparr>udp_objs := (udp_objs w)(next_obj w \<mapsto> U), next_obj := Suc (next_obj w)\<rparr>)"
proof -
  note D = invD [OF assms(1)] and fresh = fresh_number [OF assms(1)]
  have "queue_inv ?w" using D(1) by (auto simp: queue_inv_def handle_known_def objs_below_def)
  moreover have "objects_ok ?w"
    using D(3) fresh assms(2) unfolding objects_ok_def by (simp add: less_SucI) (metis option.distinct(1))
  ultimately show "loop_inv ?w" by (rule elem_objects [OF assms(1)]) simp_all
  show "world_evolves w ?w" using fresh by (simp add: world_evolves_def)
qed

lemma elem_find:
  assumes "loop_inv w"
  shows "tcp_objs w t = Some T \<Longrightarrow> loop_inv (w\<lparr>tcp_transports := (tcp_transports w)(tfd T \<mapsto> t)\<rparr>)"
    "loop_inv (w\<lparr>tcp_transports := (tcp_transports w)(f := None)\<rparr>)"
    "udp_objs w u = Some U \<Longrightarrow> loop_inv (w\<lparr>udp_transports := (udp_transports w)(ufd U \<mapsto> u)\<rparr>)"
    "loop_inv (w\<lparr>udp_transports := (udp_transports w)(f := None)\<rparr>)"
    "world_evolves w (w\<lparr>tcp_transports := m\<rparr>)" "world_evolves w (w\<lparr>udp_transports := m\<rparr>)"
  using invD [OF assms]
  by (auto intro!: elem_objects [OF assms] simp: objects_ok_def world_evolves_def split: if_splits)

lemma elem_sig_put:
  assumes "loop_inv w" "cb_objs w n \<noteq> None"
  shows "loop_inv (w\<lparr>sig_handlers := (sig_handlers w)(s \<mapsto> n)\<rparr>)"
    "world_evolves w (w\<lparr>sig_handlers := (sig_handlers w)(s \<mapsto> n)\<rparr>)"
  using assms(2) signals_known [OF assms(1)] by (auto intro!: elem_signals [OF assms(1)] split: if_splits)

lemma elem_sig_del:
  assumes "loop_inv w" "m \<subseteq>\<^sub>m sig_handlers w"
  shows "loop_inv (w\<lparr>sig_handlers := m\<rparr>)" "world_evolves w (w\<lparr>sig_handlers := m\<rparr>)"
proof -
  have "\<forall>s h. m s = Some h \<longrightarrow> cb_objs w h \<noteq> None"
    using signals_known [OF assms(1)] assms(2) unfolding map_le_def by (metis domI)
  then show "loop_inv (w\<lparr>sig_handlers := m\<rparr>)" "world_evolves w (w\<lparr>sig_handlers := m\<rparr>)"
    by (rule elem_signals [OF assms(1)])+
qed

lemma elem_flags:
  assumes "loop_inv w"
  shows "loop_inv (w\<lparr>idle := b\<rparr>)" "world_evolves w (w\<lparr>idle := b\<rparr>)"
    "loop_inv (w\<lparr>ssock := p\<rparr>)" "world_evolves w (w\<lparr>ssock := p\<rparr>)"
  by (rule elem_queues [OF assms]; use invD(1) [OF assms] in simp)+

lemmas elems =
  elem_emit elem_core elem_flags elem_new_handle elem_cancel elem_push elem_sig_put elem_sig_del
  elem_take_ready elem_drain elem_registry elem_lstreams elem_upd_tcp elem_new_tcp elem_upd_udp
  elem_new_udp elem_find

section \<open>The interpretation\<close>

interpretation safe: op_inv "safe_from E u" E for E u
proof
  fix w :: "'a world" and c t T
  assume s: "safe_from E u w"
  then have py: "loop_inv (snd (py E c w))" "world_evolves w (snd (py E c w))"
    by (simp_all add: safe_from_def py_respects_def)
  show "safe_from E u (snd (py E c w))" using s py by (rule safe_fromI)
  show "\<exists>T'. tcp_objs (snd (py E c w)) t = Some T' \<and> tcp_evolves T T'" if "tcp_objs w t = Some T"
    using py(2) that by (simp add: world_evolves_def maps_evolve_def)
  show "\<exists>T'. udp_objs (snd (py E c w)) t = Some T' \<and> udp_evolves U T'" if "udp_objs w t = Some U" for U
    using py(2) that by (simp add: world_evolves_def maps_evolve_def)
  show "entry_ok w f h" if "handles_io w f = Some h" for f h
    using s tableD [of w f h] that by (simp add: safe_from_def)
qed (erule safe_fromI; rule elems; assumption)+

lemma loop_op_safe:
  assumes "py_respects E" "loop_inv w" "loop_op E w w'"
  shows "loop_inv w' \<and> world_evolves w w'"
proof -
  have "safe_from E w w" using assms(1,2) by (simp add: safe_from_def)
  from safe.loop_op_keeps [OF assms(3) this] show ?thesis by (auto simp: safe_from_def)
qed

lemma api_python_respects: "api_python E \<Longrightarrow> py_respects E"
proof (induction rule: api_python.induct)
  case (api E)
  have "loop_inv v \<longrightarrow> loop_inv v' \<and> world_evolves v v'"
    if "(\<lambda>v v'. \<exists>E'. (api_python E' \<and> py_respects E') \<and> loop_op E' v v')\<^sup>*\<^sup>* v v'" for v v'
    using that
    by induction (auto intro: world_evolves_trans dest: loop_op_safe)
  with api show ?case unfolding py_respects_def by blast
qed

lemma loop_ops_safe:
  assumes "api_python E" "(loop_op E)\<^sup>*\<^sup>* w w'" "loop_inv w"
  shows "loop_inv w' \<and> world_evolves w w'"
  using assms(2,3)
proof (induction)
  case (step v v')
  then show ?case
    using loop_op_safe [OF api_python_respects [OF assms(1)]] world_evolves_trans by blast
qed simp

lemma loop_inv_new: "loop_inv (EventLoop_new none ctx)"
  by (simp add: loop_inv_def table_ok_def objects_ok_def)

lemma reachable_inv:
  "api_python E \<Longrightarrow> (loop_op E)\<^sup>*\<^sup>* (EventLoop_new none ctx) w \<Longrightarrow> loop_inv w"
  using loop_ops_safe loop_inv_new by blast

lemma api_python_demo: "api_python demo_ext" "api_python (demo_ext\<lparr>tls_new_server := f\<rparr>)"
  by (auto simp: demo_ext_def intro!: api_python.api)

section \<open>Collecting a batch\<close>


definition batch_ok :: "'c world \<Rightarrow> BoxedHandle list \<Rightarrow> bool" where
  "batch_ok w hs = (\<forall>h \<in> set hs. handle_known w h)"


lemma handle_known_simps [simp]:
  "handle_known w (HCB n) = (cb_objs w n \<noteq> None)" "handle_known w HNoOp" "handle_known w (HTCPRead f)"
  "handle_known w (HTCPWrite f)" "handle_known w (HUDPRead f)" "handle_known w (HUDPWrite f)"
  by (simp_all add: handle_known_def)

lemma batch_ok_mono: "batch_ok w hs \<Longrightarrow> world_evolves w w' \<Longrightarrow> batch_ok w' hs"
  by (fastforce simp: batch_ok_def handle_known_def world_evolves_def maps_evolve_def)

text \<open>
  Protocol factories that leave the poller alone, so that calling them while its mutex is held is no
  deadlock; and an outcome that is not a panic: a batch of handles the loop knows, or a deadlock on
  that mutex, which such factories rule out.
\<close>

definition factories_quiet :: "'c ext \<Rightarrow> bool" where
  "factories_quiet E = (\<forall>pf w. \<not> io_locked_again w (snd (call_py E (ProtoFactory pf) w)))"

definition collected :: "'c ext \<Rightarrow> 'c world \<Rightarrow> (BoxedHandle list \<times> 'c world) outcome \<Rightarrow> bool" where
  "collected E u m =
     ((\<exists>hs w. m = Ret (hs, w) \<and> safe_from E u w \<and> batch_ok w hs) \<or> m = Blocked \<and> \<not> factories_quiet E)"

lemma collected_Ret [simp]: "collected E u (Ret (hs, w)) = (safe_from E u w \<and> batch_ok w hs)"
  by (simp add: collected_def)








lemma poll_sleep_cbs: "cb_objs (poll_sleep st hs w) = cb_objs w"
proof -
  have "cb_objs (fold (\<lambda>h w. wake (push_ready h w)) hs v) = cb_objs v" for v
    by (induction hs arbitrary: v) (simp_all add: push_ready_def Let_def)
  then show ?thesis by (simp add: poll_sleep_def Let_def)
qed


section \<open>The run loop\<close>

text \<open>
  A run of \<^verbatim>\<open>_run\<close> is a sequence of operations, so that everything above holds of it; it ends as stopped
  only with the stopping flag up or after an interrupted poll that no signal explains, as failed only with an error of
  the poller, and with the flag up it ends before the next step.
\<close>

lemma run_loop_ops:
  assumes "api_python E"
  shows "loop_inv w \<Longrightarrow> \<forall>si \<in> set sis. \<forall>h \<in> set (si_arrived si). handle_known w h \<Longrightarrow>
     run_loop E sis tick w = Ret (r, w') \<Longrightarrow> (loop_op E)\<^sup>*\<^sup>* w w'"
proof (induction sis arbitrary: tick w)
  case (Cons si sis)
  show ?case
  proof (cases "stopping w")
    case False
    with Cons.prems(3) obtain res tick1 w1 where s: "step E si tick w = Ret (res, tick1, w1)"
      by (auto simp: and_then_eq_Ret_iff)
    have op: "loop_op E w w1" using Cons.prems(2) s by (intro op_step) auto
    note safe1 = loop_op_safe [OF api_python_respects [OF assms] Cons.prems(1) op]
    let ?v = "w1\<lparr>sig_loop_handled := False\<rparr>"
    have op': "loop_op E w1 ?v" by (rule op_signal_seen)
    have known: "\<forall>si \<in> set sis. \<forall>h \<in> set (si_arrived si). handle_known v h" if "world_evolves w v" for v
      using Cons.prems(2) batch_ok_mono [OF _ that] unfolding batch_ok_def by auto
    have safe2: "loop_inv ?v \<and> world_evolves w1 ?v"
      using loop_op_safe [OF api_python_respects [OF assms] _ op'] safe1 by blast
    note IH1 = Cons.IH [OF conjunct1 [OF safe1] known [OF conjunct2 [OF safe1]]]
    note IH2 = Cons.IH [OF conjunct1 [OF safe2] known [OF world_evolves_trans [OF conjunct2 [OF safe1] conjunct2 [OF safe2]]]]
    have "(loop_op E)\<^sup>*\<^sup>* w1 w'"
      using Cons.prems(3) s False IH1 IH2 op'
      by (auto split: pollres.splits if_splits intro: converse_rtranclp_into_rtranclp)
    with op show ?thesis by (rule converse_rtranclp_into_rtranclp)
  qed (use Cons.prems in simp)
qed simp

lemma run_loop_ends:
  assumes "run_loop E sis tick w = Ret (r, w')"
  shows "r = Running \<Longrightarrow> \<not> stopping w'" "r = Failed e \<Longrightarrow> \<exists>si \<in> set sis. si_poll si = PollErr e"
    "r = Stopped \<Longrightarrow> stopping w' \<or> (\<exists>si \<in> set sis. si_poll si = PollInterrupted)"
    "stopping w \<Longrightarrow> r = Stopped \<and> w' = w"
proof -
  have poll: "res = si_poll si \<or> res = PollOk" if "step E si tk v = Ret (res, tk', v')" for si tk v res tk' v'
    using that by (auto simp: step_def and_then_eq_Ret_iff split: prod.splits if_splits)
  have "(r = Running \<longrightarrow> \<not> stopping w') \<and> (\<forall>e. r = Failed e \<longrightarrow> (\<exists>si \<in> set sis. si_poll si = PollErr e))
      \<and> (r = Stopped \<longrightarrow> stopping w' \<or> (\<exists>si \<in> set sis. si_poll si = PollInterrupted))"
    using assms
  proof (induction sis arbitrary: tick w)
    case (Cons si sis)
    show ?case
    proof (cases "stopping w")
      case False
      with Cons.prems obtain res tick1 w1 where s: "step E si tick w = Ret (res, tick1, w1)"
        by (auto simp: and_then_eq_Ret_iff)
      show ?thesis
        using Cons.prems s False poll [OF s] Cons.IH [of tick1 w1] Cons.IH [of tick1 "w1\<lparr>sig_loop_handled := False\<rparr>"]
        by (auto split: pollres.splits if_splits)
    qed (use Cons.prems in simp)
  qed (auto split: if_splits)
  then show "r = Running \<Longrightarrow> \<not> stopping w'" "r = Failed e \<Longrightarrow> \<exists>si \<in> set sis. si_poll si = PollErr e"
    "r = Stopped \<Longrightarrow> stopping w' \<or> (\<exists>si \<in> set sis. si_poll si = PollInterrupted)"
    by blast+
  show "stopping w \<Longrightarrow> r = Stopped \<and> w' = w" using assms by (cases sis) auto
qed

section \<open>The properties\<close>

text \<open>
  C3. The state of the loop is well formed, always. Start from a new loop and run any operations of
  the loop, its transports and its servers that return, in any order and with any answers of the
  kernel and of Python, where Python in turn acts on the loop through these operations only, nested
  to any depth. Then the queues are consistent; for every descriptor in the table the last request
  the loop made to the poller was to watch it, for exactly the interest the entry records (the entry
  of Python callbacks can record more), although the loop does not know whether the poller
  accepted it, since it drops the answers; the entry of a listener has its set of streams and
  that of a Python callback its handle; every transport found by its descriptor exists and has
  that descriptor; the water marks of a transport are in order and its buffer holds no empty chunk.
\<close>

theorem reachable_states_ok:
  assumes "api_python E" "(loop_op E)\<^sup>*\<^sup>* (EventLoop_new none ctx) w"
  shows "loop_inv w"
  using assms by (rule reachable_inv)

theorem reachable_states_ok_witness:
  "\<exists>w. tcp_conn demo_ext 7 9 None (snd (call_soon 1 2 None 3 loop0)) = Ret (Inr (1, 0), w)
     \<and> tcp_transports w 7 = Some 1 \<and> loop_inv w"
proof -
  let ?w1 = "snd (call_soon 1 2 None 3 loop0)"
  obtain w where w: "tcp_conn demo_ext 7 9 None ?w1 = Ret (Inr (1, 0), w)" "tcp_transports w 7 = Some 1"
    by (simp add: tcp_conn_def TCPTransport_from_py_def call_py_def demo_ext_def call_soon_def new_handle_def push_ready_def Let_def
        new_transport_def attach_def tcp_stream_add_def TCPTransport_new_def set_io_def)
  have "loop_op demo_ext loop0 ?w1" "loop_op demo_ext ?w1 w" using w(1) by (auto intro: loop_op.intros)
  then have "(loop_op demo_ext)\<^sup>*\<^sup>* loop0 w" by (meson r_into_rtranclp rtranclp_trans)
  from reachable_states_ok [OF api_python_demo(1) this] w show ?thesis by blast
qed

text \<open>
  C6. What the loop never takes back. From any reachable state, whatever happens next: a transport
  stays, with its descriptor, its listener, its protocol and its choice of TLS; once it is closing,
  has its writing side shut, has finished its handshake, has told its protocol of the connection, or
  has sent or seen a TLS close, that stays so; a handle keeps its callback, arguments and context
  and once cancelled stays cancelled; the history of effects only grows.
\<close>

theorem nothing_is_taken_back:
  assumes "api_python E" "(loop_op E)\<^sup>*\<^sup>* (EventLoop_new none ctx) w" "(loop_op E)\<^sup>*\<^sup>* w w'"
  shows "(\<forall>t T. tcp_objs w t = Some T \<longrightarrow> (\<exists>T'. tcp_objs w' t = Some T'
            \<and> tfd T' = tfd T \<and> lfd T' = lfd T \<and> proto T' = proto T
            \<and> (tls_conn (tstate T') = None \<longleftrightarrow> tls_conn (tstate T) = None)
            \<and> (closing T \<longrightarrow> closing T') \<and> (weof T \<longrightarrow> weof T')
            \<and> (handshake_complete (tstate T) \<longrightarrow> handshake_complete (tstate T'))
            \<and> (connection_made_called (tstate T) \<longrightarrow> connection_made_called (tstate T'))
            \<and> (tls_close_sent (tstate T) \<longrightarrow> tls_close_sent (tstate T'))
            \<and> (tls_close_received (tstate T) \<longrightarrow> tls_close_received (tstate T'))))
     \<and> (\<forall>u U. udp_objs w u = Some U \<longrightarrow> (\<exists>U'. udp_objs w' u = Some U' \<and> ufd U' = ufd U
            \<and> u_proto U' = u_proto U \<and> u_remote_addr U' = u_remote_addr U \<and> (u_closing U \<longrightarrow> u_closing U')))
     \<and> (\<forall>n c. cb_objs w n = Some c \<longrightarrow> (\<exists>c'. cb_objs w' n = Some c' \<and> callback c' = callback c
            \<and> cbargs c' = cbargs c \<and> cbcontext c' = cbcontext c \<and> (cbcancelled c \<longrightarrow> cbcancelled c')))
     \<and> (\<exists>us. trace w' = trace w @ us)"
proof -
  have ev: "world_evolves w w'" using loop_ops_safe [OF assms(1,3)] reachable_inv [OF assms(1,2)] by blast
  then have D: "maps_evolve tcp_evolves (tcp_objs w) (tcp_objs w')" "maps_evolve udp_evolves (udp_objs w) (udp_objs w')"
    "maps_evolve cb_evolves (cb_objs w) (cb_objs w')" "\<exists>us. trace w' = trace w @ us"
    by (simp_all add: world_evolves_def)
  then show ?thesis
    by (auto simp: tcp_evolves_def udp_evolves_def cb_evolves_def dest!: D(1-3) [THEN maps_evolveD])
qed

theorem nothing_is_taken_back_witness:
  "let w = cancel 0 (snd (call_soon 1 2 None 3 loop0)) in
   \<exists>c'. cb_objs (snd (call_soon 4 5 None 6 w)) 0 = Some c' \<and> cbcancelled c' \<and> callback c' = 1"
proof -
  let ?v = "snd (call_soon 1 2 None 3 loop0)"
  let ?w = "cancel 0 ?v" and ?w' = "snd (call_soon 4 5 None 6 (cancel 0 ?v))"
  have "loop_op demo_ext loop0 ?v" "loop_op demo_ext ?v ?w" "loop_op demo_ext ?w ?w'"
    by (rule op_call_soon op_cancel)+
  then have "(loop_op demo_ext)\<^sup>*\<^sup>* loop0 ?w" "(loop_op demo_ext)\<^sup>*\<^sup>* ?w ?w'"
    by (meson r_into_rtranclp rtranclp_trans)+
  note grow = nothing_is_taken_back [OF api_python_demo(1) this, THEN conjunct2, THEN conjunct2, THEN conjunct1]
  have c: "cb_objs ?w 0 = Some \<lparr>callback = 1, cbargs = Args 2, cbcontext = 3, cbcancelled = True\<rparr>"
    by (simp add: cancel_def call_soon_def new_handle_def push_ready_def Let_def CBHandle_new_def)
  show ?thesis using grow [rule_format, OF c] by (simp add: Let_def) blast
qed





end
