(* ===== verification/Python_Glue.thy ===== *)
theory Python_Glue
  imports Loop_Invariant
begin

text \<open>
  The methods of the objects Python holds that only read or forward (\<^verbatim>\<open>TimerHandle\<close>, the
  information and protocol methods of the mio transports), the macros of \<^verbatim>\<open>py.rs\<close> that run a callback in
  a context, the dictionary \<^verbatim>\<open>log.rs\<close> makes for the exception handler, and the version of \<^verbatim>\<open>lib.rs\<close>.
\<close>

section \<open>Running in a context\<close>

text \<open>
  The three macros differ in how the arguments are passed. What the interpreter does on
  \<^verbatim>\<open>PyContext_Enter\<close> and \<^verbatim>\<open>PyContext_Exit\<close> are arguments; the results of both are ignored.
\<close>

definition run_in_ctx ::
  "('x \<Rightarrow> 't \<Rightarrow> 't) \<Rightarrow> ('x \<Rightarrow> 't \<Rightarrow> 't) \<Rightarrow> 'x \<Rightarrow> ('t \<Rightarrow> 'r \<times> 't) \<Rightarrow> 't \<Rightarrow> 'r \<times> 't" where
  "run_in_ctx enter exit ctx cb th =
     (case cb (enter ctx th) of (r, th1) \<Rightarrow> (r, exit ctx th1))"

text \<open>
  When the context is not entered yet, the callback runs with it as the current context and the
  thread is left with the contexts it had, whether the callback returns or raises.
\<close>

lemma run_in_ctx_brackets:
  assumes enter: "\<And>c t. c \<notin> set (stack t) \<Longrightarrow> stack (enter c t) = c # stack t"
    and exit: "\<And>c cs t. stack t = c # cs \<Longrightarrow> stack (exit c t) = cs"
    and cb: "\<And>t. stack (snd (cb t)) = stack t"
    and fresh: "ctx \<notin> set (stack th)"
  shows "stack (snd (run_in_ctx enter exit ctx cb th)) = stack th"
    "\<exists>t. hd (stack t) = ctx \<and> fst (run_in_ctx enter exit ctx cb th) = fst (cb t)"
proof -
  have s: "stack (snd (cb (enter ctx th))) = ctx # stack th" using cb enter [OF fresh] by simp
  show "stack (snd (run_in_ctx enter exit ctx cb th)) = stack th"
    using exit [OF s] by (simp add: run_in_ctx_def case_prod_beta')
  show "\<exists>t. hd (stack t) = ctx \<and> fst (run_in_ctx enter exit ctx cb th) = fst (cb t)"
    by (rule exI [of _ "enter ctx th"]) (simp add: run_in_ctx_def enter [OF fresh] split: prod.split)
qed

section \<open>The dictionary of a logged exception\<close>

datatype log_value = LogExcValue pyobj | LogMessage string | LogObject pyobj

definition log_exc_base_data_to_dict :: "pyobj \<Rightarrow> string \<Rightarrow> (string \<rightharpoonup> log_value) \<Rightarrow> (string \<rightharpoonup> log_value)" where
  "log_exc_base_data_to_dict exc msg dict =
     dict(''exception'' \<mapsto> LogExcValue exc, ''message'' \<mapsto> LogMessage msg)"

text \<open>\<open>msg_of\<close> gives the message of a callback handle, which is made of the repr of its callback.\<close>

definition log_exc_to_py_ctx :: "(nat \<Rightarrow> string) \<Rightarrow> LogExc \<Rightarrow> (string \<rightharpoonup> log_value)" where
  "log_exc_to_py_ctx msg_of exc =
     (case exc of
        LogCBHandle e h \<Rightarrow>
          (log_exc_base_data_to_dict e (msg_of h) Map.empty)(''handle'' \<mapsto> LogObject h)
      | LogTransport e msg protocol transport \<Rightarrow>
          (log_exc_base_data_to_dict e msg Map.empty)
            (''protocol'' \<mapsto> LogObject protocol, ''transport'' \<mapsto> LogObject transport))"

text \<open>The keys the exception handlers of asyncio read, and no other.\<close>

lemma log_exc_to_py_ctx_keys:
  "dom (log_exc_to_py_ctx m exc) =
     (case exc of LogCBHandle _ _ \<Rightarrow> {''exception'', ''message'', ''handle''}
      | LogTransport _ _ _ _ \<Rightarrow> {''exception'', ''message'', ''protocol'', ''transport''})"
  "log_exc_to_py_ctx m (LogCBHandle e h) ''exception'' = Some (LogExcValue e)"
  "log_exc_to_py_ctx m (LogTransport e msg p t) ''exception'' = Some (LogExcValue e)"
  by (auto simp: log_exc_to_py_ctx_def log_exc_base_data_to_dict_def split: LogExc.split)

section \<open>Timer handles\<close>

text \<open>
  What \<^verbatim>\<open>_call_later\<close> returns to Python; \<^verbatim>\<open>when\<close> is in microseconds here, a float of seconds in
  the code.
\<close>

record TimerHandle =
  th_handle :: nat
  th_when :: nat

definition TimerHandle_new :: "nat \<Rightarrow> nat \<Rightarrow> TimerHandle" where
  "TimerHandle_new handle at = \<lparr>th_handle = handle, th_when = at\<rparr>"

definition TimerHandle_cancel :: "TimerHandle \<Rightarrow> 'c world \<Rightarrow> 'c world" where
  "TimerHandle_cancel th w = cancel (th_handle th) w"

definition TimerHandle_cancelled :: "TimerHandle \<Rightarrow> 'c world \<Rightarrow> bool" where
  "TimerHandle_cancelled th w = handle_cancelled (HCB (th_handle th)) w"

text \<open>
  C18. A cancelled timer never runs. In any reachable state schedule a callback with \<^verbatim>\<open>call_later\<close> and
  cancel it through the timer handle Python got. Whatever operations, steps and callbacks follow, the
  handle stays cancelled, and a step whose batch reaches it goes on with the next handle without
  calling anything.
\<close>

theorem cancelled_timer_never_runs:
  assumes py: "api_python E" and reach: "(loop_op E)\<^sup>*\<^sup>* (EventLoop_new none ctx0) w"
    and later: "call_later now d cb args ctx w = ((h, at), w1)"
    and ops: "(loop_op E)\<^sup>*\<^sup>* (TimerHandle_cancel (TimerHandle_new h at) w1) w2"
  shows "TimerHandle_cancelled (TimerHandle_new h at) w2
     \<and> run_batch E envs n (HCB h # hs) w2 = run_batch E envs (Suc n) hs w2"
proof -
  let ?w = "TimerHandle_cancel (TimerHandle_new h at) w1"
  have "w1 = snd (call_later now d cb args ctx w)" using later by simp
  then have "loop_op E w w1" "loop_op E w1 ?w"
    by (simp_all add: op_call_later TimerHandle_cancel_def op_cancel)
  then have inv: "loop_inv ?w" using reachable_inv [OF py, of none ctx0 ?w] reach by (meson rtranclp.rtrancl_into_rtrancl)
  obtain c where c: "cb_objs ?w h = Some c" "cbcancelled c" "cbargs c = Args args"
    using later by (auto simp: TimerHandle_cancel_def TimerHandle_new_def cancel_def call_later_def new_handle_def
        CBHandle_new_def push_sched_def Let_def)
  have "maps_evolve cb_evolves (cb_objs ?w) (cb_objs w2)"
    using loop_ops_safe [OF py ops inv] by (simp add: world_evolves_def)
  from maps_evolveD [OF this c(1)] have "TimerHandle_cancelled (TimerHandle_new h at) w2"
    using c(2,3) by (auto simp: TimerHandle_cancelled_def TimerHandle_new_def cb_evolves_def cb_cancelled_def)
  then show ?thesis by (simp add: TimerHandle_cancelled_def TimerHandle_new_def)
qed

theorem cancelled_timer_never_runs_witness:
  "let w1 = snd (call_later 10 5 1 2 3 loop0); w2 = snd (call_soon 4 5 None 6 (TimerHandle_cancel (TimerHandle_new 0 15) w1))
   in call_later 10 5 1 2 3 loop0 = ((0, 15), w1) \<and> TimerHandle_cancelled (TimerHandle_new 0 15) w2
      \<and> run_batch demo_ext (si_envs demo_input) 0 [HCB 0] w2 = Ret w2"
proof -
  let ?w1 = "snd (call_later 10 5 1 2 3 loop0)"
  let ?v = "TimerHandle_cancel (TimerHandle_new 0 15) ?w1"
  have l: "call_later 10 5 1 2 3 loop0 = ((0, 15), ?w1)" by (simp add: call_later_def new_handle_def Let_def)
  have o: "(loop_op demo_ext)\<^sup>*\<^sup>* ?v (snd (call_soon 4 5 None 6 ?v))" by (rule r_into_rtranclp) (rule op_call_soon)
  from cancelled_timer_never_runs [OF api_python_demo(1) rtranclp.rtrancl_refl l o, of "si_envs demo_input" 0 "[]"] l
  show ?thesis unfolding Let_def by simp
qed

section \<open>Methods of the transports\<close>

text \<open>
  \<^verbatim>\<open>get_extra_info\<close>: \<open>sock\<close> is the wrapped socket and \<open>meth\<close> what its methods answer (\<open>None\<close> when they
  raise); the map of extras is made empty and never filled.
\<close>

definition tcp_get_extra_info ::
  "pyobj \<Rightarrow> (string \<Rightarrow> pyobj option) \<Rightarrow> (string \<rightharpoonup> pyobj) \<Rightarrow> string \<Rightarrow> pyobj option \<Rightarrow> pyobj option" where
  "tcp_get_extra_info sock meth extra name dflt =
     (if name = ''socket'' then Some sock
      else if name = ''sockname'' then meth ''getsockname''
      else if name = ''peername'' then meth ''getpeername''
      else case extra name of Some v \<Rightarrow> Some v | None \<Rightarrow> dflt)"

definition udp_get_extra_info ::
  "pyobj \<Rightarrow> (string \<Rightarrow> pyobj option) \<Rightarrow> (string \<rightharpoonup> pyobj) \<Rightarrow> nat \<Rightarrow> string \<Rightarrow> pyobj option \<Rightarrow> 'c world
     \<Rightarrow> pyobj option outcome" where
  "udp_get_extra_info sock meth extra u name dflt w =
     (if name = ''socket'' then Ret (Some sock)
      else if name = ''sockname'' then Ret (meth ''getsockname'')
      else if name = ''peername'' then
        udp_borrow u w (\<lambda>U. Ret (if u_remote_addr U \<noteq> None then meth ''getpeername'' else dflt))
      else Ret (case extra name of Some v \<Rightarrow> Some v | None \<Rightarrow> dflt))"

definition tcp_set_protocol :: "pyobj \<Rightarrow> unit pyresult" where
  "tcp_set_protocol protocol = Inl (NotImplementedError ''TCPTransport protocol cannot be changed'')"

definition tcp_get_protocol :: "nat \<Rightarrow> 'c world \<Rightarrow> pyobj outcome" where
  "tcp_get_protocol t w = with_tcp t w (\<lambda>T. Ret (proto T))"

definition udp_set_protocol :: "pyobj \<Rightarrow> unit pyresult" where
  "udp_set_protocol protocol = Inl (NotImplementedError ''UDPTransport protocol cannot be changed'')"

definition udp_get_protocol :: "nat \<Rightarrow> 'c world \<Rightarrow> pyobj outcome" where
  "udp_get_protocol u w = with_udp u w (\<lambda>U. Ret (u_proto U))"

text \<open>\<^verbatim>\<open>call_connection_lost\<close>, through \<^verbatim>\<open>call_conn_lost_py\<close>.\<close>

definition tcp_call_connection_lost :: "'c ext \<Rightarrow> kernel \<Rightarrow> nat \<Rightarrow> 'c world \<Rightarrow> 'c world outcome" where
  "tcp_call_connection_lost E K t w = call_conn_lost E K t None w"

text \<open>
  No method and no callback changes the protocol of a transport: \<^verbatim>\<open>get_protocol\<close> gives the same
  answer in every later state.
\<close>

lemma tcp_get_protocol_stable:
  assumes "loop_inv w" "api_python E" "(loop_op E)\<^sup>*\<^sup>* w w'" "tcp_get_protocol t w = Ret p"
  shows "tcp_get_protocol t w' = Ret p"
proof -
  obtain T where T: "tcp_objs w t = Some T" "proto T = p"
    using assms(4) by (auto simp: tcp_get_protocol_def with_tcp_def split: option.splits)
  have "maps_evolve tcp_evolves (tcp_objs w) (tcp_objs w')"
    using loop_ops_safe [OF assms(2,3,1)] by (simp add: world_evolves_def)
  from maps_evolveD [OF this T(1)] obtain T' where "tcp_objs w' t = Some T'" "proto T' = proto T"
    unfolding tcp_evolves_def by blast
  then show ?thesis using T(2) by (simp add: tcp_get_protocol_def)
qed

section \<open>The version\<close>

text \<open>\<^verbatim>\<open>str::replace\<close> for a pattern that is not empty: from the left, matches do not overlap.\<close>

function str_replace :: "string \<Rightarrow> string \<Rightarrow> string \<Rightarrow> string" where
  "str_replace pat to [] = []"
| "str_replace pat to (c # cs) =
     (if pat \<noteq> [] \<and> take (length pat) (c # cs) = pat
      then to @ str_replace pat to (drop (length pat) (c # cs))
      else c # str_replace pat to cs)"
  by pat_completeness auto
termination
  by (relation "measure (\<lambda>(pat, to, s). length s)") (auto simp: neq_Nil_conv)

definition get_lib_version :: "string \<Rightarrow> string" where
  "get_lib_version version = str_replace ''-beta'' ''b'' (str_replace ''-alpha'' ''a'' version)"

lemma str_replace_skip: "hd pat \<notin> set xs \<Longrightarrow> str_replace pat to (xs @ ys) = xs @ str_replace pat to ys"
proof (induction xs)
  case (Cons x xs)
  have "\<not> (pat \<noteq> [] \<and> take (length pat) (x # xs @ ys) = pat)"
  proof
    assume p: "pat \<noteq> [] \<and> take (length pat) (x # xs @ ys) = pat"
    then have "hd (take (length pat) (x # xs @ ys)) = hd pat" by simp
    then have "x = hd pat" using p by (cases pat) simp_all
    then show False using Cons.prems by simp
  qed
  then show ?case using Cons by auto
qed simp

lemma str_replace_hit: "pat \<noteq> [] \<Longrightarrow> str_replace pat to (pat @ ys) = to @ str_replace pat to ys"
  by (cases pat) simp_all

text \<open>A pre-release of Cargo in the spelling of Python; any other version as it is.\<close>

lemma get_lib_version_prerelease:
  assumes "CHR ''-'' \<notin> set base" "CHR ''-'' \<notin> set post"
  shows "get_lib_version base = base" "get_lib_version (base @ ''-alpha'' @ post) = base @ ''a'' @ post"
    "get_lib_version (base @ ''-beta'' @ post) = base @ ''b'' @ post"
proof -
  have id: "str_replace (CHR ''-'' # pat) to xs = xs" if "CHR ''-'' \<notin> set xs" for pat to xs
    using str_replace_skip [of "CHR ''-'' # pat" xs to "[]"] that by simp
  have skip: "str_replace (CHR ''-'' # pat) to (base @ ys) = base @ str_replace (CHR ''-'' # pat) to ys" for pat to ys
    using assms(1) by (intro str_replace_skip) simp
  have beta: "str_replace ''-alpha'' ''a'' (''-beta'' @ post) = ''-beta'' @ post"
    using str_replace_skip [of "''-alpha''" "''beta''" "''a''" post] id [OF assms(2)] by simp
  show "get_lib_version base = base" using assms(1) by (simp add: get_lib_version_def id)
  have "str_replace ''-alpha'' ''a'' (base @ ''-alpha'' @ post) = base @ ''a'' @ post"
    unfolding skip using str_replace_hit [of "''-alpha''" "''a''" post] id [OF assms(2)] by simp
  moreover have "str_replace ''-beta'' ''b'' (base @ ''a'' @ post) = base @ ''a'' @ post"
    using assms by (intro id) auto
  ultimately show "get_lib_version (base @ ''-alpha'' @ post) = base @ ''a'' @ post"
    by (simp only: get_lib_version_def)
  have "str_replace ''-alpha'' ''a'' (base @ ''-beta'' @ post) = base @ ''-beta'' @ post"
    unfolding skip beta ..
  moreover have "str_replace ''-beta'' ''b'' (base @ ''-beta'' @ post) = base @ ''b'' @ post"
    unfolding skip using str_replace_hit [of "''-beta''" "''b''" post] id [OF assms(2)] by simp
  ultimately show "get_lib_version (base @ ''-beta'' @ post) = base @ ''b'' @ post"
    by (simp only: get_lib_version_def)
qed

end
