(* ===== verification/System_Glue.thy ===== *)
theory System_Glue
  imports Python_Glue
begin

text \<open>
  The layer between the loop and what it runs on: the macro of \<^verbatim>\<open>utils.rs\<close> around system calls,
  the sources of \<^verbatim>\<open>io.rs\<close> that are registered with mio, the modules \<^verbatim>\<open>py.rs\<close> imports once, the
  socket objects of \<^verbatim>\<open>sock.rs\<close> and the classes each file adds to the extension module. The
  system, mio and the interpreter are parameters; what is assumed of them is named.
\<close>

section \<open>System calls\<close>

text \<open>\<^verbatim>\<open>syscall!\<close>: a negative result is the error the thread's \<^verbatim>\<open>errno\<close> holds.\<close>

definition syscall :: "int \<Rightarrow> int \<Rightarrow> int + int" where
  "syscall res errno = (if res < 0 then Inl errno else Inr res)"

text \<open>
  The arms of the direct write of \<^verbatim>\<open>try_write\<close>, by the kind the standard library gives to an error
  number of Linux: 4 is \<^verbatim>\<open>EINTR\<close>, 11 is \<^verbatim>\<open>EAGAIN\<close>. \<open>strerror\<close> is the text of any other error.
\<close>

definition write_answer :: "(int \<Rightarrow> string) \<Rightarrow> int \<Rightarrow> int \<Rightarrow> sysres" where
  "write_answer strerror res errno =
     (case syscall res errno of
        Inr written \<Rightarrow> SysOk (nat written)
      | Inl e \<Rightarrow> if e = 4 then SysInterrupted else if e = 11 then SysWouldBlock else SysErr (strerror e))"

text \<open>
  What \<^verbatim>\<open>write(2)\<close> promises is what the theorems on writing assume: a count within the data, or an
  error; the answer is bad only on an error other than an interruption or a full buffer.
\<close>

lemma write_answer_in_bounds:
  assumes "res \<le> int (length data)"
  shows "write_answer_ok data (write_answer st res errno) \<longleftrightarrow> 0 \<le> res \<or> errno = 4 \<or> errno = 11"
  using assms by (auto simp: write_answer_ok_def write_answer_def syscall_def)

section \<open>Sources\<close>

datatype 'l Source = FD int | TCPListener 'l

text \<open>
  The registry of mio with the two kinds of source it is given; errors are strings. A source only
  passes its call on, so what the loop asks of mio is the trace of registry calls, and whether mio
  accepts it is up to mio: \<open>poller\<close> takes the acceptance of each call as an argument.
\<close>

record ('l, 'r) mio =
  fd_register :: "int \<Rightarrow> nat \<Rightarrow> interest \<Rightarrow> 'r \<Rightarrow> (string + unit) \<times> 'r"
  fd_reregister :: "int \<Rightarrow> nat \<Rightarrow> interest \<Rightarrow> 'r \<Rightarrow> (string + unit) \<times> 'r"
  fd_deregister :: "int \<Rightarrow> 'r \<Rightarrow> (string + unit) \<times> 'r"
  tl_register :: "'l \<Rightarrow> nat \<Rightarrow> interest \<Rightarrow> 'r \<Rightarrow> (string + unit) \<times> 'r"
  tl_reregister :: "'l \<Rightarrow> nat \<Rightarrow> interest \<Rightarrow> 'r \<Rightarrow> (string + unit) \<times> 'r"
  tl_deregister :: "'l \<Rightarrow> 'r \<Rightarrow> (string + unit) \<times> 'r"

definition Source_register ::
  "('l, 'r) mio \<Rightarrow> 'l Source \<Rightarrow> nat \<Rightarrow> interest \<Rightarrow> 'r \<Rightarrow> (string + unit) \<times> 'r" where
  "Source_register M self token interests registry =
     (case self of
        FD inner \<Rightarrow> fd_register M inner token interests registry
      | TCPListener inner \<Rightarrow> tl_register M inner token interests registry)"

definition Source_reregister ::
  "('l, 'r) mio \<Rightarrow> 'l Source \<Rightarrow> nat \<Rightarrow> interest \<Rightarrow> 'r \<Rightarrow> (string + unit) \<times> 'r" where
  "Source_reregister M self token interests registry =
     (case self of
        FD inner \<Rightarrow> fd_reregister M inner token interests registry
      | TCPListener inner \<Rightarrow> tl_reregister M inner token interests registry)"

definition Source_deregister :: "('l, 'r) mio \<Rightarrow> 'l Source \<Rightarrow> 'r \<Rightarrow> (string + unit) \<times> 'r" where
  "Source_deregister M self registry =
     (case self of
        FD inner \<Rightarrow> fd_deregister M inner registry
      | TCPListener inner \<Rightarrow> tl_deregister M inner registry)"

section \<open>Modules imported once\<close>

text \<open>
  What the code asks of the interpreter, in order, and the four locks of \<^verbatim>\<open>py.rs\<close>. The interpreter
  answers from what it was asked before.
\<close>

datatype pyop =
    Import string
  | GetAttr pyobj string
  | Call0 pyobj
  | Call1 pyobj "int list"

record pystate =
  ASYNCIO :: "pyobj option"
  ASYNCIO_PROTO_BUF :: "pyobj option"
  SOCKET :: "pyobj option"
  WEAKREF :: "pyobj option"
  asked :: "pyop list"

type_synonym interp = "pyop list \<Rightarrow> pyop \<Rightarrow> pyobj pyresult"
type_synonym pyact = "pystate \<Rightarrow> pyobj pyresult \<times> pystate"

definition ask :: "interp \<Rightarrow> pyop \<Rightarrow> pyact" where
  "ask I q s = (I (asked s) q, s\<lparr>asked := asked s @ [q]\<rparr>)"

text \<open>The question mark of Rust.\<close>

definition try_then :: "pyact \<Rightarrow> (pyobj \<Rightarrow> pyact) \<Rightarrow> pyact" where
  "try_then m k s = (case m s of (Inl e, s1) \<Rightarrow> (Inl e, s1) | (Inr v, s1) \<Rightarrow> k v s1)"

text \<open>
  \<^verbatim>\<open>PyOnceLock::get_or_try_init\<close> on the lock that \<open>get\<close> reads and \<open>put\<close> sets, and what is documented
  of it: a value is returned without running the initialiser, an error of it leaves the lock
  empty, and a value stored meanwhile wins.
\<close>

type_synonym once_lock = "(pystate \<Rightarrow> pyobj option) \<Rightarrow> (pyobj \<Rightarrow> pystate \<Rightarrow> pystate) \<Rightarrow> pyact \<Rightarrow> pyact"

definition once_lock_ok :: "once_lock \<Rightarrow> bool" where
  "once_lock_ok G =
     (\<forall>get put init s. G get put init s =
        (case get s of
           Some v \<Rightarrow> (Inr v, s)
         | None \<Rightarrow>
             (case init s of
                (Inl e, s1) \<Rightarrow> (Inl e, s1)
              | (Inr v, s1) \<Rightarrow> (case get s1 of Some u \<Rightarrow> (Inr u, s1) | None \<Rightarrow> (Inr v, put v s1)))))"

definition asyncio :: "once_lock \<Rightarrow> interp \<Rightarrow> pyact" where
  "asyncio G I = G ASYNCIO (\<lambda>v s. s\<lparr>ASYNCIO := Some v\<rparr>) (ask I (Import ''asyncio''))"

definition socket :: "once_lock \<Rightarrow> interp \<Rightarrow> pyact" where
  "socket G I = G SOCKET (\<lambda>v s. s\<lparr>SOCKET := Some v\<rparr>) (ask I (Import ''socket''))"

definition asyncio_proto_buf :: "once_lock \<Rightarrow> interp \<Rightarrow> pyact" where
  "asyncio_proto_buf G I =
     G ASYNCIO_PROTO_BUF (\<lambda>v s. s\<lparr>ASYNCIO_PROTO_BUF := Some v\<rparr>)
       (try_then (asyncio G I) (\<lambda>m. try_then (ask I (GetAttr m ''protocols''))
          (\<lambda>ps. ask I (GetAttr ps ''BufferedProtocol''))))"

definition weakref :: "once_lock \<Rightarrow> interp \<Rightarrow> pyact" where
  "weakref G I = G WEAKREF (\<lambda>v s. s\<lparr>WEAKREF := Some v\<rparr>) (ask I (Import ''weakref''))"

text \<open>\<^verbatim>\<open>PyContext_CopyCurrent\<close> gives a context or a null pointer, which pyo3 panics on.\<close>

definition copy_context :: "pyobj option \<Rightarrow> pyobj outcome" where
  "copy_context ptr = unwrap ptr"

definition sock :: "once_lock \<Rightarrow> interp \<Rightarrow> pyact" where
  "sock G I = try_then (socket G I) (\<lambda>m. ask I (GetAttr m ''socket''))"

definition weakset :: "once_lock \<Rightarrow> interp \<Rightarrow> pyact" where
  "weakset G I = try_then (weakref G I) (\<lambda>m. try_then (ask I (GetAttr m ''WeakSet'')) (\<lambda>c. ask I (Call0 c)))"

section \<open>The socket of a transport\<close>

record SocketWrapper =
  sw_sock :: pyobj

definition SocketWrapper_from_fd ::
  "once_lock \<Rightarrow> interp \<Rightarrow> fd \<Rightarrow> int \<Rightarrow> int \<Rightarrow> nat \<Rightarrow> pystate \<Rightarrow> (SocketWrapper \<times> pystate) outcome" where
  "SocketWrapper_from_fd G I f family sock_type pr s =
     (case try_then (sock G I) (\<lambda>c. ask I (Call1 c [family, sock_type, int pr, int f])) s of
        (Inl _, _) \<Rightarrow> Panic UnwrapErr
      | (Inr sk, s1) \<Rightarrow> Ret (\<lparr>sw_sock = sk\<rparr>, s1))"

definition SocketWrapper_getattr :: "interp \<Rightarrow> SocketWrapper \<Rightarrow> string \<Rightarrow> pyact" where
  "SocketWrapper_getattr I self name = ask I (GetAttr (sw_sock self) name)"

section \<open>What the locks guarantee\<close>

text \<open>
  The contract of an accessor with a lock: the lock is filled by the first success, never emptied
  and never changed, and from then on the accessor asks the interpreter nothing.
\<close>

locale cached =
  fixes acc :: pyact and cell :: "pystate \<Rightarrow> pyobj option" and env_ok :: bool
  assumes hit: "env_ok \<Longrightarrow> cell s = Some v \<Longrightarrow> acc s = (Inr v, s)"
    and fill: "env_ok \<Longrightarrow> acc s = (Inr v, s') \<Longrightarrow> cell s' = Some v"
    and miss: "env_ok \<Longrightarrow> acc s = (Inl e, s') \<Longrightarrow> cell s' = None"
begin

text \<open>After a success the answer is the same for ever, as long as nothing empties the lock.\<close>

lemma stable:
  assumes env_ok "acc s = (Inr v, s1)" "\<And>u. cell s1 = Some u \<Longrightarrow> cell s2 = Some u"
  shows "acc s2 = (Inr v, s2)"
  using hit [OF assms(1)] assms(3) fill [OF assms(1,2)] by blast

lemma settled: "env_ok \<Longrightarrow> fst (acc s) = Inr v \<Longrightarrow> cell s = None \<or> cell s = Some v"
  using hit [of s] by (cases "cell s") auto

end

lemma once_lock_step:
  assumes "once_lock_ok G"
  shows "G get put init s = (case get s of Some v \<Rightarrow> (Inr v, s) | None \<Rightarrow>
     (case init s of (Inl e, s1) \<Rightarrow> (Inl e, s1)
      | (Inr v, s1) \<Rightarrow> (case get s1 of Some u \<Rightarrow> (Inr u, s1) | None \<Rightarrow> (Inr v, put v s1))))"
  using assms unfolding once_lock_ok_def by blast

lemma once_lock_cached:
  assumes "\<And>v s. get (put v s) = Some v" "\<And>e s s1. once_lock_ok G \<Longrightarrow> init s = (Inl e, s1) \<Longrightarrow> get s1 = get s"
  shows "cached (G get put init) get (once_lock_ok G)"
  using assms
  by (unfold_locales; fastforce simp: once_lock_step split: option.splits prod.splits sum.splits)

lemma ask_fields [simp]:
  "ASYNCIO (snd (ask I q s)) = ASYNCIO s" "ASYNCIO_PROTO_BUF (snd (ask I q s)) = ASYNCIO_PROTO_BUF s"
  "SOCKET (snd (ask I q s)) = SOCKET s" "WEAKREF (snd (ask I q s)) = WEAKREF s"
  "asked (snd (ask I q s)) = asked s @ [q]" "fst (ask I q s) = I (asked s) q"
  by (simp_all add: ask_def)

lemma ask_eq: "ask I q s = (r, s') \<longleftrightarrow> r = I (asked s) q \<and> s' = s\<lparr>asked := asked s @ [q]\<rparr>"
  by (auto simp: ask_def)

interpretation asyncio_lock: cached "asyncio G I" ASYNCIO "once_lock_ok G" for G I
  unfolding asyncio_def by (rule once_lock_cached) (auto simp: ask_eq)

interpretation socket_lock: cached "socket G I" SOCKET "once_lock_ok G" for G I
  unfolding socket_def by (rule once_lock_cached) (auto simp: ask_eq)

interpretation weakref_lock: cached "weakref G I" WEAKREF "once_lock_ok G" for G I
  unfolding weakref_def by (rule once_lock_cached) (auto simp: ask_eq)

lemma asyncio_keeps: "once_lock_ok G \<Longrightarrow> ASYNCIO_PROTO_BUF (snd (asyncio G I s)) = ASYNCIO_PROTO_BUF s"
  by (auto simp: asyncio_def once_lock_step ask_def split: option.splits sum.splits)

interpretation proto_buf_lock: cached "asyncio_proto_buf G I" ASYNCIO_PROTO_BUF "once_lock_ok G" for G I
  unfolding asyncio_proto_buf_def
proof (rule once_lock_cached)
  fix e s s1
  assume "once_lock_ok G" "try_then (asyncio G I) (\<lambda>m. try_then (ask I (GetAttr m ''protocols''))
      (\<lambda>ps. ask I (GetAttr ps ''BufferedProtocol''))) s = (Inl e, s1)"
  then show "ASYNCIO_PROTO_BUF s1 = ASYNCIO_PROTO_BUF s"
    using asyncio_keeps [of G I s]
    by (auto simp: try_then_def ask_eq split: prod.splits sum.splits)
qed simp

text \<open>A use of any of the accessors, and of a sequence of them.\<close>

datatype accessor = UseAsyncio | UseProtoBuf | UseSocket | UseWeakref | UseSock | UseWeakset

fun run_access :: "once_lock \<Rightarrow> interp \<Rightarrow> accessor \<Rightarrow> pyact" where
  "run_access G I UseAsyncio = asyncio G I"
| "run_access G I UseProtoBuf = asyncio_proto_buf G I"
| "run_access G I UseSocket = socket G I"
| "run_access G I UseWeakref = weakref G I"
| "run_access G I UseSock = sock G I"
| "run_access G I UseWeakset = weakset G I"

definition accesses :: "once_lock \<Rightarrow> interp \<Rightarrow> accessor list \<Rightarrow> pystate \<Rightarrow> pystate" where
  "accesses G I us s = fold (\<lambda>a s. snd (run_access G I a s)) us s"

definition fresh_locks :: pystate where
  "fresh_locks = \<lparr>ASYNCIO = None, ASYNCIO_PROTO_BUF = None, SOCKET = None, WEAKREF = None, asked = []\<rparr>"

text \<open>A module has been imported once if its lock is filled and not at all otherwise.\<close>

definition lock_of :: "string \<Rightarrow> pystate \<Rightarrow> pyobj option" where
  "lock_of m s = (if m = ''asyncio'' then ASYNCIO s else if m = ''socket'' then SOCKET s
     else if m = ''weakref'' then WEAKREF s else None)"

definition imports_ok :: "pystate \<Rightarrow> bool" where
  "imports_ok s = (\<forall>m. count_list (asked s) (Import m) = (if lock_of m s = None then 0 else 1))"

lemma imports_ok_ask: "imports_ok s \<Longrightarrow> (\<And>m. q \<noteq> Import m) \<Longrightarrow> imports_ok (snd (ask I q s))"
  by (simp add: imports_ok_def ask_def lock_of_def count_list_append)

lemma imports_ok_try:
  "imports_ok (snd (m s)) \<Longrightarrow> (\<And>v s1. imports_ok s1 \<Longrightarrow> imports_ok (snd (k v s1))) \<Longrightarrow> imports_ok (snd (try_then m k s))"
  by (auto simp: try_then_def split: prod.splits sum.splits)

lemma imports_ok_locks:
  assumes G: "once_lock_ok G" and I: "\<forall>h m. \<exists>v. I h (Import m) = Inr v" and s: "imports_ok s"
  shows "imports_ok (snd (asyncio G I s))" "imports_ok (snd (socket G I s))" "imports_ok (snd (weakref G I s))"
proof -
  obtain v where v: "I (asked s) (Import m) = Inr (v m)" for m using I by metis
  show "imports_ok (snd (asyncio G I s))" "imports_ok (snd (socket G I s))" "imports_ok (snd (weakref G I s))"
    using s v
    by (auto simp: asyncio_def socket_def weakref_def once_lock_step [OF G] ask_def imports_ok_def lock_of_def
        count_list_append split: option.splits)
qed

lemma imports_ok_proto_buf:
  assumes G: "once_lock_ok G" and I: "\<forall>h m. \<exists>v. I h (Import m) = Inr v" and s: "imports_ok s"
  shows "imports_ok (snd (asyncio_proto_buf G I s))"
proof -
  have put: "imports_ok (x\<lparr>ASYNCIO_PROTO_BUF := y\<rparr>) = imports_ok x" for x y
    by (simp add: imports_ok_def lock_of_def)
  have init: "imports_ok (snd (try_then (asyncio G I) (\<lambda>m. try_then (ask I (GetAttr m ''protocols''))
      (\<lambda>ps. ask I (GetAttr ps ''BufferedProtocol''))) s))"
    by (intro imports_ok_try imports_ok_locks(1) [OF assms] imports_ok_ask) simp_all
  then show ?thesis
    using s by (auto simp: asyncio_proto_buf_def once_lock_step [OF G] put split: option.splits prod.splits sum.splits)
qed

lemma imports_ok_access:
  assumes "once_lock_ok G" "\<forall>h m. \<exists>v. I h (Import m) = Inr v" "imports_ok s"
  shows "imports_ok (snd (run_access G I a s))"
  using assms
  by (cases a) (auto simp: sock_def weakset_def intro!: imports_ok_try imports_ok_locks imports_ok_proto_buf imports_ok_ask)

text \<open>A lock that does just what is documented, for the example.\<close>

definition demo_lock :: once_lock where
  "demo_lock get put init s =
     (case get s of
        Some v \<Rightarrow> (Inr v, s)
      | None \<Rightarrow>
          (case init s of
             (Inl e, s1) \<Rightarrow> (Inl e, s1)
           | (Inr v, s1) \<Rightarrow> (case get s1 of Some u \<Rightarrow> (Inr u, s1) | None \<Rightarrow> (Inr v, put v s1))))"

text \<open>
  However often and in whatever order the loop asks for modules, classes and sockets, each module
  is imported at most once, as long as imports succeed; a module is imported exactly if its lock is
  filled.
\<close>

theorem modules_imported_once:
  assumes G: "once_lock_ok G" and I: "\<forall>h m. \<exists>v. I h (Import m) = Inr v"
  shows "count_list (asked (accesses G I us fresh_locks)) (Import m)
    = (if lock_of m (accesses G I us fresh_locks) = None then 0 else 1)"
proof -
  have "imports_ok (fold (\<lambda>a s. snd (run_access G I a s)) us s)" if "imports_ok s" for s
    using that by (induction us arbitrary: s) (simp_all add: imports_ok_access [OF assms])
  moreover have "imports_ok fresh_locks" by (simp add: imports_ok_def fresh_locks_def lock_of_def)
  ultimately have "imports_ok (accesses G I us fresh_locks)" by (simp add: accesses_def)
  then show ?thesis by (simp add: imports_ok_def)
qed

theorem modules_imported_once_witness:
  "let s = accesses demo_lock (\<lambda>h q. Inr (length h)) [UseSock, UseProtoBuf, UseSock, UseAsyncio] fresh_locks
   in count_list (asked s) (Import ''socket'') = 1 \<and> count_list (asked s) (Import ''weakref'') = 0"
proof -
  let ?I = "\<lambda>h q. Inr (length h) :: pyobj pyresult"
  let ?s = "accesses demo_lock ?I [UseSock, UseProtoBuf, UseSock, UseAsyncio] fresh_locks"
  have G: "once_lock_ok demo_lock" by (simp add: once_lock_ok_def demo_lock_def)
  have I: "\<forall>h m. \<exists>v. ?I h (Import m) = Inr v" by simp
  have "lock_of ''socket'' ?s \<noteq> None" "lock_of ''weakref'' ?s = None"
    by (simp_all add: accesses_def fresh_locks_def lock_of_def sock_def socket_def asyncio_def asyncio_proto_buf_def
        try_then_def ask_def demo_lock_def)
  then show ?thesis
    using modules_imported_once [OF G I, of "[UseSock, UseProtoBuf, UseSock, UseAsyncio]" "''socket''"]
      modules_imported_once [OF G I, of "[UseSock, UseProtoBuf, UseSock, UseAsyncio]" "''weakref''"]
    by (simp add: Let_def)
qed

text \<open>
  Once the module is there a wrapper asks for its class and makes the socket, with the number of the
  descriptor as the last argument; an exception of either ends the process.
\<close>

lemma socket_wrapper_outcomes:
  assumes "once_lock_ok G" "SOCKET s = Some m"
  shows "SocketWrapper_from_fd G I f family ty pr s =
    (case I (asked s) (GetAttr m ''socket'') of
       Inl _ \<Rightarrow> Panic UnwrapErr
     | Inr c \<Rightarrow>
         (case I (asked s @ [GetAttr m ''socket'']) (Call1 c [family, ty, int pr, int f]) of
            Inl _ \<Rightarrow> Panic UnwrapErr
          | Inr sk \<Rightarrow> Ret (\<lparr>sw_sock = sk\<rparr>, s\<lparr>asked := asked s @ [GetAttr m ''socket'',
                                                  Call1 c [family, ty, int pr, int f]]\<rparr>)))"
  using socket_lock.hit [OF assms]
  by (simp add: SocketWrapper_from_fd_def sock_def try_then_def ask_def split: sum.split)

section \<open>The extension module\<close>

text \<open>
  Each file adds its classes and functions to the module, and the first error ends the
  initialisation; \<open>add\<close> is what pyo3 does for one name.
\<close>

fun add_all :: "(string \<Rightarrow> 'm \<Rightarrow> 'm pyresult) \<Rightarrow> string list \<Rightarrow> 'm \<Rightarrow> 'm pyresult" where
  "add_all add [] m = Inr m"
| "add_all add (n # ns) m = (case add n m of Inl e \<Rightarrow> Inl e | Inr m1 \<Rightarrow> add_all add ns m1)"

definition event_loop_init_pymodule where
  "event_loop_init_pymodule add = add_all add [''EventLoop'']"

definition handles_init_pymodule where
  "handles_init_pymodule add = add_all add [''CBHandle'', ''TimerHandle'']"

definition server_init_pymodule where
  "server_init_pymodule add = add_all add [''Server'', ''TokioServer'']"

definition ssl_init_pymodule where
  "ssl_init_pymodule add =
     add_all add [''list_rustls_cipher_suites'', ''list_all_rustls_cipher_suites'', ''TLSVersion'']"

definition tokio_event_loop_init_pymodule where
  "tokio_event_loop_init_pymodule add = add_all add [''TEventLoop'']"

definition tokio_handles_init_pymodule where
  "tokio_handles_init_pymodule add = add_all add [''TTimerHandle'', ''TCBHandle'']"

definition tokio_tcp_init_pymodule where
  "tokio_tcp_init_pymodule add = add_all add [''TokioTCPTransport'', ''TokioTCPServer'']"

definition tokio_udp_init_pymodule where
  "tokio_udp_init_pymodule add = add_all add [''TokioUDPTransport'']"

definition rloop_module :: "(string \<Rightarrow> 'm \<Rightarrow> 'm pyresult) \<Rightarrow> 'm \<Rightarrow> 'm pyresult" where
  "rloop_module add m =
     (let inits = [add ''__version__'', event_loop_init_pymodule add, handles_init_pymodule add,
                   server_init_pymodule add, ssl_init_pymodule add, tokio_event_loop_init_pymodule add,
                   tokio_handles_init_pymodule add, tokio_tcp_init_pymodule add, tokio_udp_init_pymodule add]
      in fold (\<lambda>init r. case r of Inl e \<Rightarrow> Inl e | Inr m \<Rightarrow> init m) inits (Inr m))"

text \<open>
  When the initialisation succeeds every name has been added, once and in the order of the files;
  among them those that the Python package imports.
\<close>

definition rloop_names :: "string list" where
  "rloop_names =
     [''__version__'', ''EventLoop'', ''CBHandle'', ''TimerHandle'', ''Server'', ''TokioServer'',
      ''list_rustls_cipher_suites'', ''list_all_rustls_cipher_suites'', ''TLSVersion'', ''TEventLoop'',
      ''TTimerHandle'', ''TCBHandle'', ''TokioTCPTransport'', ''TokioTCPServer'', ''TokioUDPTransport'']"

lemma add_all_names: "add_all (\<lambda>n m. Inr (m @ [n])) ns m = Inr (m @ ns)"
  by (induction ns arbitrary: m) simp_all

lemma add_all_error:
  assumes "\<And>m. add n m = Inl e" "\<And>k m. k \<noteq> n \<Longrightarrow> add k m = Inr (g k m)"
  shows "n \<in> set ns \<Longrightarrow> add_all add ns m = Inl e"
proof (induction ns arbitrary: m)
  case (Cons k ns)
  then show ?case using assms by (cases "k = n") simp_all
qed simp

lemma try_assoc:
  "(case (case r of Inl e \<Rightarrow> Inl e | Inr m \<Rightarrow> f m) of Inl e \<Rightarrow> Inl e | Inr m \<Rightarrow> g m)
     = (case r of Inl e \<Rightarrow> Inl e | Inr m \<Rightarrow> (case f m of Inl e \<Rightarrow> Inl e | Inr m \<Rightarrow> g m))"
  by (cases r) simp_all

lemma rloop_module_flat: "rloop_module add m = add_all add rloop_names m"
  by (simp add: rloop_module_def rloop_names_def event_loop_init_pymodule_def Let_def
      handles_init_pymodule_def server_init_pymodule_def ssl_init_pymodule_def tokio_event_loop_init_pymodule_def
      tokio_handles_init_pymodule_def tokio_tcp_init_pymodule_def tokio_udp_init_pymodule_def try_assoc
      cong: sum.case_cong)

lemma rloop_module_names:
  "rloop_module (\<lambda>n m. Inr (m @ [n])) [] = Inr rloop_names" "distinct rloop_names"
  "{''__version__'', ''CBHandle'', ''EventLoop'', ''TEventLoop'', ''TimerHandle'', ''Server''} \<subseteq> set rloop_names"
  by (simp_all add: rloop_module_flat add_all_names) (simp_all add: rloop_names_def)

text \<open>An error while adding any of the names is the error of the whole initialisation.\<close>

lemma rloop_module_error:
  assumes "n \<in> set rloop_names" "\<And>m. add n m = Inl e" "\<And>k m. k \<noteq> n \<Longrightarrow> add k m = Inr (g k m)"
  shows "rloop_module add m = Inl e"
  unfolding rloop_module_flat using assms by (intro add_all_error [where n = n and g = g])

end
