(* ===== verification/Tokio_Loop.thy ===== *)
theory Tokio_Loop
  imports Event_Loop
begin

text \<open>
  The second loop of the crate, \<^verbatim>\<open>TEventLoop\<close> (\<^verbatim>\<open>tokio_event_loop.rs\<close>) with its handles
  (\<^verbatim>\<open>tokio_handles.rs\<close>). Callbacks are sent over a channel to the task that \<^verbatim>\<open>_run\<close> spawns,
  which selects between that channel, its timers, the signals and the handles it has already
  received. The operations of the loop are functions on its state; the task is a step relation,
  because the select chooses among the ready branches, and it is interleaved with the operations
  other threads call. The record keeps a history of the tasks queued, of the handles
  taken and of the calls into Python, which no operation reads.
\<close>

section \<open>State\<close>

text \<open>
  A task holds the number of its handle object. \<open>t_clock\<close> is the time since the loop's epoch in
  nanoseconds; \<open>t_tasks\<close> and \<open>t_signals\<close> are the contents of the two unbounded channels, whose
  ends all live in the loop object; \<open>t_chan_open\<close> says that the scheduler's channel is open.
\<close>

datatype ScheduledTask = Immediate nat | Delayed "nat Timer"

datatype tevent =
    TQueued ScheduledTask
  | TTaken nat nat
  | TDropped nat
  | TLost nat
  | TPy pycall

record TEventLoop =
  t_tasks :: "ScheduledTask list"
  t_chan_open :: bool
  t_closed :: bool
  t_stopping :: bool
  t_exc_handler :: pyobj
  t_exception_handler :: pyobj
  t_base_ctx :: pyobj
  t_signals :: "byte list"
  t_sig_listening :: bool
  t_io_callbacks :: "fd \<rightharpoonup> nat option \<times> nat option \<times> pyobj"
  t_objs :: "nat \<rightharpoonup> CBHandle"
  t_next :: nat
  t_clock :: nat
  t_trace :: "tevent list"

definition TEventLoop_new :: "pyobj \<Rightarrow> pyobj \<Rightarrow> TEventLoop" where
  "TEventLoop_new none ctx =
     \<lparr>t_tasks = [], t_chan_open = True, t_closed = False, t_stopping = False,
      t_exc_handler = none, t_exception_handler = none, t_base_ctx = ctx, t_signals = [],
      t_sig_listening = False, t_io_callbacks = Map.empty, t_objs = Map.empty, t_next = 0,
      t_clock = 0, t_trace = []\<rparr>"

text \<open>\<^verbatim>\<open>Instant::now().duration_since(epoch).as_micros()\<close>.\<close>

definition t_now :: "TEventLoop \<Rightarrow> nat" where
  "t_now w = t_clock w div 1000"

lemma t_now_simps [simp]:
  "t_now (w\<lparr>t_tasks := ts\<rparr>) = t_now w" "t_now (w\<lparr>t_trace := tr\<rparr>) = t_now w"
  "t_now (w\<lparr>t_stopping := b\<rparr>) = t_now w" "t_now (w\<lparr>t_clock := c\<rparr>) = c div 1000"
  by (simp_all add: t_now_def)

lemma t_now_mono: "t_clock w \<le> t_clock w' \<Longrightarrow> t_now w \<le> t_now w'"
  by (simp add: t_now_def div_le_mono)

definition t_emit :: "tevent \<Rightarrow> TEventLoop \<Rightarrow> TEventLoop" where
  "t_emit e w = w\<lparr>t_trace := t_trace w @ [e]\<rparr>"

section \<open>Handles\<close>

text \<open>The three classes have the fields of those of \<^verbatim>\<open>handles.rs\<close>.\<close>

definition TCBHandle_new :: "pyobj \<Rightarrow> pyobj \<Rightarrow> pyobj \<Rightarrow> CBHandle" where
  "TCBHandle_new cb args ctx =
     \<lparr>callback = cb, cbargs = Args args, cbcontext = ctx, cbcancelled = False\<rparr>"

definition TCBHandle_new0 :: "pyobj \<Rightarrow> pyobj \<Rightarrow> CBHandle" where
  "TCBHandle_new0 cb ctx =
     \<lparr>callback = cb, cbargs = NoArgs, cbcontext = ctx, cbcancelled = False\<rparr>"

definition TCBHandle_new1 :: "pyobj \<Rightarrow> pyobj \<Rightarrow> pyobj \<Rightarrow> CBHandle" where
  "TCBHandle_new1 cb arg ctx =
     \<lparr>callback = cb, cbargs = OneArg arg, cbcontext = ctx, cbcancelled = False\<rparr>"

definition t_cancel :: "nat \<Rightarrow> TEventLoop \<Rightarrow> TEventLoop" where
  "t_cancel h w =
     w\<lparr>t_objs := (t_objs w)(h := map_option (\<lambda>c. c\<lparr>cbcancelled := True\<rparr>) (t_objs w h))\<rparr>"

text \<open>
  \<^verbatim>\<open>THandle::cancelled\<close>: the flag for \<^verbatim>\<open>TCBHandle\<close> and \<^verbatim>\<open>TCBHandleNoArgs\<close>, the default
  \<^verbatim>\<open>false\<close> of the trait for \<^verbatim>\<open>TCBHandleOneArg\<close>.
\<close>

definition t_cancelled :: "TEventLoop \<Rightarrow> nat \<Rightarrow> bool" where
  "t_cancelled w h =
     (case t_objs w h of
        None \<Rightarrow> False
      | Some c \<Rightarrow> (case cbargs c of OneArg _ \<Rightarrow> False | _ \<Rightarrow> cbcancelled c))"

text \<open>
  Python code is a parameter, as for the other loop. A \<^verbatim>\<open>TCBHandle\<close> is called directly, in the
  context the thread happens to have (\<open>ambient\<close>), the other two in their own context.
\<close>

type_synonym tpy = "pycall \<Rightarrow> TEventLoop \<Rightarrow> pyres \<times> TEventLoop"

definition t_call :: "tpy \<Rightarrow> pycall \<Rightarrow> TEventLoop \<Rightarrow> pyres \<times> TEventLoop" where
  "t_call P c w = P c (t_emit (TPy c) w)"

definition t_log_exception :: "tpy \<Rightarrow> LogExc \<Rightarrow> TEventLoop \<Rightarrow> TEventLoop" where
  "t_log_exception P ctx w =
     snd (t_call P (LogException (t_exc_handler w) ctx (t_exception_handler w)) w)"

definition run_context :: "pyobj \<Rightarrow> CBHandle \<Rightarrow> pyobj" where
  "run_context ambient c = (case cbargs c of Args _ \<Rightarrow> ambient | _ \<Rightarrow> cbcontext c)"

definition TCBHandle_run :: "tpy \<Rightarrow> pyobj \<Rightarrow> nat \<Rightarrow> TEventLoop \<Rightarrow> TEventLoop" where
  "TCBHandle_run P ambient h w =
     (case t_objs w h of
        None \<Rightarrow> w
      | Some c \<Rightarrow>
          (case t_call P (RunCB (callback c) (cbargs c) (run_context ambient c)) w of
             (PyOk _ _, w1) \<Rightarrow> w1
           | (PyErr e, w1) \<Rightarrow> t_log_exception P (LogCBHandle e h) w1))"

section \<open>Scheduling\<close>

definition t_alloc :: "CBHandle \<Rightarrow> TEventLoop \<Rightarrow> nat \<times> TEventLoop" where
  "t_alloc c w = (t_next w, w\<lparr>t_objs := (t_objs w)(t_next w \<mapsto> c), t_next := t_next w + 1\<rparr>)"

text \<open>
  \<^verbatim>\<open>schedule_handle\<close>: while the loop is stopping or closed the task is silently dropped. Delays are
  in nanoseconds, the deadline in microseconds.
\<close>

definition t_schedule_handle ::
  "nat \<Rightarrow> nat option \<Rightarrow> TEventLoop \<Rightarrow> pyerr option \<times> TEventLoop" where
  "t_schedule_handle h delay w =
     (if t_stopping w \<or> t_closed w then (None, w)
      else
        (let task = (case delay of
                       Some d \<Rightarrow> Delayed \<lparr>t_handle = h, t_when = (t_clock w + d) div 1000\<rparr>
                     | None \<Rightarrow> Immediate h)
         in if t_chan_open w
            then (None, t_emit (TQueued task) (w\<lparr>t_tasks := t_tasks w @ [task]\<rparr>))
            else (Some (RuntimeError ''Failed to schedule task - loop stopping & channel closed''),
                  w)))"

definition t_ctx :: "pyobj option \<Rightarrow> TEventLoop \<Rightarrow> pyobj" where
  "t_ctx ctx w = (case ctx of Some c \<Rightarrow> c | None \<Rightarrow> t_base_ctx w)"

definition t_schedule_new ::
  "CBHandle \<Rightarrow> nat option \<Rightarrow> TEventLoop \<Rightarrow> pyerr option \<times> TEventLoop" where
  "t_schedule_new c delay w = (let (h, w1) = t_alloc c w in t_schedule_handle h delay w1)"

definition t_schedule0 :: "pyobj \<Rightarrow> pyobj option \<Rightarrow> TEventLoop \<Rightarrow> pyerr option \<times> TEventLoop" where
  "t_schedule0 cb ctx w = t_schedule_new (TCBHandle_new0 cb (t_ctx ctx w)) None w"

definition t_schedule1 ::
  "pyobj \<Rightarrow> pyobj \<Rightarrow> pyobj option \<Rightarrow> TEventLoop \<Rightarrow> pyerr option \<times> TEventLoop" where
  "t_schedule1 cb arg ctx w = t_schedule_new (TCBHandle_new1 cb arg (t_ctx ctx w)) None w"

definition t_schedule ::
  "pyobj \<Rightarrow> pyobj \<Rightarrow> pyobj option \<Rightarrow> TEventLoop \<Rightarrow> pyerr option \<times> TEventLoop" where
  "t_schedule cb args ctx w = t_schedule_new (TCBHandle_new cb args (t_ctx ctx w)) None w"

definition t_schedule_later0 ::
  "nat \<Rightarrow> pyobj \<Rightarrow> pyobj option \<Rightarrow> TEventLoop \<Rightarrow> pyerr option \<times> TEventLoop" where
  "t_schedule_later0 delay cb ctx w =
     t_schedule_new (TCBHandle_new0 cb (t_ctx ctx w)) (Some delay) w"

definition t_schedule_later1 ::
  "nat \<Rightarrow> pyobj \<Rightarrow> pyobj \<Rightarrow> pyobj option \<Rightarrow> TEventLoop \<Rightarrow> pyerr option \<times> TEventLoop" where
  "t_schedule_later1 delay cb arg ctx w =
     t_schedule_new (TCBHandle_new1 cb arg (t_ctx ctx w)) (Some delay) w"

definition t_schedule_later ::
  "nat \<Rightarrow> pyobj \<Rightarrow> pyobj \<Rightarrow> pyobj option \<Rightarrow> TEventLoop \<Rightarrow> pyerr option \<times> TEventLoop" where
  "t_schedule_later delay cb args ctx w =
     t_schedule_new (TCBHandle_new cb args (t_ctx ctx w)) (Some delay) w"

text \<open>\<open>copied\<close> is the context \<^verbatim>\<open>copy_context\<close> returns; the result is the handle object.\<close>

definition t_call_soon ::
  "pyobj \<Rightarrow> pyobj \<Rightarrow> pyobj \<Rightarrow> pyobj option \<Rightarrow> TEventLoop \<Rightarrow> nat pyresult \<times> TEventLoop" where
  "t_call_soon copied cb args ctx w =
     (let (h, w1) = t_alloc (TCBHandle_new cb args (case ctx of Some c \<Rightarrow> c | None \<Rightarrow> copied)) w;
          (e, w2) = t_schedule_handle h None w1
      in (case e of Some err \<Rightarrow> Inl err | None \<Rightarrow> Inr h, w2))"

definition t_call_soon_threadsafe ::
  "pyobj \<Rightarrow> pyobj \<Rightarrow> pyobj \<Rightarrow> pyobj option \<Rightarrow> TEventLoop \<Rightarrow> nat pyresult \<times> TEventLoop" where
  "t_call_soon_threadsafe copied cb args ctx w =
     (let (h, w1) = t_alloc (TCBHandle_new cb args (case ctx of Some c \<Rightarrow> c | None \<Rightarrow> copied)) w;
          (e, w2) = t_schedule_handle h None w1
      in (case e of Some err \<Rightarrow> Inl err | None \<Rightarrow> Inr h, w2))"

text \<open>
  \<^verbatim>\<open>_call_later\<close> answers a \<^verbatim>\<open>TTimerHandle\<close>: the handle and the deadline it computes itself.
  \<^verbatim>\<open>schedule_handle\<close> reads the clock again, \<open>lag\<close> later. The delay is in microseconds.
\<close>

definition t_call_later ::
  "nat \<Rightarrow> nat \<Rightarrow> pyobj \<Rightarrow> pyobj \<Rightarrow> pyobj \<Rightarrow> TEventLoop \<Rightarrow> (nat \<times> nat) pyresult \<times> TEventLoop" where
  "t_call_later lag delay cb args ctx w =
     (let tm = t_now w + delay;
          (h, w1) = t_alloc (TCBHandle_new cb args ctx) w;
          (e, w2) = t_schedule_handle h (Some (delay * 1000)) (w1\<lparr>t_clock := t_clock w1 + lag\<rparr>)
      in (case e of Some err \<Rightarrow> Inl err | None \<Rightarrow> Inr (h, tm), w2))"

definition t_stop :: "TEventLoop \<Rightarrow> TEventLoop" where
  "t_stop w = w\<lparr>t_stopping := True\<rparr>"

section \<open>Descriptors and signals\<close>

text \<open>
  \<^verbatim>\<open>add_reader\<close> and \<^verbatim>\<open>add_writer\<close> store the handle, schedule it at once and answer another
  handle object with the same callback, which is not queued. No readiness is awaited.
\<close>

definition t_add_io ::
  "(nat \<Rightarrow> nat option \<times> nat option) \<Rightarrow> pyobj \<Rightarrow> fd \<Rightarrow> pyobj \<Rightarrow> pyobj \<Rightarrow> pyobj option \<Rightarrow> TEventLoop
     \<Rightarrow> nat pyresult \<times> TEventLoop" where
  "t_add_io slot copied f cb args ctx w =
     (let c = TCBHandle_new cb args (case ctx of Some x \<Rightarrow> x | None \<Rightarrow> copied);
          (h, w1) = t_alloc c w;
          (r, wr) = slot h;
          w2 = w1\<lparr>t_io_callbacks := (t_io_callbacks w1)(f \<mapsto> (r, wr, cbcontext c))\<rparr>;
          (e, w3) = t_schedule_handle h None w2
      in (case e of
            Some err \<Rightarrow> (Inl err, w3)
          | None \<Rightarrow> (let (h', w4) = t_alloc c w3 in (Inr h', w4))))"

definition t_add_reader ::
  "pyobj \<Rightarrow> fd \<Rightarrow> pyobj \<Rightarrow> pyobj \<Rightarrow> pyobj option \<Rightarrow> TEventLoop \<Rightarrow> nat pyresult \<times> TEventLoop" where
  "t_add_reader = t_add_io (\<lambda>h. (Some h, None))"

definition t_add_writer ::
  "pyobj \<Rightarrow> fd \<Rightarrow> pyobj \<Rightarrow> pyobj \<Rightarrow> pyobj option \<Rightarrow> TEventLoop \<Rightarrow> nat pyresult \<times> TEventLoop" where
  "t_add_writer = t_add_io (\<lambda>h. (None, Some h))"

definition t_remove_reader :: "fd \<Rightarrow> TEventLoop \<Rightarrow> bool \<times> TEventLoop" where
  "t_remove_reader f w =
     (case t_io_callbacks w f of
        Some (reader_cb, writer_cb, ctx) \<Rightarrow>
          (reader_cb \<noteq> None, w\<lparr>t_io_callbacks := (t_io_callbacks w)(f := None)\<rparr>)
      | None \<Rightarrow> (False, w))"

definition t_remove_writer :: "fd \<Rightarrow> TEventLoop \<Rightarrow> bool \<times> TEventLoop" where
  "t_remove_writer f w =
     (case t_io_callbacks w f of
        Some (reader_cb, writer_cb, ctx) \<Rightarrow>
          (writer_cb \<noteq> None, w\<lparr>t_io_callbacks := (t_io_callbacks w)(f := None)\<rparr>)
      | None \<Rightarrow> (False, w))"

definition t_tcp_stream_bound :: "fd \<Rightarrow> TEventLoop \<Rightarrow> bool" where
  "t_tcp_stream_bound f w =
     (case t_io_callbacks w f of
        Some (reader_cb, writer_cb, ctx) \<Rightarrow> reader_cb \<noteq> None \<or> writer_cb \<noteq> None
      | None \<Rightarrow> False)"

text \<open>
  The task \<^verbatim>\<open>_ssock_set\<close> spawns, one iteration at a time. The answer of the read of the signal
  socket and, when bytes came, whether the pending Python signal handlers raised
  \<^verbatim>\<open>KeyboardInterrupt\<close> or \<^verbatim>\<open>SystemExit\<close>, are inputs; the result says whether the task goes on.
\<close>

datatype sigread = SigNotReady | SigBytes "byte list" bool | SigClosed | SigWouldBlock | SigError

definition t_ssock_started :: "TEventLoop \<Rightarrow> TEventLoop" where
  "t_ssock_started w = w\<lparr>t_sig_listening := True\<rparr>"

definition t_ssock_read :: "sigread \<Rightarrow> TEventLoop \<Rightarrow> bool \<times> TEventLoop" where
  "t_ssock_read r w =
     (if r = SigNotReady then (True, w)
      else if \<not> t_sig_listening w then (False, w)
      else (case r of
              SigBytes bs critical \<Rightarrow>
                (True, w\<lparr>t_stopping := t_stopping w \<or> critical, t_signals := t_signals w @ bs\<rparr>)
            | SigClosed \<Rightarrow> (False, w)
            | _ \<Rightarrow> (True, w)))"

definition t_ssock_del :: "TEventLoop \<Rightarrow> TEventLoop" where
  "t_ssock_del w = w\<lparr>t_sig_listening := False\<rparr>"

text \<open>The signal table of this loop is not implemented: the operations change nothing.\<close>

definition t_sig_add :: "byte \<Rightarrow> pyobj \<Rightarrow> pyobj \<Rightarrow> pyobj option \<Rightarrow> TEventLoop \<Rightarrow> TEventLoop" where
  "t_sig_add sig cb args ctx w = w"

definition t_sig_rem :: "byte \<Rightarrow> TEventLoop \<Rightarrow> bool \<times> TEventLoop" where
  "t_sig_rem sig w = (False, w)"

definition t_sig_clear :: "TEventLoop \<Rightarrow> TEventLoop" where
  "t_sig_clear w = w"

text \<open>Everything other threads, the I/O tasks and Python callbacks can do to the loop object.\<close>

inductive t_api :: "TEventLoop \<Rightarrow> TEventLoop \<Rightarrow> bool" where
  api_tick: "t_api w (w\<lparr>t_clock := t_clock w + d\<rparr>)"
| api_set_closed: "t_api w (w\<lparr>t_closed := b\<rparr>)"
| api_set_stopping: "t_api w (w\<lparr>t_stopping := b\<rparr>)"
| api_set_exc_handler: "t_api w (w\<lparr>t_exc_handler := x\<rparr>)"
| api_set_exception_handler: "t_api w (w\<lparr>t_exception_handler := x\<rparr>)"
| api_stop: "t_api w (t_stop w)"
| api_cancel: "t_api w (t_cancel h w)"
| api_schedule0: "t_api w (snd (t_schedule0 cb ctx w))"
| api_schedule1: "t_api w (snd (t_schedule1 cb arg ctx w))"
| api_schedule: "t_api w (snd (t_schedule cb args ctx w))"
| api_schedule_later0: "t_api w (snd (t_schedule_later0 d cb ctx w))"
| api_schedule_later1: "t_api w (snd (t_schedule_later1 d cb arg ctx w))"
| api_schedule_later: "t_api w (snd (t_schedule_later d cb args ctx w))"
| api_call_soon: "t_api w (snd (t_call_soon copied cb args ctx w))"
| api_call_soon_threadsafe: "t_api w (snd (t_call_soon_threadsafe copied cb args ctx w))"
| api_call_later: "t_api w (snd (t_call_later lag d cb args c w))"
| api_add_reader: "t_api w (snd (t_add_reader copied f cb args ctx w))"
| api_add_writer: "t_api w (snd (t_add_writer copied f cb args ctx w))"
| api_remove_reader: "t_api w (snd (t_remove_reader f w))"
| api_remove_writer: "t_api w (snd (t_remove_writer f w))"
| api_ssock_started: "t_api w (t_ssock_started w)"
| api_ssock_read: "t_api w (snd (t_ssock_read r w))"
| api_ssock_del: "t_api w (t_ssock_del w)"
| api_sig_add: "t_api w (t_sig_add sig cb args ctx w)"
| api_sig_rem: "t_api w (snd (t_sig_rem sig w))"
| api_sig_clear: "t_api w (t_sig_clear w)"

definition py_uses_api :: "tpy \<Rightarrow> bool" where
  "py_uses_api P = (\<forall>c w. t_api\<^sup>*\<^sup>* w (snd (P c w)))"

section \<open>The task of \<^verbatim>\<open>_run\<close>\<close>

text \<open>
  The task owns the heap of timers and a channel of handles to run. A branch of the select
  answers whether it breaks out of the loop.
\<close>

record trun =
  tloop :: TEventLoop
  delayed_tasks :: "nat Timer list"
  current_handles :: "nat list"

definition sel_task :: "trun \<Rightarrow> (bool \<times> trun) option" where
  "sel_task s =
     (let w = tloop s in
      case t_tasks w of
        Immediate h # r \<Rightarrow>
          Some (False, s\<lparr>tloop := w\<lparr>t_tasks := r\<rparr>, current_handles := current_handles s @ [h]\<rparr>)
      | Delayed t # r \<Rightarrow>
          Some (False, s\<lparr>tloop := w\<lparr>t_tasks := r\<rparr>,
                         delayed_tasks := heap_push TokioTimer_le (delayed_tasks s) t\<rparr>)
      | [] \<Rightarrow> if t_chan_open w then None else Some (True, s))"

text \<open>
  The timer branch, enabled while there are timers. If the first one is not due the branch sleeps
  at most 100 microseconds and changes nothing; otherwise the clock is read again, \<open>lag\<close> later,
  and the timers due by then are moved to the handles to run, without those that are cancelled.
\<close>

definition due_cancelled :: "nat \<Rightarrow> trun \<Rightarrow> nat list" where
  "due_cancelled now s =
     filter (t_cancelled (tloop s))
       (map t_handle (fst (pop_while TokioTimer_le (\<lambda>t. t_when t \<le> now) (delayed_tasks s))))"

definition sel_timer :: "nat \<Rightarrow> trun \<Rightarrow> trun outcome" where
  "sel_timer lag s =
     (case heap_peek (delayed_tasks s) of
        None \<Rightarrow> Ret s
      | Some next_timer \<Rightarrow>
          if t_when next_timer > t_now (tloop s) then Ret s
          else
            (let w = (tloop s)\<lparr>t_clock := t_clock (tloop s) + lag\<rparr>
             in and_then (tokio_drain (t_cancelled w) (t_now w) (delayed_tasks s) (current_handles s))
                  (\<lambda>(cur, rest). Ret (s\<lparr>tloop := w\<lparr>t_trace := t_trace w @
                                                 map TDropped (due_cancelled (t_now w) s)\<rparr>,
                                        delayed_tasks := rest, current_handles := cur\<rparr>))))"

text \<open>The signal branch: 2 is \<^verbatim>\<open>SIGINT\<close> and 15 \<^verbatim>\<open>SIGTERM\<close>.\<close>

definition sel_signal :: "trun \<Rightarrow> (bool \<times> trun) option" where
  "sel_signal s =
     (let w = tloop s in
      case t_signals w of
        [] \<Rightarrow> None
      | signal_num # r \<Rightarrow>
          (let w1 = w\<lparr>t_signals := r,
                      t_stopping := t_stopping w \<or> signal_num = 2 \<or> signal_num = 15\<rparr>
           in Some (\<not> t_sig_listening w1, s\<lparr>tloop := w1\<rparr>)))"

definition sel_handle :: "tpy \<Rightarrow> pyobj \<Rightarrow> trun \<Rightarrow> (bool \<times> trun) option" where
  "sel_handle P ambient s =
     (case current_handles s of
        [] \<Rightarrow> None
      | h # r \<Rightarrow>
          (let w = t_emit (TTaken h (t_now (tloop s))) (tloop s);
               w1 = (if t_cancelled w h then w else TCBHandle_run P ambient h w)
           in Some (False, s\<lparr>tloop := w1, current_handles := r\<rparr>)))"

text \<open>
  After the select the loop ends if the branch broke or the loop is stopping. The timers and the
  handles the task has received are local to it and are dropped with it.
\<close>

datatype tstate = TRunning trun | TDone TEventLoop

definition task_handles :: "trun \<Rightarrow> nat list" where
  "task_handles s = current_handles s @ map t_handle (delayed_tasks s)"

definition loop_end :: "bool \<Rightarrow> trun \<Rightarrow> tstate" where
  "loop_end broke s =
     (if broke \<or> t_stopping (tloop s)
      then TDone ((tloop s)\<lparr>t_trace := t_trace (tloop s) @ map TLost (task_handles s)\<rparr>)
      else TRunning s)"

inductive t_step :: "tpy \<Rightarrow> pyobj \<Rightarrow> tstate \<Rightarrow> tstate \<Rightarrow> bool" for P ambient where
  st_task: "sel_task s = Some (b, s') \<Longrightarrow> t_step P ambient (TRunning s) (loop_end b s')"
| st_timer: "delayed_tasks s \<noteq> [] \<Longrightarrow> sel_timer lag s = Ret s' \<Longrightarrow>
             t_step P ambient (TRunning s) (loop_end False s')"
| st_signal: "sel_signal s = Some (b, s') \<Longrightarrow> t_step P ambient (TRunning s) (loop_end b s')"
| st_default: "delayed_tasks s = [] \<Longrightarrow> t_step P ambient (TRunning s) (loop_end False s)"
| st_handle: "sel_handle P ambient s = Some (b, s') \<Longrightarrow>
              t_step P ambient (TRunning s) (loop_end b s')"
| st_api: "t_api (tloop s) w \<Longrightarrow> t_step P ambient (TRunning s) (TRunning (s\<lparr>tloop := w\<rparr>))"
| st_api_done: "t_api w w' \<Longrightarrow> t_step P ambient (TDone w) (TDone w')"
| st_run: "t_step P ambient (TDone w)
             (TRunning \<lparr>tloop = w, delayed_tasks = [], current_handles = []\<rparr>)"

definition t_init :: "pyobj \<Rightarrow> pyobj \<Rightarrow> tstate" where
  "t_init none ctx = TDone (TEventLoop_new none ctx)"

section \<open>Reading the history\<close>

fun task_handle :: "ScheduledTask \<Rightarrow> nat" where
  "task_handle (Immediate h) = h"
| "task_handle (Delayed t) = t_handle t"

definition imms :: "ScheduledTask list \<Rightarrow> nat list" where
  "imms ts = concat (map (\<lambda>t. case t of Immediate h \<Rightarrow> [h] | Delayed _ \<Rightarrow> []) ts)"

definition queued :: "tevent list \<Rightarrow> ScheduledTask list" where
  "queued tr = concat (map (\<lambda>e. case e of TQueued t \<Rightarrow> [t] | _ \<Rightarrow> []) tr)"

text \<open>Handles the task has taken from its channel to run, or dropped when it ended, in order.\<close>

definition settled :: "tevent list \<Rightarrow> nat list" where
  "settled tr = concat (map (\<lambda>e. case e of TTaken h _ \<Rightarrow> [h] | TLost h \<Rightarrow> [h] | _ \<Rightarrow> []) tr)"

definition dropped :: "tevent list \<Rightarrow> nat list" where
  "dropped tr = concat (map (\<lambda>e. case e of TDropped h \<Rightarrow> [h] | _ \<Rightarrow> []) tr)"

lemma history_append [simp]:
  "imms (ts @ us) = imms ts @ imms us"
  "queued (tr @ es) = queued tr @ queued es"
  "settled (tr @ es) = settled tr @ settled es"
  "dropped (tr @ es) = dropped tr @ dropped es"
  by (simp_all add: imms_def queued_def settled_def dropped_def)

lemma history_simps [simp]:
  "imms [] = []" "imms (Immediate h # ts) = h # imms ts" "imms (Delayed t # ts) = imms ts"
  "queued [] = []" "settled [] = []" "dropped [] = []"
  "queued (e # es) = (case e of TQueued t \<Rightarrow> [t] | _ \<Rightarrow> []) @ queued es"
  "settled (e # es) = (case e of TTaken h _ \<Rightarrow> [h] | TLost h \<Rightarrow> [h] | _ \<Rightarrow> []) @ settled es"
  "dropped (e # es) = (case e of TDropped h \<Rightarrow> [h] | _ \<Rightarrow> []) @ dropped es"
  by (simp_all add: imms_def queued_def settled_def dropped_def)

lemma history_map [simp]:
  "queued (map TDropped hs) = []" "queued (map TLost hs) = []"
  "settled (map TDropped hs) = []" "settled (map TLost hs) = hs"
  "dropped (map TDropped hs) = hs" "dropped (map TLost hs) = []"
  by (induction hs) simp_all

lemma set_imms: "h \<in> set (imms ts) \<longleftrightarrow> Immediate h \<in> set ts"
  by (auto simp: imms_def split: ScheduledTask.splits)

lemma in_settled: "TTaken h c \<in> set tr \<Longrightarrow> h \<in> set (settled tr)"
  by (force simp: settled_def)

section \<open>Invariant\<close>

text \<open>
  For the loop object with a task that holds the timers \<open>D\<close> and the handles \<open>C\<close>: the timers are
  a heap; every task queued has a handle of its own and is either settled or dropped or in exactly
  one place; immediate handles are settled in the order in which they were queued; a timer's handle
  is among those to run, or taken, only at or after its deadline.
\<close>

definition t_inv :: "TEventLoop \<Rightarrow> nat Timer list \<Rightarrow> nat list \<Rightarrow> bool" where
  "t_inv w D C =
     (let tr = t_trace w; Q = queued tr in
      heap_inv TokioTimer_le D
      \<and> mset (map task_handle Q) = mset (settled tr) + mset (dropped tr) + mset C
          + mset (map t_handle D) + mset (map task_handle (t_tasks w))
      \<and> distinct (map task_handle Q) \<and> (\<forall>t \<in> set Q. task_handle t < t_next w)
      \<and> Delayed ` set D \<subseteq> set Q \<and> set (t_tasks w) \<subseteq> set Q
      \<and> filter (\<lambda>h. Immediate h \<in> set Q) (settled tr @ C) @ imms (t_tasks w) = imms Q
      \<and> (\<forall>t. Delayed t \<in> set Q \<longrightarrow> t_handle t \<in> set C \<longrightarrow> t_when t \<le> t_now w)
      \<and> (\<forall>t c. Delayed t \<in> set Q \<longrightarrow> TTaken (t_handle t) c \<in> set tr \<longrightarrow> t_when t \<le> c))"

lemma t_invI:
  assumes "heap_inv TokioTimer_le D"
    and "mset (map task_handle (queued (t_trace w))) = mset (settled (t_trace w))
           + mset (dropped (t_trace w)) + mset C + mset (map t_handle D)
           + mset (map task_handle (t_tasks w))"
    and "distinct (map task_handle (queued (t_trace w)))"
    and "\<And>t. t \<in> set (queued (t_trace w)) \<Longrightarrow> task_handle t < t_next w"
    and "Delayed ` set D \<subseteq> set (queued (t_trace w))"
    and "set (t_tasks w) \<subseteq> set (queued (t_trace w))"
    and "filter (\<lambda>h. Immediate h \<in> set (queued (t_trace w))) (settled (t_trace w) @ C)
           @ imms (t_tasks w) = imms (queued (t_trace w))"
    and "\<And>t. Delayed t \<in> set (queued (t_trace w)) \<Longrightarrow> t_handle t \<in> set C \<Longrightarrow> t_when t \<le> t_now w"
    and "\<And>t c. Delayed t \<in> set (queued (t_trace w)) \<Longrightarrow> TTaken (t_handle t) c \<in> set (t_trace w)
           \<Longrightarrow> t_when t \<le> c"
  shows "t_inv w D C"
  using assms unfolding t_inv_def Let_def by blast

lemma t_invD:
  assumes "t_inv w D C"
  shows "heap_inv TokioTimer_le D"
    and "mset (map task_handle (queued (t_trace w))) = mset (settled (t_trace w))
           + mset (dropped (t_trace w)) + mset C + mset (map t_handle D)
           + mset (map task_handle (t_tasks w))"
    and "distinct (map task_handle (queued (t_trace w)))"
    and "t \<in> set (queued (t_trace w)) \<Longrightarrow> task_handle t < t_next w"
    and "Delayed ` set D \<subseteq> set (queued (t_trace w))"
    and "set (t_tasks w) \<subseteq> set (queued (t_trace w))"
    and "filter (\<lambda>h. Immediate h \<in> set (queued (t_trace w))) (settled (t_trace w) @ C)
           @ imms (t_tasks w) = imms (queued (t_trace w))"
    and "Delayed u \<in> set (queued (t_trace w)) \<Longrightarrow> t_handle u \<in> set C \<Longrightarrow> t_when u \<le> t_now w"
    and "Delayed u \<in> set (queued (t_trace w)) \<Longrightarrow> TTaken (t_handle u) c \<in> set (t_trace w)
           \<Longrightarrow> t_when u \<le> c"
  using assms unfolding t_inv_def Let_def by blast+

text \<open>The handle numbers in a task's places and in its past are all below the next number.\<close>

lemma t_inv_below:
  assumes "t_inv w D C"
  shows "\<forall>h \<in> set (settled (t_trace w)) \<union> set C. h < t_next w"
proof
  fix h assume "h \<in> set (settled (t_trace w)) \<union> set C"
  then have "h \<in># mset (map task_handle (queued (t_trace w)))"
    unfolding t_invD(2) [OF assms] by auto
  then show "h < t_next w" using t_invD(4) [OF assms] by auto
qed

text \<open>A handle is queued by one task only.\<close>

lemma queued_inj:
  "distinct (map task_handle Q) \<Longrightarrow> t \<in> set Q \<Longrightarrow> u \<in> set Q \<Longrightarrow> task_handle t = task_handle u \<Longrightarrow> t = u"
  by (metis distinct_map inj_onD)

lemma timer_not_immediate:
  assumes "distinct (map task_handle Q)" "Delayed t \<in> set Q"
  shows "Immediate (t_handle t) \<notin> set Q"
  using queued_inj [OF assms, of "Immediate (t_handle t)"] by auto

section \<open>What operations may change\<close>

text \<open>
  The contract of every operation on the loop object: the clock does not go back, and new tasks
  are appended, with new handles of their own.
\<close>

definition t_ext :: "TEventLoop \<Rightarrow> TEventLoop \<Rightarrow> bool" where
  "t_ext w w' =
     (t_clock w \<le> t_clock w' \<and> t_next w \<le> t_next w'
      \<and> (\<exists>es. t_tasks w' = t_tasks w @ queued es \<and> t_trace w' = t_trace w @ es
           \<and> settled es = [] \<and> dropped es = [] \<and> distinct (map task_handle (queued es))
           \<and> (\<forall>t \<in> set (queued es). t_next w \<le> task_handle t \<and> task_handle t < t_next w')))"

lemma t_extI:
  "t_clock w \<le> t_clock w' \<Longrightarrow> t_next w \<le> t_next w' \<Longrightarrow> t_tasks w' = t_tasks w @ queued es \<Longrightarrow>
   t_trace w' = t_trace w @ es \<Longrightarrow> settled es = [] \<Longrightarrow> dropped es = [] \<Longrightarrow>
   distinct (map task_handle (queued es)) \<Longrightarrow>
   (\<forall>t \<in> set (queued es). t_next w \<le> task_handle t \<and> task_handle t < t_next w') \<Longrightarrow> t_ext w w'"
  unfolding t_ext_def by blast

lemma t_ext_same:
  "t_clock w \<le> t_clock w' \<Longrightarrow> t_next w \<le> t_next w' \<Longrightarrow> t_tasks w' = t_tasks w \<Longrightarrow>
   t_trace w' = t_trace w \<Longrightarrow> t_ext w w'"
  by (rule t_extI [of _ _ "[]"]) auto

lemma t_ext_refl [simp]: "t_ext w w"
  by (simp add: t_ext_same)

lemma t_ext_trans:
  assumes "t_ext u v" "t_ext v w"
  shows "t_ext u w"
proof -
  from assms(1) obtain es where
    es: "t_tasks v = t_tasks u @ queued es" "t_trace v = t_trace u @ es" "settled es = []"
      "dropped es = []" "distinct (map task_handle (queued es))"
      "\<forall>t \<in> set (queued es). t_next u \<le> task_handle t \<and> task_handle t < t_next v" and
    leu: "t_clock u \<le> t_clock v" "t_next u \<le> t_next v"
    unfolding t_ext_def by blast
  from assms(2) obtain fs where
    fs: "t_tasks w = t_tasks v @ queued fs" "t_trace w = t_trace v @ fs" "settled fs = []"
      "dropped fs = []" "distinct (map task_handle (queued fs))"
      "\<forall>t \<in> set (queued fs). t_next v \<le> task_handle t \<and> task_handle t < t_next w" and
    lev: "t_clock v \<le> t_clock w" "t_next v \<le> t_next w"
    unfolding t_ext_def by blast
  note le = le_trans [OF leu(1) lev(1)] leu(2) lev(2)
  have disj: "task_handle ` set (queued es) \<inter> task_handle ` set (queued fs) = {}"
    using es(6) fs(6) by fastforce
  show ?thesis
  proof (rule t_extI [of _ _ "es @ fs"])
    show "\<forall>t \<in> set (queued (es @ fs)). t_next u \<le> task_handle t \<and> task_handle t < t_next w"
      using es(6) fs(6) le by fastforce
  qed (use es fs le disj in auto)
qed

lemma t_ext_py: "t_ext w (t_emit (TPy c) w)"
  by (rule t_extI [of _ _ "[TPy c]"]) (simp_all add: t_emit_def)

lemma t_ext_schedule:
  assumes "h < t_next w" "\<And>t. u = t \<Longrightarrow> t_next t \<le> h \<and> t_clock t \<le> t_clock w \<and> t_trace w = t_trace t
     \<and> t_tasks w = t_tasks t"
  shows "t_ext u (snd (t_schedule_handle h delay w))"
proof -
  let ?task = "case delay of Some d \<Rightarrow> Delayed \<lparr>t_handle = h, t_when = (t_clock w + d) div 1000\<rparr>
     | None \<Rightarrow> Immediate h"
  have h: "task_handle ?task = h" by (cases delay) auto
  show ?thesis
  proof (cases "t_stopping w \<or> t_closed w \<or> \<not> t_chan_open w")
    case True
    then show ?thesis using assms by (auto simp: t_schedule_handle_def Let_def intro!: t_ext_same)
  next
    case False
    then have "snd (t_schedule_handle h delay w)
        = w\<lparr>t_tasks := t_tasks w @ [?task], t_trace := t_trace w @ [TQueued ?task]\<rparr>"
      by (simp add: t_schedule_handle_def Let_def t_emit_def)
    then show ?thesis
      using assms h by (intro t_extI [of _ _ "[TQueued ?task]"]) auto
  qed
qed

lemma t_ext_schedule_new: "t_ext w (snd (t_schedule_new c delay w))"
  by (auto simp: t_schedule_new_def t_alloc_def intro!: t_ext_schedule)

lemmas t_schedule_defs =
  t_schedule0_def t_schedule1_def t_schedule_def t_schedule_later0_def t_schedule_later1_def
  t_schedule_later_def

lemma t_ext_call:
  "t_ext w (snd (t_call_soon copied cb args ctx w))"
  "t_ext w (snd (t_call_soon_threadsafe copied cb args ctx w))"
  "t_ext w (snd (t_call_later lag d cb args c w))"
  by (auto simp: t_call_soon_def t_call_soon_threadsafe_def t_call_later_def t_alloc_def Let_def
      case_prod_beta intro!: t_ext_schedule)

lemma t_ext_add_io: "t_ext w (snd (t_add_io slot copied f cb args ctx w))"
proof -
  let ?c = "TCBHandle_new cb args (case ctx of None \<Rightarrow> copied | Some x \<Rightarrow> x)"
  let ?w2 = "(snd (t_alloc ?c w))\<lparr>t_io_callbacks := (t_io_callbacks w)(f \<mapsto>
     (fst (slot (t_next w)), snd (slot (t_next w)), cbcontext ?c))\<rparr>"
  let ?w3 = "snd (t_schedule_handle (t_next w) None ?w2)"
  have a: "t_ext w ?w3" by (rule t_ext_schedule) (auto simp: t_alloc_def)
  have b: "t_ext ?w3 (snd (t_alloc ?c ?w3))" by (rule t_ext_same) (auto simp: t_alloc_def)
  have "snd (t_add_io slot copied f cb args ctx w) \<in> {?w3, snd (t_alloc ?c ?w3)}"
    by (auto simp: t_add_io_def t_alloc_def Let_def case_prod_beta split: option.splits)
  then show ?thesis using a t_ext_trans [OF a b] by auto
qed

lemma t_api_ext: "t_api w w' \<Longrightarrow> t_ext w w'"
proof (induction rule: t_api.induct)
qed (auto simp: t_stop_def t_cancel_def t_remove_reader_def t_remove_writer_def t_ssock_started_def
    t_ssock_read_def t_ssock_del_def t_sig_add_def t_sig_rem_def t_sig_clear_def t_schedule_defs
    t_add_reader_def t_add_writer_def t_ext_schedule_new t_ext_call t_ext_add_io
    split: option.splits sigread.splits intro: t_ext_same)

lemma t_api_star_ext: "t_api\<^sup>*\<^sup>* w w' \<Longrightarrow> t_ext w w'"
  by (induction rule: rtranclp_induct) (auto intro: t_ext_trans t_api_ext)

lemma t_call_ext: "py_uses_api P \<Longrightarrow> t_ext w (snd (t_call P c w))"
  by (metis py_uses_api_def t_api_star_ext t_call_def t_ext_py t_ext_trans)

lemma TCBHandle_run_ext: "py_uses_api P \<Longrightarrow> t_ext w (TCBHandle_run P ambient h w)"
  unfolding TCBHandle_run_def t_log_exception_def
  by (auto split: option.splits prod.splits pyres.splits intro: t_ext_trans)
    (metis snd_conv t_call_ext t_ext_trans)+

section \<open>The invariant is kept\<close>

lemma t_inv_ext:
  assumes inv: "t_inv w D C" and ext: "t_ext w w'"
  shows "t_inv w' D C"
proof -
  from ext obtain es where
    es: "t_tasks w' = t_tasks w @ queued es" "t_trace w' = t_trace w @ es" "settled es = []"
      "dropped es = []" "distinct (map task_handle (queued es))"
      "\<forall>t \<in> set (queued es). t_next w \<le> task_handle t \<and> task_handle t < t_next w'" and
    le: "t_clock w \<le> t_clock w'" "t_next w \<le> t_next w'"
    unfolding t_ext_def by blast
  note I = t_invD [OF inv]
  let ?Q = "queued (t_trace w)"
  have old: "h < t_next w" if "h \<in> set (settled (t_trace w) @ C)" for h
    using that t_inv_below [OF inv] by auto
  have new: "task_handle t \<notin> set (settled (t_trace w) @ C)" if "t \<in> set (queued es)" for t
    using that old es(6) by (meson leD)
  have disj: "task_handle ` set ?Q \<inter> task_handle ` set (queued es) = {}"
    using I(4) es(6) by (force simp: not_less)
  have taken: "TTaken h c \<notin> set es" for h c
    using in_settled [of h c es] es(3) by auto
  have filt: "filter (\<lambda>h. Immediate h \<in> set ?Q \<or> Immediate h \<in> set (queued es))
      (settled (t_trace w) @ C) = filter (\<lambda>h. Immediate h \<in> set ?Q) (settled (t_trace w) @ C)"
    by (rule filter_cong [OF refl]) (use new in force)
  show ?thesis
  proof (rule t_invI)
    show "filter (\<lambda>h. Immediate h \<in> set (queued (t_trace w'))) (settled (t_trace w') @ C)
        @ imms (t_tasks w') = imms (queued (t_trace w'))"
      using I(7) filt by (simp add: es)
    show "t_when t \<le> t_now w'"
      if "Delayed t \<in> set (queued (t_trace w'))" "t_handle t \<in> set C" for t
      using that I(8) [of t] new [of "Delayed t"] t_now_mono [OF le(1)] by (fastforce simp: es(2))
    show "t_when t \<le> c" if "Delayed t \<in> set (queued (t_trace w'))"
      "TTaken (t_handle t) c \<in> set (t_trace w')" for t c
      using that I(9) [of t c] new [of "Delayed t"] taken in_settled [of "t_handle t" c "t_trace w"]
      by (auto simp: es(2))
    show "task_handle t < t_next w'" if "t \<in> set (queued (t_trace w'))" for t
      using that I(4) [of t] le(2) es(6) by (fastforce simp: es(2))
  qed (use I es disj in auto)
qed

lemma sel_task_inv:
  assumes inv: "t_inv (tloop s) (delayed_tasks s) (current_handles s)"
    and sel: "sel_task s = Some (b, s')"
  shows "t_inv (tloop s') (delayed_tasks s') (current_handles s')"
proof -
  note I = t_invD [OF inv]
  show ?thesis
  proof (cases "t_tasks (tloop s)")
    case Nil
    then show ?thesis using sel inv by (auto simp: sel_task_def Let_def split: if_splits)
  next
    case (Cons t r)
    show ?thesis
    proof (cases t)
      case (Immediate h)
      then have s': "s' = s\<lparr>tloop := (tloop s)\<lparr>t_tasks := r\<rparr>,
          current_handles := current_handles s @ [h]\<rparr>"
        using sel Cons by (simp add: sel_task_def Let_def)
      have q: "Immediate h \<in> set (queued (t_trace (tloop s)))" using I(6) Cons Immediate by simp
      have other: "t_handle u \<noteq> h" if "Delayed u \<in> set (queued (t_trace (tloop s)))" for u
        using queued_inj [OF I(3) q that] by auto
      show ?thesis unfolding s'
        by (rule t_invI) (use I Cons Immediate q other in auto)
    next
      case (Delayed u)
      then have s': "s' = s\<lparr>tloop := (tloop s)\<lparr>t_tasks := r\<rparr>,
          delayed_tasks := heap_push TokioTimer_le (delayed_tasks s) u\<rparr>"
        using sel Cons by (simp add: sel_task_def Let_def)
      have m: "mset (heap_push TokioTimer_le (delayed_tasks s) u) = add_mset u (mset (delayed_tasks s))"
        by (simp add: tth.mset_heap_push)
      then have st: "set (heap_push TokioTimer_le (delayed_tasks s) u) = insert u (set (delayed_tasks s))"
        by (metis set_mset_add_mset_insert set_mset_mset)
      have mm: "mset (map t_handle (heap_push TokioTimer_le (delayed_tasks s) u))
          = add_mset (t_handle u) (mset (map t_handle (delayed_tasks s)))"
        by (simp add: m)
      show ?thesis unfolding s'
        by (rule t_invI) (use I Cons Delayed st mm tth.heap_push_inv [OF I(1)] in auto)
    qed
  qed
qed

lemma sel_timer_drains:
  assumes inv: "t_inv (tloop s) (delayed_tasks s) (current_handles s)"
    and peek: "heap_peek (delayed_tasks s) = Some t" "t_when t \<le> t_now (tloop s)"
  shows "\<exists>ds rest. sel_timer lag s = Ret
      (s\<lparr>tloop := (tloop s)\<lparr>t_clock := t_clock (tloop s) + lag,
           t_trace := t_trace (tloop s) @ map TDropped (filter (t_cancelled (tloop s)) (map t_handle ds))\<rparr>,
         delayed_tasks := rest,
         current_handles := current_handles s
           @ filter (\<lambda>h. \<not> t_cancelled (tloop s) h) (map t_handle ds)\<rparr>)
    \<and> mset (delayed_tasks s) = mset ds + mset rest \<and> heap_inv TokioTimer_le rest
    \<and> sorted (map t_when ds) \<and> (\<forall>t \<in> set ds. t_when t \<le> (t_clock (tloop s) + lag) div 1000)
    \<and> (\<forall>t \<in> set rest. (t_clock (tloop s) + lag) div 1000 < t_when t)"
proof -
  let ?now = "(t_clock (tloop s) + lag) div 1000"
  obtain ds rest where pw: "pop_while TokioTimer_le (\<lambda>t. t_when t \<le> ?now) (delayed_tasks s) = (ds, rest)"
    by fastforce
  have mono: "\<forall>a b :: nat Timer. t_when b \<le> ?now \<longrightarrow> TokioTimer_le b a \<longrightarrow> t_when a \<le> ?now"
    by (simp add: TokioTimer_le_iff)
  note snd = tth.pop_while_sound [OF t_invD(1) [OF inv] pw mono]
  have sort: "sorted (map t_when ds)" using snd(3) unfolding sorted_wrt_map TokioTimer_le_iff .
  have canc: "t_cancelled ((tloop s)\<lparr>t_clock := t_clock (tloop s) + lag\<rparr>) = t_cancelled (tloop s)"
    by (simp add: t_cancelled_def fun_eq_iff)
  have eq: "sel_timer lag s = Ret
      (s\<lparr>tloop := (tloop s)\<lparr>t_clock := t_clock (tloop s) + lag,
           t_trace := t_trace (tloop s) @ map TDropped (filter (t_cancelled (tloop s)) (map t_handle ds))\<rparr>,
         delayed_tasks := rest,
         current_handles := current_handles s
           @ filter (\<lambda>h. \<not> t_cancelled (tloop s) h) (map t_handle ds)\<rparr>)"
    using peek by (simp add: sel_timer_def due_cancelled_def tokio_drain_pop_while pw canc Let_def t_now_def)
  show ?thesis using eq snd(1,2,4) sort snd(5) by (auto simp: not_le)
qed

lemma sel_timer_waits:
  "heap_peek (delayed_tasks s) = None \<or> (\<exists>t. heap_peek (delayed_tasks s) = Some t \<and>
     t_now (tloop s) < t_when t) \<Longrightarrow> sel_timer lag s = Ret s"
  by (auto simp: sel_timer_def heap_peek_def split: option.splits)

lemma mset_filter_split: "mset (filter P xs) + mset (filter (\<lambda>x. \<not> P x) xs) = mset xs"
  by (induction xs) auto

lemma sel_timer_inv:
  assumes inv: "t_inv (tloop s) (delayed_tasks s) (current_handles s)"
    and sel: "sel_timer lag s = Ret s'"
  shows "t_inv (tloop s') (delayed_tasks s') (current_handles s')"
proof (cases "\<exists>t. heap_peek (delayed_tasks s) = Some t \<and> t_when t \<le> t_now (tloop s)")
  case False
  then have "sel_timer lag s = Ret s"
    by (intro sel_timer_waits) (cases "heap_peek (delayed_tasks s)"; auto simp: not_le)
  then show ?thesis using sel inv by simp
next
  case True
  then obtain t where "heap_peek (delayed_tasks s) = Some t" "t_when t \<le> t_now (tloop s)" by blast
  from sel_timer_drains [OF inv this, of lag] sel obtain ds rest where
    s': "s' = s\<lparr>tloop := (tloop s)\<lparr>t_clock := t_clock (tloop s) + lag,
           t_trace := t_trace (tloop s) @ map TDropped (filter (t_cancelled (tloop s)) (map t_handle ds))\<rparr>,
         delayed_tasks := rest,
         current_handles := current_handles s
           @ filter (\<lambda>h. \<not> t_cancelled (tloop s) h) (map t_handle ds)\<rparr>" and
    m: "mset (delayed_tasks s) = mset ds + mset rest" and hp: "heap_inv TokioTimer_le rest" and
    due: "\<forall>t \<in> set ds. t_when t \<le> (t_clock (tloop s) + lag) div 1000"
    by auto
  note I = t_invD [OF inv]
  let ?Q = "queued (t_trace (tloop s))"
  have st: "set (delayed_tasks s) = set ds \<union> set rest" by (metis m set_mset_mset set_mset_union)
  have dq: "Delayed t \<in> set ?Q" if "t \<in> set ds" for t using I(5) st that by blast
  have mm: "mset (map t_handle (delayed_tasks s))
      = mset (filter (t_cancelled (tloop s)) (map t_handle ds))
        + mset (filter (\<lambda>h. \<not> t_cancelled (tloop s) h) (map t_handle ds)) + mset (map t_handle rest)"
    unfolding mset_filter_split by (simp add: m)
  have nimm: "filter (\<lambda>h. Immediate h \<in> set ?Q \<and> \<not> t_cancelled (tloop s) h) (map t_handle ds) = []"
    using timer_not_immediate [OF I(3) dq] by (simp add: filter_empty_conv)
  show ?thesis unfolding s'
  proof (rule t_invI, simp_all add: hp I(3,4,6) st, goal_cases)
    case 1
    show ?case using I(2) mm by simp
  next
    case 2
    show ?case using I(5) st by auto
  next
    case 3
    show ?case using I(7) nimm by (simp add: conj_commute)
  next
    case (4 t)
    then show ?case
      using I(8) [of t] due dq queued_inj [OF I(3), of "Delayed t"]
        t_now_mono [of "tloop s" "(tloop s)\<lparr>t_clock := t_clock (tloop s) + lag\<rparr>"] by fastforce
  next
    case (5 t c)
    then show ?case using I(9) [of t c] by auto
  qed
qed

lemma sel_signal_inv:
  assumes inv: "t_inv (tloop s) (delayed_tasks s) (current_handles s)"
    and sel: "sel_signal s = Some (b, s')"
  shows "t_inv (tloop s') (delayed_tasks s') (current_handles s')"
proof -
  have "t_ext (tloop s) (tloop s')" "delayed_tasks s' = delayed_tasks s"
    "current_handles s' = current_handles s"
    using sel by (auto simp: sel_signal_def Let_def split: list.splits intro: t_ext_same)
  then show ?thesis using t_inv_ext [OF inv] by simp
qed

lemma sel_handle_inv:
  assumes py: "py_uses_api P" and inv: "t_inv (tloop s) (delayed_tasks s) (current_handles s)"
    and sel: "sel_handle P ambient s = Some (b, s')"
  shows "t_inv (tloop s') (delayed_tasks s') (current_handles s')"
proof (cases "current_handles s")
  case Nil
  then show ?thesis using sel by (simp add: sel_handle_def)
next
  case (Cons h r)
  let ?w = "t_emit (TTaken h (t_now (tloop s))) (tloop s)"
  note I = t_invD [OF inv]
  have "t_inv ?w (delayed_tasks s) r"
    by (rule t_invI) (use I Cons in \<open>auto simp: t_emit_def\<close>)
  moreover have "t_ext ?w (tloop s')" "delayed_tasks s' = delayed_tasks s" "current_handles s' = r"
    using sel Cons TCBHandle_run_ext [OF py, of ?w ambient h]
    by (auto simp: sel_handle_def Let_def)
  ultimately show ?thesis using t_inv_ext by simp
qed

fun state_inv :: "tstate \<Rightarrow> bool" where
  "state_inv (TRunning s) = t_inv (tloop s) (delayed_tasks s) (current_handles s)"
| "state_inv (TDone w) = t_inv w [] []"

lemma loop_end_inv:
  assumes inv: "t_inv (tloop s) (delayed_tasks s) (current_handles s)"
  shows "state_inv (loop_end b s)"
proof (cases "b \<or> t_stopping (tloop s)")
  case True
  note I = t_invD [OF inv]
  let ?Q = "queued (t_trace (tloop s))"
  have nimm: "filter (\<lambda>h. Immediate h \<in> set ?Q) (map t_handle (delayed_tasks s)) = []"
    using timer_not_immediate [OF I(3)] I(5) by (auto simp: filter_empty_conv)
  have "t_inv ((tloop s)\<lparr>t_trace := t_trace (tloop s) @ map TLost (task_handles s)\<rparr>) [] []"
  proof (rule t_invI, simp_all add: task_handles_def heap_inv_def I(3,4,6)
      del: map_map, goal_cases)
    case 1
    show ?case using I(2) by simp
  next
    case 2
    show ?case using I(7) nimm by simp
  next
    case (3 t c)
    then show ?case using I(9) [of t c] by auto
  qed
  then show ?thesis using True by (simp add: loop_end_def)
qed (use inv in \<open>simp add: loop_end_def\<close>)

lemma t_step_inv: "t_step P ambient s s' \<Longrightarrow> py_uses_api P \<Longrightarrow> state_inv s \<Longrightarrow> state_inv s'"
proof (induction rule: t_step.induct)
qed (auto intro: loop_end_inv sel_task_inv sel_timer_inv sel_signal_inv sel_handle_inv t_inv_ext
    t_api_ext)

interpretation tk: step_system "t_step P ambient" state_inv "py_uses_api P" for P ambient
  by unfold_locales (rule t_step_inv)

lemma t_init_inv: "state_inv (t_init none ctx)"
  by (simp add: t_init_def TEventLoop_new_def t_inv_def heap_inv_def)

lemmas t_reach_inv = tk.run_inv [OF _ t_init_inv]

section \<open>A run to look at\<close>

text \<open>
  For the concrete examples: Python code that does nothing, a loop with a timer at 5 microseconds
  (handle 0) and an immediate callback (handle 1) queued, and its task after it has received both
  and taken the second.
\<close>

definition quiet_py :: tpy where
  "quiet_py = (\<lambda>c w. (PyOk 0 True, w))"

lemma quiet_py_ok [simp]: "py_uses_api quiet_py"
  by (simp add: py_uses_api_def quiet_py_def)

definition demo_queued :: TEventLoop where
  "demo_queued = snd (t_call_soon 3 7 0 None (snd (t_call_later 0 5 8 0 4 (TEventLoop_new 0 0))))"

lemmas demo_queued_simps = demo_queued_def t_now_def t_call_soon_def t_call_later_def t_alloc_def Let_def
  t_schedule_handle_def TEventLoop_new_def TCBHandle_new_def t_emit_def

definition demo_received :: trun where
  "demo_received =
     \<lparr>tloop = demo_queued\<lparr>t_tasks := []\<rparr>,
      delayed_tasks = [\<lparr>t_handle = 0, t_when = 5\<rparr>], current_handles = [1]\<rparr>"

definition demo_taken :: trun where
  "demo_taken =
     \<lparr>tloop = demo_queued\<lparr>t_tasks := [], t_trace := t_trace demo_queued @
         [TTaken 1 0, TPy (RunCB 7 (Args 0) 9)]\<rparr>,
      delayed_tasks = [\<lparr>t_handle = 0, t_when = 5\<rparr>], current_handles = []\<rparr>"

lemma demo_queued_fields:
  "t_tasks demo_queued = [Delayed \<lparr>t_handle = 0, t_when = 5\<rparr>, Immediate 1]"
  "t_trace demo_queued = [TQueued (Delayed \<lparr>t_handle = 0, t_when = 5\<rparr>), TQueued (Immediate 1)]"
  "t_stopping demo_queued = False" "t_now demo_queued = 0"
  "t_objs demo_queued = [0 \<mapsto> TCBHandle_new 8 0 4, 1 \<mapsto> TCBHandle_new 7 0 3]"
  by (simp_all add: demo_queued_simps t_now_def)

lemma demo_received_reached: "(t_step quiet_py 9)\<^sup>*\<^sup>* (t_init 0 0) (TRunning demo_received)"
proof -
  let ?S = "t_step quiet_py 9"
  let ?r = "\<lambda>ts D C. \<lparr>tloop = demo_queued\<lparr>t_tasks := ts\<rparr>, delayed_tasks = D, current_handles = C\<rparr>"
  let ?t = "\<lparr>t_handle = 0, t_when = 5\<rparr>"
  have "?S\<^sup>*\<^sup>* (t_init 0 0) (TDone demo_queued)"
    unfolding t_init_def demo_queued_def
    by (rule rtranclp.rtrancl_into_rtrancl, rule r_into_rtranclp, rule st_api_done,
        rule api_call_later, rule st_api_done, rule api_call_soon)
  also have "?S (TDone demo_queued) (TRunning (?r [Delayed ?t, Immediate 1] [] []))"
    using st_run [of quiet_py 9 demo_queued] by (simp add: demo_queued_simps)
  also have "?S (TRunning (?r [Delayed ?t, Immediate 1] [] [])) (TRunning (?r [Immediate 1] [?t] []))"
    using st_task [of "?r [Delayed ?t, Immediate 1] [] []" False "?r [Immediate 1] [?t] []" quiet_py 9]
    by (simp add: sel_task_def loop_end_def demo_queued_fields heap_push_def sift_up.simps [of _ _ 0])
  also have "?S (TRunning (?r [Immediate 1] [?t] [])) (TRunning demo_received)"
    using st_task [of "?r [Immediate 1] [?t] []" False demo_received quiet_py 9]
    by (simp add: sel_task_def loop_end_def demo_queued_fields demo_received_def)
  finally show ?thesis .
qed

lemma demo_taken_reached: "(t_step quiet_py 9)\<^sup>*\<^sup>* (t_init 0 0) (TRunning demo_taken)"
proof -
  have "sel_handle quiet_py 9 demo_received = Some (False, demo_taken)"
    by (simp add: sel_handle_def demo_received_def demo_taken_def t_emit_def t_cancelled_def
        demo_queued_fields TCBHandle_run_def TCBHandle_new_def t_call_def quiet_py_def
        run_context_def Let_def)
  from st_handle [OF this] have "t_step quiet_py 9 (TRunning demo_received) (TRunning demo_taken)"
    by (simp add: loop_end_def demo_taken_def demo_queued_fields)
  with demo_received_reached show ?thesis by (rule rtranclp.rtrancl_into_rtrancl)
qed

section \<open>Order and completeness\<close>

text \<open>
  C12. The tasks of the second loop, over any number of runs, with any interleaving of the select's
  branches and of operations of other threads. Every task queued has its own handle, which is
  settled (taken to run, or lost when a run ended), or dropped as a cancelled timer, or is in
  exactly one of the three queues; and handles queued for immediate running are settled in the
  order in which they were queued.
\<close>

theorem tokio_tasks_accounted:
  assumes "py_uses_api P" "(t_step P ambient)\<^sup>*\<^sup>* (t_init none ctx) (TRunning s)"
  shows "mset (map task_handle (queued (t_trace (tloop s))))
           = mset (settled (t_trace (tloop s))) + mset (dropped (t_trace (tloop s)))
             + mset (current_handles s) + mset (map t_handle (delayed_tasks s))
             + mset (map task_handle (t_tasks (tloop s)))
         \<and> distinct (map task_handle (queued (t_trace (tloop s))))
         \<and> filter (\<lambda>h. Immediate h \<in> set (queued (t_trace (tloop s))))
             (settled (t_trace (tloop s)) @ current_handles s) @ imms (t_tasks (tloop s))
           = imms (queued (t_trace (tloop s)))"
proof -
  have inv: "t_inv (tloop s) (delayed_tasks s) (current_handles s)"
    using t_reach_inv [OF assms(2,1)] by simp
  show ?thesis using t_invD(2,3,7) [OF inv] by blast
qed

theorem tokio_tasks_accounted_witness:
  "py_uses_api quiet_py \<and> (t_step quiet_py 9)\<^sup>*\<^sup>* (t_init 0 0) (TRunning demo_taken)
   \<and> settled (t_trace (tloop demo_taken)) = [1] \<and> imms (queued (t_trace (tloop demo_taken))) = [1]
   \<and> filter (\<lambda>h. Immediate h \<in> set (queued (t_trace (tloop demo_taken))))
             (settled (t_trace (tloop demo_taken)) @ current_handles demo_taken)
             @ imms (t_tasks (tloop demo_taken)) = imms (queued (t_trace (tloop demo_taken)))"
  using tokio_tasks_accounted [OF quiet_py_ok demo_taken_reached] demo_taken_reached
  by (simp add: demo_taken_def demo_queued_fields)

section \<open>Timers\<close>

text \<open>
  C15. Timers of the second loop. No timer's handle is ever taken before its deadline. The timer
  branch of the select does not panic: while the first timer is in the future it changes nothing;
  otherwise it hands over exactly the timers due at its second clock reading, in order of their
  deadlines and behind the handles already waiting, without those that were cancelled.
\<close>

theorem tokio_timers_on_time:
  assumes "py_uses_api P" "(t_step P ambient)\<^sup>*\<^sup>* (t_init none ctx) (TRunning s)"
  shows "(\<forall>t c. Delayed t \<in> set (queued (t_trace (tloop s))) \<longrightarrow>
            TTaken (t_handle t) c \<in> set (t_trace (tloop s)) \<longrightarrow> t_when t \<le> c)
    \<and> (\<forall>lag t. heap_peek (delayed_tasks s) = Some t \<longrightarrow>
         (if t_now (tloop s) < t_when t then sel_timer lag s = Ret s
          else \<exists>ds rest s'. sel_timer lag s = Ret s' \<and> delayed_tasks s' = rest
                 \<and> current_handles s' = current_handles s
                     @ filter (\<lambda>h. \<not> t_cancelled (tloop s) h) (map t_handle ds)
                 \<and> mset (delayed_tasks s) = mset ds + mset rest \<and> sorted (map t_when ds)
                 \<and> (\<forall>t \<in> set ds. t_when t \<le> (t_clock (tloop s) + lag) div 1000)
                 \<and> (\<forall>t \<in> set rest. (t_clock (tloop s) + lag) div 1000 < t_when t)))"
proof -
  have inv: "t_inv (tloop s) (delayed_tasks s) (current_handles s)"
    using t_reach_inv [OF assms(2,1)] by simp
  show ?thesis
  proof (intro conjI allI impI, goal_cases)
    case (1 t c)
    then show ?case by (rule t_invD(9) [OF inv])
  next
    case (2 lag t)
    show ?case
    proof (cases "t_now (tloop s) < t_when t")
      case False
      then show ?thesis using sel_timer_drains [OF inv 2, of lag] by fastforce
    qed (use 2 in \<open>simp add: sel_timer_waits\<close>)
  qed
qed

theorem tokio_timers_on_time_witness:
  "py_uses_api quiet_py \<and> (t_step quiet_py 9)\<^sup>*\<^sup>* (t_init 0 0) (TRunning demo_taken)
   \<and> heap_peek (delayed_tasks demo_taken) = Some \<lparr>t_handle = 0, t_when = 5\<rparr>
   \<and> (\<forall>lag. sel_timer lag demo_taken = Ret demo_taken)"
proof -
  have peek: "heap_peek (delayed_tasks demo_taken) = Some \<lparr>t_handle = 0, t_when = 5\<rparr>"
    by (simp add: demo_taken_def heap_peek_def)
  moreover have "t_now (tloop demo_taken) = 0" by (simp add: demo_taken_def demo_queued_fields)
  ultimately have "sel_timer lag demo_taken = Ret demo_taken" for lag
    using tokio_timers_on_time [OF quiet_py_ok demo_taken_reached] by fastforce
  then show ?thesis using peek demo_taken_reached by simp
qed

section \<open>Stopping\<close>

fun state_trace :: "tstate \<Rightarrow> tevent list" where
  "state_trace (TRunning s) = t_trace (tloop s)"
| "state_trace (TDone w) = t_trace w"

lemma t_ext_trace: "t_ext w w' \<Longrightarrow> set (t_trace w) \<subseteq> set (t_trace w')"
  unfolding t_ext_def by auto

lemma state_trace_loop_end [simp]: "set (t_trace (tloop s)) \<subseteq> set (state_trace (loop_end b s))"
  by (auto simp: loop_end_def)

text \<open>One select of the task: history grows, and no handle the task holds is forgotten.\<close>

definition kept_from :: "trun \<Rightarrow> trun \<Rightarrow> bool" where
  "kept_from s s' =
     (set (t_trace (tloop s)) \<subseteq> set (t_trace (tloop s'))
      \<and> (\<forall>h \<in> set (task_handles s). h \<in> set (task_handles s')
           \<or> TDropped h \<in> set (t_trace (tloop s')) \<or> (\<exists>c. TTaken h c \<in> set (t_trace (tloop s')))))"

lemma sel_task_kept: "sel_task s = Some (b, s') \<Longrightarrow> kept_from s s'"
proof -
  have "set (heap_push TokioTimer_le D u) = insert u (set D)" for D :: "nat Timer list" and u
    by (metis set_mset_add_mset_insert set_mset_mset tth.mset_heap_push)
  then show "sel_task s = Some (b, s') \<Longrightarrow> kept_from s s'"
    by (auto simp: sel_task_def kept_from_def task_handles_def Let_def
        split: list.splits ScheduledTask.splits if_splits)
qed

lemma sel_timer_kept:
  assumes inv: "t_inv (tloop s) (delayed_tasks s) (current_handles s)" and sel: "sel_timer lag s = Ret s'"
  shows "kept_from s s'"
proof (cases "\<exists>t. heap_peek (delayed_tasks s) = Some t \<and> t_when t \<le> t_now (tloop s)")
  case False
  then have "sel_timer lag s = Ret s"
    by (intro sel_timer_waits) (cases "heap_peek (delayed_tasks s)"; auto simp: not_le)
  then show ?thesis using sel by (simp add: kept_from_def)
next
  case True
  then obtain t where "heap_peek (delayed_tasks s) = Some t" "t_when t \<le> t_now (tloop s)" by blast
  from sel_timer_drains [OF inv this, of lag] sel obtain ds rest where
    s': "s' = s\<lparr>tloop := (tloop s)\<lparr>t_clock := t_clock (tloop s) + lag,
           t_trace := t_trace (tloop s) @ map TDropped (filter (t_cancelled (tloop s)) (map t_handle ds))\<rparr>,
         delayed_tasks := rest,
         current_handles := current_handles s
           @ filter (\<lambda>h. \<not> t_cancelled (tloop s) h) (map t_handle ds)\<rparr>" and
    m: "mset (delayed_tasks s) = mset ds + mset rest"
    by auto
  have "set (delayed_tasks s) = set ds \<union> set rest" by (metis m set_mset_mset set_mset_union)
  then show ?thesis unfolding s' kept_from_def task_handles_def by auto
qed

lemma sel_signal_kept: "sel_signal s = Some (b, s') \<Longrightarrow> kept_from s s'"
  by (auto simp: sel_signal_def kept_from_def task_handles_def Let_def split: list.splits)

lemma sel_handle_kept:
  assumes "py_uses_api P" "sel_handle P ambient s = Some (b, s')"
  shows "kept_from s s'"
proof (cases "current_handles s")
  case (Cons h r)
  let ?w = "t_emit (TTaken h (t_now (tloop s))) (tloop s)"
  have "t_ext ?w (tloop s')" "delayed_tasks s' = delayed_tasks s" "current_handles s' = r"
    using assms Cons TCBHandle_run_ext [OF assms(1), of ?w ambient h]
    by (auto simp: sel_handle_def Let_def)
  then show ?thesis
    using t_ext_trace [of ?w "tloop s'"] Cons by (auto simp: kept_from_def task_handles_def t_emit_def)
qed (use assms in \<open>simp add: sel_handle_def\<close>)

inductive_cases t_step_runningE: "t_step P ambient (TRunning s) st"

lemma t_step_kept:
  assumes "t_step P ambient (TRunning s) st" "py_uses_api P" "state_inv (TRunning s)"
  shows "(\<exists>s' b. st = loop_end b s' \<and> kept_from s s') \<or> (\<exists>w. st = TRunning (s\<lparr>tloop := w\<rparr>) \<and> t_ext (tloop s) w)"
  using assms(1)
proof (rule t_step_runningE, goal_cases)
  case (2 lag s')
  then show ?case using sel_timer_kept [of s lag s'] assms(3) by auto
next
  case 4
  then show ?case by (auto simp: kept_from_def)
qed (use assms(2) sel_task_kept sel_signal_kept sel_handle_kept t_api_ext in blast)+

lemma t_step_trace:
  assumes "t_step P ambient st st'" "py_uses_api P" "state_inv st"
  shows "set (state_trace st) \<subseteq> set (state_trace st')"
proof (cases st)
  case (TRunning s)
  from t_step_kept [OF assms(1) [unfolded TRunning] assms(2) assms(3) [unfolded TRunning]] TRunning
  show ?thesis using t_ext_trace state_trace_loop_end by (fastforce simp: kept_from_def)
next
  case (TDone w)
  with assms(1) show ?thesis by (auto elim!: t_step.cases dest!: t_api_ext t_ext_trace)
qed

lemma end_loses:
  assumes "t_step P ambient (TRunning s) (TDone w)" "py_uses_api P" "state_inv (TRunning s)"
    and "h \<in> set (task_handles s)"
  shows "TLost h \<in> set (t_trace w) \<or> TDropped h \<in> set (t_trace w) \<or> (\<exists>c. TTaken h c \<in> set (t_trace w))"
proof -
  from t_step_kept [OF assms(1,2,3)] obtain s' b where "TDone w = loop_end b s'" "kept_from s s'"
    by auto
  then show ?thesis using assms(4) by (auto simp: loop_end_def kept_from_def split: if_splits)
qed

lemma in_history: "TLost h \<in> set tr \<Longrightarrow> h \<in> set (settled tr)" "TDropped h \<in> set tr \<Longrightarrow> h \<in> set (dropped tr)"
  by (force simp: settled_def dropped_def)+

text \<open>A handle that is lost or dropped is not also taken.\<close>

lemma distinct_settled_once:
  "distinct (settled tr) \<Longrightarrow> TTaken h c \<in> set tr \<Longrightarrow> TLost h \<notin> set tr"
proof (induction tr)
  case (Cons e tr)
  then show ?case using in_history(1) [of h tr] in_settled [of h c tr]
    by (cases e) auto
qed simp

lemma t_inv_taken_once:
  assumes "t_inv w D C" "TTaken h c \<in> set (t_trace w)"
  shows "TLost h \<notin> set (t_trace w) \<and> TDropped h \<notin> set (t_trace w)"
proof -
  have "mset (map task_handle (queued (t_trace w))) = mset ((settled (t_trace w) @ dropped (t_trace w))
      @ C @ map t_handle D @ map task_handle (t_tasks w))"
    using t_invD(2) [OF assms(1)] by simp
  then have "distinct (settled (t_trace w) @ dropped (t_trace w))"
    using t_invD(3) [OF assms(1)] mset_eq_imp_distinct_iff distinct_append by blast
  then show ?thesis
    using distinct_settled_once [of "t_trace w" h c] assms(2) in_settled [of h c "t_trace w"] in_history
    by fastforce
qed

lemma state_inv_taken_once:
  "state_inv st \<Longrightarrow> TTaken h c \<in> set (state_trace st) \<Longrightarrow>
   TLost h \<notin> set (state_trace st) \<and> TDropped h \<notin> set (state_trace st)"
  by (cases st) (auto dest: t_inv_taken_once)

text \<open>
  C30. A run that ends takes its timers with it. The timers and the received handles belong to the
  task, not to the loop object: whatever the task still holds when it ends, apart from a handle its
  last select has taken, is never run by any later run of the loop, however far in the future the
  timer was.
\<close>

theorem tokio_stop_loses:
  assumes "py_uses_api P" "(t_step P ambient)\<^sup>*\<^sup>* (t_init none ctx) (TRunning s)"
    and "t_step P ambient (TRunning s) (TDone w)" "h \<in> set (task_handles s)"
    and "(t_step P ambient)\<^sup>*\<^sup>* (TDone w) st"
  shows "(\<exists>c. TTaken h c \<in> set (t_trace w)) \<or> (\<forall>c. TTaken h c \<notin> set (state_trace st))"
proof (cases "\<exists>c. TTaken h c \<in> set (t_trace w)")
  case False
  have inv: "state_inv (TRunning s)" using t_reach_inv [OF assms(2,1)] .
  have invw: "state_inv (TDone w)" using t_step_inv [OF assms(3,1) inv] .
  have gone: "TLost h \<in> set (state_trace (TDone w)) \<or> TDropped h \<in> set (state_trace (TDone w))"
    using end_loses [OF assms(3,1) inv assms(4)] False by simp
  have "set (state_trace (TDone w)) \<subseteq> set (state_trace st)"
    using tk.run_mono [OF assms(5) invw assms(1), of "\<lambda>x. set (state_trace x)"]
      t_step_trace [OF _ assms(1)] by blast
  with gone have "TLost h \<in> set (state_trace st) \<or> TDropped h \<in> set (state_trace st)" by blast
  then show ?thesis using state_inv_taken_once [OF tk.run_inv [OF assms(5) invw assms(1)]] by blast
qed simp

theorem tokio_stop_loses_witness:
  "py_uses_api quiet_py
   \<and> (t_step quiet_py 9)\<^sup>*\<^sup>* (t_init 0 0) (TRunning (demo_taken\<lparr>tloop := t_stop (tloop demo_taken)\<rparr>))
   \<and> 0 \<in> set (task_handles (demo_taken\<lparr>tloop := t_stop (tloop demo_taken)\<rparr>))
   \<and> (\<exists>w. t_step quiet_py 9 (TRunning (demo_taken\<lparr>tloop := t_stop (tloop demo_taken)\<rparr>)) (TDone w)
        \<and> (t_step quiet_py 9)\<^sup>*\<^sup>* (TDone w)
            (TRunning \<lparr>tloop = w\<lparr>t_stopping := False\<rparr>, delayed_tasks = [], current_handles = []\<rparr>)
        \<and> (\<forall>c. TTaken 0 c \<notin> set (state_trace
             (TRunning \<lparr>tloop = w\<lparr>t_stopping := False\<rparr>, delayed_tasks = [], current_handles = []\<rparr>))))"
proof -
  let ?s = "demo_taken\<lparr>tloop := t_stop (tloop demo_taken)\<rparr>"
  let ?w = "(tloop ?s)\<lparr>t_trace := t_trace (tloop ?s) @ [TLost 0]\<rparr>"
  have r: "(t_step quiet_py 9)\<^sup>*\<^sup>* (t_init 0 0) (TRunning ?s)"
    using demo_taken_reached st_api [OF api_stop] by (rule rtranclp.rtrancl_into_rtrancl)
  have h: "0 \<in> set (task_handles ?s)" by (simp add: task_handles_def demo_taken_def)
  have "sel_timer 0 ?s = Ret ?s"
    by (rule sel_timer_waits) (simp add: demo_taken_def heap_peek_def t_stop_def demo_queued_fields)
  then have e: "t_step quiet_py 9 (TRunning ?s) (TDone ?w)"
    using st_timer [of ?s 0 ?s quiet_py 9]
    by (simp add: loop_end_def task_handles_def t_stop_def demo_taken_def)
  have n: "TTaken 0 c \<notin> set (t_trace ?w)" for c
    by (simp add: demo_taken_def t_stop_def demo_queued_fields)
  have "(t_step quiet_py 9)\<^sup>*\<^sup>* (TDone ?w) (TDone (?w\<lparr>t_stopping := False\<rparr>))"
    by (intro r_into_rtranclp st_api_done api_set_stopping)
  then have again: "(t_step quiet_py 9)\<^sup>*\<^sup>* (TDone ?w)
      (TRunning \<lparr>tloop = ?w\<lparr>t_stopping := False\<rparr>, delayed_tasks = [], current_handles = []\<rparr>)"
    using st_run by (rule rtranclp.rtrancl_into_rtrancl)
  have "(\<exists>c. TTaken 0 c \<in> set (t_trace ?w)) \<or> (\<forall>c. TTaken 0 c \<notin> set (state_trace
      (TRunning \<lparr>tloop = ?w\<lparr>t_stopping := False\<rparr>, delayed_tasks = [], current_handles = []\<rparr>)))"
    by (rule tokio_stop_loses [OF quiet_py_ok r e h again])
  then have "\<forall>c. TTaken 0 c \<notin> set (state_trace
      (TRunning \<lparr>tloop = ?w\<lparr>t_stopping := False\<rparr>, delayed_tasks = [], current_handles = []\<rparr>))"
    using n by blast
  then show ?thesis using r h e again quiet_py_ok by blast
qed

section \<open>Running a handle\<close>

text \<open>
  What the select does with the first handle it has received. If the handle reports itself
  cancelled no Python code is called. Otherwise its callback is called once, with its own
  arguments; an exception it raises goes to the loop's exception handler and the task goes on.
  A handle with an argument tuple is called in whatever context the worker thread has, not in the
  one it was created with, unlike the other two classes; and a one-argument handle runs even after
  \<^verbatim>\<open>cancel\<close>.
\<close>

theorem tokio_handle_run:
  assumes "current_handles s = h # r" "t_objs (tloop s) h = Some c"
  shows "(t_cancelled (tloop s) h \<longrightarrow>
            sel_handle P ambient s = Some (False,
              s\<lparr>tloop := t_emit (TTaken h (t_now (tloop s))) (tloop s), current_handles := r\<rparr>))
    \<and> (\<not> t_cancelled (tloop s) h \<longrightarrow>
        (let w0 = t_emit (TTaken h (t_now (tloop s))) (tloop s);
             ctx = (case cbargs c of Args _ \<Rightarrow> ambient | _ \<Rightarrow> cbcontext c);
             call = RunCB (callback c) (cbargs c) ctx;
             (res, w1) = P call (t_emit (TPy call) w0)
         in sel_handle P ambient s = Some (False,
              s\<lparr>tloop := (case res of
                   PyOk _ _ \<Rightarrow> w1
                 | PyErr e \<Rightarrow>
                     (let lg = LogException (t_exc_handler w1) (LogCBHandle e h) (t_exception_handler w1)
                      in snd (P lg (t_emit (TPy lg) w1)))), current_handles := r\<rparr>)))
    \<and> t_cancelled (t_cancel h (tloop s)) h = (\<not> (\<exists>a. cbargs c = OneArg a))"
proof -
  have canc: "t_cancelled (t_emit e w) = t_cancelled w" for e w
    by (simp add: t_cancelled_def t_emit_def fun_eq_iff)
  have objs: "t_objs (t_emit e w) = t_objs w" for e w
    by (simp add: t_emit_def)
  show ?thesis
    using assms
    by (auto simp: sel_handle_def canc objs TCBHandle_run_def t_call_def t_log_exception_def Let_def
        run_context_def t_cancel_def t_cancelled_def split: prod.splits pyres.splits cb_args.splits)
qed

theorem tokio_handle_run_witness:
  "current_handles demo_received = [1] \<and> t_objs (tloop demo_received) 1 = Some (TCBHandle_new 7 0 3)
   \<and> \<not> t_cancelled (tloop demo_received) 1 \<and> t_cancelled (t_cancel 1 (tloop demo_received)) 1
   \<and> sel_handle quiet_py 9 demo_received = Some (False, demo_taken)"
proof -
  have f: "current_handles demo_received = [1]"
    "t_objs (tloop demo_received) 1 = Some (TCBHandle_new 7 0 3)"
    "\<not> t_cancelled (tloop demo_received) 1"
    by (simp_all add: demo_received_def demo_queued_fields t_cancelled_def TCBHandle_new_def)
  show ?thesis
    using tokio_handle_run [OF f(1,2), of quiet_py 9] f
    by (simp add: quiet_py_def Let_def TCBHandle_new_def)
      (simp add: demo_received_def demo_taken_def t_emit_def demo_queued_fields)
qed

section \<open>Readers and writers\<close>

text \<open>
  \<^verbatim>\<open>add_reader\<close> and \<^verbatim>\<open>add_writer\<close> of this loop, on a loop that is open and not stopping. The
  callback is queued at once and once, whether or not the descriptor is ready. The handle returned is
  another object than the one queued, so cancelling it does not cancel the callback. The descriptor
  has one entry for both directions: registering a writer forgets the reader, \<^verbatim>\<open>remove_reader\<close> then
  answers false and removes the writer too.
\<close>

theorem tokio_add_reader_behaviour:
  assumes "\<not> t_stopping w" "\<not> t_closed w" "t_chan_open w"
    and "t_add_reader copied f cb args ctx w = (r, w1)"
    and "t_add_writer copied' f cb' args' ctx' w1 = (r', w2)"
  shows "r = Inr (t_next w + 1) \<and> t_tasks w1 = t_tasks w @ [Immediate (t_next w)]
    \<and> t_objs w1 (t_next w) = Some (TCBHandle_new cb args (case ctx of Some x \<Rightarrow> x | None \<Rightarrow> copied))
    \<and> \<not> t_cancelled (t_cancel (t_next w + 1) w1) (t_next w)
    \<and> t_tcp_stream_bound f w1 \<and> fst (t_remove_reader f w1)
    \<and> \<not> fst (t_remove_reader f w2) \<and> \<not> t_tcp_stream_bound f (snd (t_remove_reader f w2))"
  using assms
  by (auto simp: t_add_reader_def t_add_writer_def t_add_io_def t_alloc_def t_schedule_handle_def
      t_emit_def t_cancelled_def t_cancel_def t_tcp_stream_bound_def t_remove_reader_def
      TCBHandle_new_def Let_def)

theorem tokio_add_reader_behaviour_witness:
  "\<exists>w1 w2. t_add_reader 1 7 2 3 None (TEventLoop_new 0 0) = (Inr 1, w1)
     \<and> t_add_writer 1 7 4 5 None w1 = (Inr 3, w2)
     \<and> t_tasks w1 = [Immediate 0] \<and> \<not> t_cancelled (t_cancel 1 w1) 0 \<and> \<not> fst (t_remove_reader 7 w2)"
proof -
  let ?w = "TEventLoop_new 0 0"
  obtain r w1 where a: "t_add_reader 1 7 2 3 None ?w = (r, w1)" by fastforce
  obtain r' w2 where b: "t_add_writer 1 7 4 5 None w1 = (r', w2)" by fastforce
  have n: "\<not> t_stopping ?w" "\<not> t_closed ?w" "t_chan_open ?w" "t_next ?w = 0" "t_tasks ?w = []"
    by (simp_all add: TEventLoop_new_def)
  have "r' = Inr 3"
    using a b by (auto simp: t_add_reader_def t_add_writer_def t_add_io_def t_alloc_def
        t_schedule_handle_def t_emit_def TEventLoop_new_def Let_def)
  then show ?thesis using tokio_add_reader_behaviour [OF n(1-3) a b] a b n by auto
qed

end
