(* ===== verification/Tokio_Timers.thy ===== *)
theory Tokio_Timers
  imports Tokio_Loop
begin

text \<open>
  \<^verbatim>\<open>TTimerHandle\<close> of \<^verbatim>\<open>tokio_handles.rs\<close>, what Python gets from \<^verbatim>\<open>_call_later\<close> of the tokio loop,
  and what cancelling through it means for the task of \<^verbatim>\<open>_run\<close>.
\<close>

text \<open>The deadline is in microseconds here, a float of seconds in the code.\<close>

record TTimerHandle =
  tth_handle :: nat
  tth_when :: nat

definition TTimerHandle_new :: "nat \<Rightarrow> nat \<Rightarrow> TTimerHandle" where
  "TTimerHandle_new handle at = \<lparr>tth_handle = handle, tth_when = at\<rparr>"

definition TTimerHandle_cancel :: "TTimerHandle \<Rightarrow> TEventLoop \<Rightarrow> TEventLoop" where
  "TTimerHandle_cancel self w = t_cancel (tth_handle self) w"

definition TTimerHandle_cancelled :: "TTimerHandle \<Rightarrow> TEventLoop \<Rightarrow> bool" where
  "TTimerHandle_cancelled self w = t_cancelled w (tth_handle self)"

text \<open>
  A handle that exists, of a class that can be cancelled, stays so, as its number is never given out
  again; and once cancelled (\<open>q\<close>) it stays cancelled.
\<close>

definition kept :: "bool \<Rightarrow> nat \<Rightarrow> TEventLoop \<Rightarrow> bool" where
  "kept q h w =
     (h < t_next w
      \<and> (case t_objs w h of
           None \<Rightarrow> False
         | Some c \<Rightarrow> (case cbargs c of OneArg _ \<Rightarrow> False | _ \<Rightarrow> q \<longrightarrow> cbcancelled c)))"

lemma kept_cancelled: "kept True h w \<longleftrightarrow> h < t_next w \<and> t_cancelled w h"
  by (auto simp: kept_def t_cancelled_def split: option.splits cb_args.splits)

lemma kept_then_cancel: "kept q h w \<Longrightarrow> kept True h (t_cancel h w)"
  by (auto simp: kept_def t_cancel_def split: option.splits cb_args.splits)

lemma kept_same [simp]:
  "kept q h (w\<lparr>t_clock := c\<rparr>) = kept q h w" "kept q h (w\<lparr>t_closed := b\<rparr>) = kept q h w"
  "kept q h (w\<lparr>t_stopping := b\<rparr>) = kept q h w" "kept q h (w\<lparr>t_exc_handler := x\<rparr>) = kept q h w"
  "kept q h (w\<lparr>t_exception_handler := x\<rparr>) = kept q h w" "kept q h (w\<lparr>t_signals := ss\<rparr>) = kept q h w"
  "kept q h (w\<lparr>t_sig_listening := b\<rparr>) = kept q h w" "kept q h (w\<lparr>t_io_callbacks := io\<rparr>) = kept q h w"
  "kept q h (w\<lparr>t_tasks := ts\<rparr>) = kept q h w" "kept q h (w\<lparr>t_trace := tr\<rparr>) = kept q h w"
  "kept q h (t_emit e w) = kept q h w"
  by (simp_all add: kept_def t_emit_def)

lemma kept_alloc: "kept q h w \<Longrightarrow> kept q h (snd (t_alloc c w))"
  by (auto simp: kept_def t_alloc_def)

lemma kept_cancel: "kept q h w \<Longrightarrow> kept q h (t_cancel h' w)"
  by (auto simp: kept_def t_cancel_def split: option.splits cb_args.splits)

lemma kept_schedule: "kept q h w \<Longrightarrow> kept q h (snd (t_schedule_handle h' d w))"
  by (simp add: t_schedule_handle_def Let_def)

lemma kept_schedule_new: "kept q h w \<Longrightarrow> kept q h (snd (t_schedule_new c d w))"
  by (simp add: t_schedule_new_def Let_def case_prod_beta' kept_alloc kept_schedule)

lemma kept_call:
  assumes "kept q h w"
  shows "kept q h (snd (t_call_soon copied cb args ctx w))"
    "kept q h (snd (t_call_soon_threadsafe copied cb args ctx w))" "kept q h (snd (t_call_later lag d cb args c w))"
    "kept q h (snd (t_add_io slot copied f cb args ctx w))"
  using assms
  by (auto simp: t_call_soon_def t_call_soon_threadsafe_def t_call_later_def t_add_io_def Let_def case_prod_beta'
      intro!: kept_schedule kept_alloc split: option.split)

lemma kept_api: "t_api w w' \<Longrightarrow> kept q h w \<Longrightarrow> kept q h w'"
proof (induction rule: t_api.induct)
qed (auto simp: t_stop_def t_remove_reader_def t_remove_writer_def t_ssock_started_def t_ssock_read_def
    t_ssock_del_def t_sig_add_def t_sig_rem_def t_sig_clear_def t_schedule_defs t_add_reader_def t_add_writer_def
    kept_cancel kept_schedule_new kept_call split: option.splits sigread.splits)

lemma kept_python: "py_uses_api P \<Longrightarrow> kept q h w \<Longrightarrow> kept q h (snd (t_call P c w))"
proof -
  assume "py_uses_api P" "kept q h w"
  then have "t_api\<^sup>*\<^sup>* (t_emit (TPy c) w) (snd (t_call P c w))" "kept q h (t_emit (TPy c) w)"
    by (simp_all add: py_uses_api_def t_call_def)
  then show ?thesis by (induction rule: rtranclp_induct) (auto intro: kept_api)
qed

lemma kept_run: "py_uses_api P \<Longrightarrow> kept q h w \<Longrightarrow> kept q h (TCBHandle_run P ambient h' w)"
  using kept_python [of P q h]
  by (auto simp: TCBHandle_run_def t_log_exception_def split: option.splits prod.splits pyres.splits) (metis snd_conv)+

fun loop_of :: "tstate \<Rightarrow> TEventLoop" where
  "loop_of (TRunning s) = tloop s"
| "loop_of (TDone w) = w"

lemma loop_of_end [simp]: "kept q h (loop_of (loop_end b s)) = kept q h (tloop s)"
  by (simp add: loop_end_def)

lemma kept_branches:
  assumes "kept q h (tloop s)"
  shows "sel_task s = Some (b, s') \<Longrightarrow> kept q h (tloop s')" "sel_timer lag s = Ret s' \<Longrightarrow> kept q h (tloop s')"
    "sel_signal s = Some (b, s') \<Longrightarrow> kept q h (tloop s')"
    "py_uses_api P \<Longrightarrow> sel_handle P ambient s = Some (b, s') \<Longrightarrow> kept q h (tloop s')"
  using assms
  by (auto simp: sel_task_def sel_timer_def sel_signal_def sel_handle_def Let_def and_then_eq_Ret_iff kept_run
      split: list.splits option.splits if_splits ScheduledTask.splits)

lemma kept_step: "t_step P ambient st st' \<Longrightarrow> py_uses_api P \<Longrightarrow> kept q h (loop_of st) \<Longrightarrow> kept q h (loop_of st')"
  by (induction rule: t_step.induct) (auto intro: kept_branches kept_api)

interpretation kept_handle: step_system "t_step P ambient" "\<lambda>st. kept q h (loop_of st)" "py_uses_api P" for P ambient q h
  by unfold_locales (rule kept_step)

text \<open>Other threads act on the loop object whether its task runs or not.\<close>

fun set_loop :: "TEventLoop \<Rightarrow> tstate \<Rightarrow> tstate" where
  "set_loop w (TRunning s) = TRunning (s\<lparr>tloop := w\<rparr>)"
| "set_loop w (TDone _) = TDone w"

lemma set_loop_simps [simp]: "loop_of (set_loop w st) = w" "set_loop w (set_loop v st) = set_loop w st"
  by (cases st; simp)+

lemma set_loop_api: "t_api (loop_of st) w \<Longrightarrow> t_step P ambient st (set_loop w st)"
  by (cases st) (auto intro: t_step.intros)

lemma sel_timer_skips:
  assumes inv: "t_inv (tloop s) (delayed_tasks s) (current_handles s)" and c: "t_cancelled (tloop s) h"
    and sel: "sel_timer now s = Ret s'"
  shows "count_list (current_handles s') h = count_list (current_handles s) h"
proof (cases "heap_peek (delayed_tasks s)")
  case (Some t)
  show ?thesis
  proof (cases "t_when t \<le> t_now (tloop s)")
    case True
    from sel_timer_drains [OF inv Some True, of now] show ?thesis
      using sel c by (auto simp: count_list_append count_list_0_iff)
  qed (use Some sel in \<open>simp add: sel_timer_def\<close>)
next
  case None
  then have "sel_timer now s = Ret s" unfolding sel_timer_def None by simp
  then show ?thesis using sel by simp
qed

text \<open>
  C17. A cancelled timer of the tokio loop never runs. In any reachable state, running or not, a timer
  is made with \<^verbatim>\<open>call_later\<close>; the task, the other threads and the callbacks go on in any way, and at
  any later time the timer is cancelled through the handle Python got, be it still in the channel,
  among the timers or already among the handles to run. However they go on from there, the handle stays
  cancelled; when the timer is due it is not put among the handles to run; and if it is there already,
  the task takes it and calls nothing.
\<close>

theorem tokio_cancelled_timer_never_runs:
  assumes py: "py_uses_api P" and reach: "(t_step P ambient)\<^sup>*\<^sup>* (t_init none ctx0) st0"
    and later: "t_call_later lag d cb args ctx (loop_of st0) = (Inr (h, at), w1)"
    and meanwhile: "(t_step P ambient)\<^sup>*\<^sup>* (set_loop w1 st0) st1"
    and run: "(t_step P ambient)\<^sup>*\<^sup>* (set_loop (TTimerHandle_cancel (TTimerHandle_new h at) (loop_of st1)) st1) st"
  shows "TTimerHandle_cancelled (TTimerHandle_new h at) (loop_of st)
    \<and> (\<forall>s r. st = TRunning s \<and> current_handles s = h # r \<longrightarrow>
         sel_handle P ambient s = Some (False,
           s\<lparr>tloop := t_emit (TTaken h (t_now (tloop s))) (tloop s), current_handles := r\<rparr>))
    \<and> (\<forall>s s' now. st = TRunning s \<and> sel_timer now s = Ret s' \<longrightarrow>
         count_list (current_handles s') h = count_list (current_handles s) h)"
proof -
  let ?w = "TTimerHandle_cancel (TTimerHandle_new h at) (loop_of st1)"
  have w1: "w1 = snd (t_call_later lag d cb args ctx (loop_of st0))" using later by simp
  have "t_step P ambient st0 (set_loop w1 st0)" unfolding w1 by (rule set_loop_api) (rule api_call_later)
  moreover have "t_step P ambient st1 (set_loop ?w st1)"
    by (rule set_loop_api) (simp add: TTimerHandle_cancel_def api_cancel)
  ultimately have "(t_step P ambient)\<^sup>*\<^sup>* (t_init none ctx0) st"
    using reach meanwhile run by (meson rtranclp.rtrancl_into_rtrancl rtranclp_trans)
  then have inv: "state_inv st" using t_reach_inv py by blast
  have "kept False h (loop_of (set_loop w1 st0))"
    using later by (auto simp: kept_def t_call_later_def t_alloc_def Let_def t_schedule_handle_def
        TCBHandle_new_def t_emit_def split: if_splits)
  then have "kept False h (loop_of st1)" by (rule kept_handle.run_inv [OF meanwhile _ py])
  then have "kept True h (loop_of (set_loop ?w st1))"
    by (simp add: TTimerHandle_cancel_def TTimerHandle_new_def kept_then_cancel)
  then have "kept True h (loop_of st)" by (rule kept_handle.run_inv [OF run _ py])
  then have c: "t_cancelled (loop_of st) h" by (simp add: kept_cancelled)
  have "sel_handle P ambient s = Some (False,
      s\<lparr>tloop := t_emit (TTaken h (t_now (tloop s))) (tloop s), current_handles := r\<rparr>)"
    if "st = TRunning s" "current_handles s = h # r" for s r
    using that c by (simp add: sel_handle_def t_cancelled_def t_emit_def)
  moreover have "count_list (current_handles s') h = count_list (current_handles s) h"
    if "st = TRunning s" "sel_timer now s = Ret s'" for s s' now
    using that inv c by (intro sel_timer_skips [OF _ _ that(2)]) simp_all
  ultimately show ?thesis using c by (auto simp: TTimerHandle_cancelled_def TTimerHandle_new_def)
qed

text \<open>A timer with no delay that the task has received and found due: its handle is about to run.\<close>

definition due_loop :: TEventLoop where
  "due_loop = (TEventLoop_new 0 0)\<lparr>t_objs := [0 \<mapsto> TCBHandle_new 8 0 4], t_next := 1,
     t_trace := [TQueued (Delayed \<lparr>t_handle = 0, t_when = 0\<rparr>)]\<rparr>"

definition due_state :: trun where
  "due_state = \<lparr>tloop = due_loop, delayed_tasks = [], current_handles = [0]\<rparr>"

lemma due_state_reached:
  "(t_step P ambient)\<^sup>*\<^sup>* (set_loop (snd (t_call_later 0 0 8 0 4 (loop_of (t_init 0 0)))) (t_init 0 0)) (TRunning due_state)"
proof -
  let ?w1 = "snd (t_call_later 0 0 8 0 4 (TEventLoop_new 0 0))"
  let ?t = "\<lparr>t_handle = 0, t_when = 0\<rparr> :: nat Timer"
  let ?s1 = "\<lparr>tloop = ?w1, delayed_tasks = [], current_handles = []\<rparr>"
  let ?s2 = "\<lparr>tloop = due_loop, delayed_tasks = [?t], current_handles = []\<rparr>"
  have w1: "?w1 = due_loop\<lparr>t_tasks := [Delayed ?t]\<rparr>"
    by (simp add: due_loop_def t_call_later_def t_alloc_def Let_def t_schedule_handle_def TEventLoop_new_def t_emit_def t_now_def)
  have run: "\<not> t_stopping due_loop" "t_tasks due_loop = []" "t_now due_loop = 0" "t_clock due_loop = 0"
    "\<not> t_cancelled due_loop 0"
    by (simp_all add: due_loop_def TEventLoop_new_def t_now_def t_cancelled_def TCBHandle_new_def)
  have "sel_task ?s1 = Some (False, ?s2)"
    by (simp add: sel_task_def w1 heap_push_def sift_up.simps [of _ _ 0])
       (simp add: due_loop_def TEventLoop_new_def)
  then have "t_step P ambient (TRunning ?s1) (loop_end False ?s2)" by (rule st_task)
  moreover have pw: "pop_while TokioTimer_le (\<lambda>t. t_when t = 0) [?t] = ([?t], [])"
    by (simp add: pop_while.simps [of _ _ "[?t]"] pop_while.simps [of _ _ "[]"] heap_pop_def)
  have same: "due_loop\<lparr>t_clock := 0, t_trace := t_trace due_loop\<rparr> = due_loop"
    by (simp add: due_loop_def TEventLoop_new_def)
  have "sel_timer 0 ?s2 = Ret due_state"
    using run by (simp add: sel_timer_def heap_peek_def due_state_def tokio_drain_pop_while
        due_cancelled_def pw same t_cancelled_def t_now_def Let_def)
  then have "t_step P ambient (TRunning ?s2) (loop_end False due_state)" by (intro st_timer) simp_all
  ultimately have "(t_step P ambient)\<^sup>*\<^sup>* (TRunning ?s1) (TRunning due_state)"
    using run(1) by (simp add: loop_end_def due_state_def)
  with st_run [of P ambient ?w1] have "(t_step P ambient)\<^sup>*\<^sup>* (TDone ?w1) (TRunning due_state)"
    by (rule converse_rtranclp_into_rtranclp)
  then show ?thesis by (simp add: t_init_def)
qed

theorem tokio_cancelled_timer_never_runs_witness:
  "let th = TTimerHandle_new 0 0; w = TTimerHandle_cancel th due_loop in
   (t_step quiet_py 9)\<^sup>*\<^sup>* (set_loop (snd (t_call_later 0 0 8 0 4 (loop_of (t_init 0 0)))) (t_init 0 0)) (TRunning due_state)
   \<and> \<not> TTimerHandle_cancelled th due_loop \<and> current_handles due_state = [0]
   \<and> TTimerHandle_cancelled th w
   \<and> sel_handle quiet_py 9 (due_state\<lparr>tloop := w\<rparr>) = Some (False,
        due_state\<lparr>tloop := t_emit (TTaken 0 0) w, current_handles := []\<rparr>)"
proof -
  let ?w1 = "snd (t_call_later 0 0 8 0 4 (loop_of (t_init 0 0)))"
  let ?th = "TTimerHandle_new 0 0"
  let ?w = "TTimerHandle_cancel ?th due_loop"
  have l: "t_call_later 0 0 8 0 4 (loop_of (t_init 0 0)) = (Inr (0, 0), ?w1)"
    by (simp add: t_init_def t_call_later_def t_alloc_def Let_def t_schedule_handle_def TEventLoop_new_def t_now_def)
  have d: "\<not> TTimerHandle_cancelled ?th due_loop" "current_handles due_state = [0]" "tloop due_state = due_loop"
    "t_now ?w = 0"
    by (simp_all add: TTimerHandle_cancelled_def TTimerHandle_new_def due_loop_def due_state_def t_cancelled_def
        TCBHandle_new_def TTimerHandle_cancel_def t_cancel_def t_now_def TEventLoop_new_def)
  have c: "set_loop ?w (TRunning due_state) = TRunning (due_state\<lparr>tloop := ?w\<rparr>)" by simp
  have r: "(t_step quiet_py 9)\<^sup>*\<^sup>* (set_loop (TTimerHandle_cancel ?th (loop_of (TRunning due_state))) (TRunning due_state))
      (TRunning (due_state\<lparr>tloop := ?w\<rparr>))" using d(3) by simp
  show ?thesis
    using tokio_cancelled_timer_never_runs [OF quiet_py_ok rtranclp.rtrancl_refl l due_state_reached r]
      due_state_reached d unfolding Let_def by simp
qed

end
