(* ===== verification/Tokio_Signals.thy ===== *)
theory Tokio_Signals
  imports Tokio_Loop
begin

text \<open>
  The rest of \<^verbatim>\<open>tokio_event_loop.rs\<close>: the runtime the loop object holds, its attributes, how
  \<^verbatim>\<open>_run\<close> reports the end of its task, and the task that \<^verbatim>\<open>_ssock_set\<close> spawns to read the signal
  socket, from the duplication of the descriptors to its end, together with the socket and the
  select loop it feeds.
\<close>

section \<open>The runtime\<close>

text \<open>
  The \<^verbatim>\<open>OnceLock\<close> of the loop object, holding the number of a runtime. The answer of the builder is
  an argument: the runtime or the text of an error.
\<close>

definition initialize_runtime :: "string + nat \<Rightarrow> nat option \<Rightarrow> unit pyresult \<times> nat option" where
  "initialize_runtime built lock =
     (case built of
        Inl e \<Rightarrow> (Inl (RuntimeError (''Failed to create Tokio runtime: '' @ e)), lock)
      | Inr rt \<Rightarrow>
          (case lock of
             None \<Rightarrow> (Inr (), Some rt)
           | Some _ \<Rightarrow> (Inl (RuntimeError ''Runtime already initialized''), lock)))"

definition get_runtime :: "nat option \<Rightarrow> nat outcome" where
  "get_runtime lock = unwrap lock"

text \<open>How the task of \<^verbatim>\<open>_run\<close> can end, and what \<^verbatim>\<open>_run\<close> makes of it.\<close>

datatype join_result = JoinOk | JoinPyErr pyerr | JoinError string

definition run_result :: "join_result \<Rightarrow> unit pyresult" where
  "run_result r =
     (case r of
        JoinOk \<Rightarrow> Inr ()
      | JoinPyErr e \<Rightarrow> Inl e
      | JoinError e \<Rightarrow> Inl (RuntimeError (''Tokio event loop failed: '' @ e)))"

section \<open>Attributes\<close>

definition t_get_closed :: "TEventLoop \<Rightarrow> bool" where
  "t_get_closed w = t_closed w"

definition t_set_closed :: "bool \<Rightarrow> TEventLoop \<Rightarrow> TEventLoop" where
  "t_set_closed v w = w\<lparr>t_closed := v\<rparr>"

definition t_get_stopping :: "TEventLoop \<Rightarrow> bool" where
  "t_get_stopping w = t_stopping w"

definition t_set_stopping :: "bool \<Rightarrow> TEventLoop \<Rightarrow> TEventLoop" where
  "t_set_stopping v w = w\<lparr>t_stopping := v\<rparr>"

definition t_get_exc_handler :: "TEventLoop \<Rightarrow> pyobj" where
  "t_get_exc_handler w = t_exc_handler w"

definition t_set_exc_handler :: "pyobj \<Rightarrow> TEventLoop \<Rightarrow> TEventLoop" where
  "t_set_exc_handler v w = w\<lparr>t_exc_handler := v\<rparr>"

definition t_get_exception_handler :: "TEventLoop \<Rightarrow> pyobj" where
  "t_get_exception_handler w = t_exception_handler w"

definition t_set_exception_handler :: "pyobj \<Rightarrow> TEventLoop \<Rightarrow> TEventLoop" where
  "t_set_exception_handler v w = w\<lparr>t_exception_handler := v\<rparr>"

lemma t_attributes_api:
  "t_api w (t_set_closed b w)" "t_api w (t_set_stopping b w)" "t_api w (t_set_exc_handler x w)"
  "t_api w (t_set_exception_handler x w)"
  by (simp_all add: t_set_closed_def t_set_stopping_def t_set_exc_handler_def t_set_exception_handler_def t_api.intros)

section \<open>The signal task\<close>

text \<open>
  Where the task is: spawned, reading from its copies of the two descriptors, or ended with its
  result, which nobody reads because the join handle is dropped.

  The state keeps the loop object, the descriptors the task has opened and not closed, the bytes in
  the socket, the open descriptors of its write end (that of Python and the task's own copy),
  and as a history the bytes written into the socket and those the select loop has taken.
\<close>

datatype sig_phase = SigSpawned | SigReading fd fd | SigDone "unit pyresult"

record sigtask =
  sg_loop :: TEventLoop
  sg_phase :: sig_phase
  sg_open :: "fd list"
  sg_pending :: "byte list"
  sg_writers :: "fd list"
  sg_written :: "byte list"
  sg_seen :: "byte list"

text \<open>\<^verbatim>\<open>_ssock_set\<close> spawns the task, and answers \<^verbatim>\<open>Ok\<close> before anything is done.\<close>

definition t_ssock_set :: "nat option \<Rightarrow> fd \<Rightarrow> TEventLoop \<Rightarrow> (unit pyresult \<times> sigtask) outcome" where
  "t_ssock_set lock fd_w w =
     and_then (get_runtime lock) (\<lambda>_.
       Ret (Inr (), \<lparr>sg_loop = w, sg_phase = SigSpawned, sg_open = [], sg_pending = [], sg_writers = [fd_w],
                     sg_written = [], sg_seen = []\<rparr>))"

text \<open>
  The start of the task. \<open>dup_r\<close> and \<open>dup_w\<close> are the answers of the two \<^verbatim>\<open>dup\<close> calls, both made
  first; \<open>conv_r\<close> and \<open>conv_w\<close> those of \<^verbatim>\<open>UnixStream::from_std\<close>. A stream closes its descriptor when
  it is dropped. The result is the phase and what stays open.
\<close>

definition ssock_setup :: "fd option \<Rightarrow> fd option \<Rightarrow> bool \<Rightarrow> bool \<Rightarrow> string \<Rightarrow> sig_phase \<times> fd list" where
  "ssock_setup dup_r dup_w conv_r conv_w e =
     (case dup_r of
        None \<Rightarrow>
          (SigDone (Inl (RuntimeError (''Failed to duplicate signal socket RX file descriptor: '' @ e))),
           case dup_w of None \<Rightarrow> [] | Some fd_w_dup \<Rightarrow> [fd_w_dup])
      | Some fd_r_dup \<Rightarrow>
          (case dup_w of
             None \<Rightarrow>
               (SigDone (Inl (RuntimeError (''Failed to duplicate signal socket TX file descriptor: '' @ e))),
                removeAll fd_r_dup [fd_r_dup])
           | Some fd_w_dup \<Rightarrow>
               if \<not> conv_r then
                 (SigDone (Inl (RuntimeError (''Failed to convert signal socket RX to tokio: '' @ e))), [])
               else if \<not> conv_w then
                 (SigDone (Inl (RuntimeError (''Failed to convert signal socket TX to tokio: '' @ e))), [])
               else (SigReading fd_r_dup fd_w_dup, [fd_r_dup, fd_w_dup])))"

definition ssock_start :: "fd option \<Rightarrow> fd option \<Rightarrow> bool \<Rightarrow> bool \<Rightarrow> string \<Rightarrow> sigtask \<Rightarrow> sigtask" where
  "ssock_start dup_r dup_w conv_r conv_w e s =
     (case ssock_setup dup_r dup_w conv_r conv_w e of (phase, opened) \<Rightarrow>
      s\<lparr>sg_phase := phase, sg_open := opened,
        sg_writers := sg_writers s @ filter (\<lambda>f. dup_w = Some f) opened,
        sg_loop := (case phase of SigReading r w \<Rightarrow> t_ssock_started (sg_loop s) | _ \<Rightarrow> sg_loop s)\<rparr>)"

text \<open>
  One turn of the reading loop, from the readiness of the socket to the last byte sent over the
  channel, as one step: the bytes that a turn has read and not yet sent are counted with the channel.
  A task that ends drops both streams.
\<close>

definition ssock_turn :: "sigread \<Rightarrow> sigtask \<Rightarrow> sigtask" where
  "ssock_turn rd s =
     (case sg_phase s of
        SigReading r w \<Rightarrow>
          (case t_ssock_read rd (sg_loop s) of (goes_on, l) \<Rightarrow>
           let s1 = s\<lparr>sg_loop := l,
                      sg_pending := drop (length (t_signals l) - length (t_signals (sg_loop s))) (sg_pending s)\<rparr>
           in if goes_on then s1
              else s1\<lparr>sg_phase := SigDone (Inr ()), sg_open := [], sg_writers := removeAll w (sg_writers s1)\<rparr>)
      | _ \<Rightarrow> s)"

text \<open>
  What the socket can answer: the bytes that are there, at most the 1024 of the buffer; the end
  of the stream only when nothing is left and no descriptor of the write end is open; nothing
  to read only when nothing is there.
\<close>

definition sig_answer :: "sigtask \<Rightarrow> sigread \<Rightarrow> bool" where
  "sig_answer s rd =
     (case rd of
        SigBytes bs critical \<Rightarrow> sg_pending s \<noteq> [] \<and> bs = take 1024 (sg_pending s)
      | SigClosed \<Rightarrow> sg_pending s = [] \<and> sg_writers s = []
      | SigWouldBlock \<Rightarrow> sg_pending s = []
      | _ \<Rightarrow> True)"

fun loop_of :: "tstate \<Rightarrow> TEventLoop" where
  "loop_of (TRunning r) = tloop r"
| "loop_of (TDone w) = w"

text \<open>
  The steps: the start of the task, a turn of its loop, a byte the interpreter writes on a
  signal while Python's descriptor \<open>f\<close> is open, the closing of that descriptor, the signal branch of the
  select loop, and everything else that loop and the users of the loop object do.
\<close>

inductive sig_step :: "fd \<Rightarrow> sigtask \<Rightarrow> sigtask \<Rightarrow> bool" for f where
  sg_start: "sg_phase s = SigSpawned \<Longrightarrow> (\<And>w. dup_w = Some w \<Longrightarrow> f \<in> set (sg_writers s) \<and> w \<noteq> f \<and> dup_r \<noteq> Some w) \<Longrightarrow>
     sig_step f s (ssock_start dup_r dup_w conv_r conv_w e s)"
| sg_turn: "sig_answer s rd \<Longrightarrow> sig_step f s (ssock_turn rd s)"
| sg_write: "f \<in> set (sg_writers s) \<Longrightarrow>
     sig_step f s (s\<lparr>sg_pending := sg_pending s @ [b], sg_written := sg_written s @ [b]\<rparr>)"
| sg_close: "sig_step f s (s\<lparr>sg_writers := removeAll f (sg_writers s)\<rparr>)"
| sg_signal: "sel_signal r = Some (brk, r') \<Longrightarrow> tloop r = sg_loop s \<Longrightarrow>
     sig_step f s (s\<lparr>sg_loop := tloop r', sg_seen := sg_seen s @ [hd (t_signals (tloop r))]\<rparr>)"
| sg_other: "t_step P ambient st st' \<Longrightarrow> loop_of st = sg_loop s \<Longrightarrow> t_signals (loop_of st') = t_signals (loop_of st) \<Longrightarrow>
     sig_step f s (s\<lparr>sg_loop := loop_of st'\<rparr>)"

section \<open>The invariant of the task\<close>

definition sig_inv :: "fd \<Rightarrow> sigtask \<Rightarrow> bool" where
  "sig_inv f s =
     (sg_written s = sg_seen s @ t_signals (sg_loop s) @ sg_pending s
      \<and> (case sg_phase s of
           SigSpawned \<Rightarrow> sg_open s = []
         | SigReading r w \<Rightarrow> sg_open s = [r, w] \<and> w \<noteq> f \<and> w \<in> set (sg_writers s)
         | SigDone res \<Rightarrow> sg_open s = [] \<or> (\<exists>e w. res = Inl (RuntimeError e) \<and> sg_open s = [w] \<and> w \<in> set (sg_writers s) \<and> w \<noteq> f)))"

lemma t_ssock_read_signals:
  "t_ssock_read rd l = (g, l') \<Longrightarrow> \<exists>bs. t_signals l' = t_signals l @ bs \<and> (bs \<noteq> [] \<longrightarrow> (\<exists>c. rd = SigBytes bs c) \<and> g)"
  by (cases rd) (auto simp: t_ssock_read_def split: if_splits)

lemma ssock_turn_inv:
  assumes "sig_inv f s" "sig_answer s rd"
  shows "sig_inv f (ssock_turn rd s)"
proof (cases "sg_phase s")
  case (SigReading r w)
  obtain g l where rd: "t_ssock_read rd (sg_loop s) = (g, l)" by fastforce
  obtain bs where bs: "t_signals l = t_signals (sg_loop s) @ bs" "bs \<noteq> [] \<longrightarrow> (\<exists>c. rd = SigBytes bs c) \<and> g"
    using t_ssock_read_signals [OF rd] by blast
  have "sg_pending s = bs @ drop (length bs) (sg_pending s)"
    using bs(2) assms(2) by (cases "bs = []") (auto simp: sig_answer_def min_def)
  then show ?thesis
    using assms(1) SigReading bs(1) by (auto simp: sig_inv_def ssock_turn_def rd Let_def)
qed (use assms in \<open>simp_all add: ssock_turn_def\<close>)

lemma ssock_start_inv:
  assumes "sig_inv f s" "sg_phase s = SigSpawned" "\<And>w. dup_w = Some w \<Longrightarrow> w \<noteq> f"
  shows "sig_inv f (ssock_start dup_r dup_w conv_r conv_w e s)"
  using assms
  by (cases dup_r; cases dup_w)
     (auto simp: sig_inv_def ssock_start_def ssock_setup_def t_ssock_started_def)

lemma sel_signal_takes:
  "sel_signal r = Some (brk, r') \<Longrightarrow> t_signals (tloop r) = hd (t_signals (tloop r)) # t_signals (tloop r')"
  by (auto simp: sel_signal_def Let_def split: list.splits)

lemma sig_step_inv: "sig_step f s s' \<Longrightarrow> sig_inv f s \<Longrightarrow> sig_inv f s'"
proof (induction rule: sig_step.induct)
  case (sg_signal r brk r' s)
  then show ?case using sel_signal_takes [OF sg_signal(1)] by (auto simp: sig_inv_def split: sig_phase.split)
qed (auto intro: ssock_turn_inv ssock_start_inv, auto simp: sig_inv_def split: sig_phase.splits)

lemma sig_reachable_inv:
  assumes "t_ssock_set lock f l = Ret (r, s0)" "t_signals l = []" "(sig_step f)\<^sup>*\<^sup>* s0 s"
  shows "sig_inv f s"
  using assms(3)
proof induction
  case base
  then show ?case using assms(1,2) by (cases lock) (auto simp: t_ssock_set_def get_runtime_def sig_inv_def)
qed (rule sig_step_inv)

section \<open>The properties\<close>

text \<open>
  C16. Signals on the tokio loop, from a start with an empty channel, with a turn of the signal task
  (reading at most 1024 bytes and sending each over the channel) as one step. However these turns,
  the socket, the select loop and the users of the loop object are interleaved: the bytes written
  into the socket are those the select loop has taken, then those in the channel, then those still
  in the socket, so no signal is lost, doubled or reordered. A reading task has exactly its two copies open; because one of them is a copy of
  the write end, it can never read the end of the stream, also when Python has closed the socket, so
  after \<^verbatim>\<open>_ssock_del\<close> it ends at its next readable event and not before. A task that ended without
  an error has closed its descriptors.
\<close>

theorem signal_task_correct:
  assumes "t_ssock_set lock f l = Ret (res, s0)" "t_signals l = []" "(sig_step f)\<^sup>*\<^sup>* s0 s"
  shows "sg_written s = sg_seen s @ t_signals (sg_loop s) @ sg_pending s
     \<and> (\<forall>r w. sg_phase s = SigReading r w \<longrightarrow>
           sg_open s = [r, w] \<and> \<not> sig_answer s SigClosed
           \<and> (t_sig_listening (sg_loop s) \<longrightarrow> (\<forall>rd. sig_answer s rd \<longrightarrow> sg_phase (ssock_turn rd s) = SigReading r w))
           \<and> (\<not> t_sig_listening (sg_loop s) \<longrightarrow> (\<forall>rd. rd \<noteq> SigNotReady \<longrightarrow>
                 sg_phase (ssock_turn rd s) = SigDone (Inr ()) \<and> sg_open (ssock_turn rd s) = []
                 \<and> sg_pending (ssock_turn rd s) = sg_pending s)))
     \<and> (sg_phase s = SigDone (Inr ()) \<longrightarrow> sg_open s = [])"
proof -
  have inv: "sig_inv f s" using assms by (rule sig_reachable_inv)
  have turn: "sg_phase (ssock_turn rd s) = SigReading r w"
    if "sg_phase s = SigReading r w" "t_sig_listening (sg_loop s)" "rd \<noteq> SigClosed" for r w rd
    using that by (cases rd) (simp_all add: ssock_turn_def t_ssock_read_def Let_def)
  have off: "sg_phase (ssock_turn rd s) = SigDone (Inr ()) \<and> sg_open (ssock_turn rd s) = []
       \<and> sg_pending (ssock_turn rd s) = sg_pending s"
    if "sg_phase s = SigReading r w" "\<not> t_sig_listening (sg_loop s)" "rd \<noteq> SigNotReady" for r w rd
    using that by (simp add: ssock_turn_def t_ssock_read_def Let_def)
  have eof: "\<not> sig_answer s SigClosed" if "sg_phase s = SigReading r w" for r w
    using inv that by (auto simp: sig_inv_def sig_answer_def)
  have stays: "sg_phase (ssock_turn rd s) = SigReading r w"
    if "sg_phase s = SigReading r w" "t_sig_listening (sg_loop s)" "sig_answer s rd" for r w rd
    using turn [OF that(1,2)] eof [OF that(1)] that(3) by (cases "rd = SigClosed") simp_all
  have "sg_written s = sg_seen s @ t_signals (sg_loop s) @ sg_pending s"
    "\<And>r w. sg_phase s = SigReading r w \<Longrightarrow> sg_open s = [r, w]" "sg_phase s = SigDone (Inr ()) \<Longrightarrow> sg_open s = []"
    using inv by (simp_all add: sig_inv_def)
  then show ?thesis by (intro conjI allI impI) (simp_all add: stays off eof)
qed

theorem signal_task_correct_witness:
  "let s0 = \<lparr>sg_loop = TEventLoop_new 0 0, sg_phase = SigSpawned, sg_open = [], sg_pending = [], sg_writers = [8],
             sg_written = [], sg_seen = []\<rparr>;
       s = (ssock_start (Some 10) (Some 11) True True [] s0)\<lparr>sg_writers := [11]\<rparr>
   in t_ssock_set (Some 1) 8 (TEventLoop_new 0 0) = Ret (Inr (), s0)
      \<and> sg_phase s = SigReading 10 11 \<and> sg_open s = [10, 11] \<and> \<not> sig_answer s SigClosed"
proof -
  let ?i = "\<lparr>sg_loop = TEventLoop_new 0 0, sg_phase = SigSpawned, sg_open = [], sg_pending = [], sg_writers = [8],
             sg_written = [], sg_seen = []\<rparr>"
  let ?s1 = "ssock_start (Some 10) (Some 11) True True [] ?i"
  let ?s = "?s1\<lparr>sg_writers := removeAll 8 (sg_writers ?s1)\<rparr>"
  have set: "t_ssock_set (Some 1) 8 (TEventLoop_new 0 0) = Ret (Inr (), ?i)"
    by (simp add: t_ssock_set_def get_runtime_def)
  have sig: "t_signals (TEventLoop_new 0 0) = []" by (simp add: TEventLoop_new_def)
  have "sig_step 8 ?i ?s1" by (rule sg_start) simp_all
  moreover have "sig_step 8 ?s1 ?s" by (rule sg_close)
  ultimately have "(sig_step 8)\<^sup>*\<^sup>* ?i ?s" by (meson r_into_rtranclp rtranclp_trans)
  note s = signal_task_correct [OF set sig this]
  have "?s = ?s1\<lparr>sg_writers := [11]\<rparr>" "sg_phase ?s = SigReading 10 11"
    by (simp_all add: ssock_start_def ssock_setup_def)
  then show ?thesis using s set unfolding Let_def by metis
qed

text \<open>
  How the start of the signal task fails. The call of \<^verbatim>\<open>_ssock_set\<close> has answered \<^verbatim>\<open>Ok\<close> by then. The
  task reads only if both descriptors could be duplicated and both streams converted; otherwise it ends
  with an error nobody sees and the loop never listens to signals. Its copies are closed, except that
  when only the read end cannot be duplicated the copy of the write end stays open for ever.
\<close>

theorem signal_setup_outcomes:
  "let s0 = \<lparr>sg_loop = l, sg_phase = SigSpawned, sg_open = [], sg_pending = [], sg_writers = [f],
             sg_written = [], sg_seen = []\<rparr>;
       s = ssock_start dup_r dup_w conv_r conv_w e s0
   in t_ssock_set (Some rt) f l = Ret (Inr (), s0) \<and> t_ssock_set None f l = Panic UnwrapNone
      \<and> ((\<exists>r w. dup_r = Some r \<and> dup_w = Some w \<and> conv_r \<and> conv_w \<and> sg_phase s = SigReading r w
             \<and> sg_open s = [r, w] \<and> t_sig_listening (sg_loop s))
         \<or> (\<exists>msg. sg_phase s = SigDone (Inl (RuntimeError msg)) \<and> sg_loop s = l
             \<and> sg_open s = (if dup_r = None then (case dup_w of None \<Rightarrow> [] | Some w \<Rightarrow> [w]) else [])))"
  by (cases dup_r; cases dup_w)
     (auto simp: Let_def t_ssock_set_def get_runtime_def ssock_start_def ssock_setup_def t_ssock_started_def)

end
