(* ===== verification/Tokio_Tcp.thy ===== *)
theory Tokio_Tcp
  imports Tokio_Loop "HOL-Library.Sublist"
begin

text \<open>
  The TCP transport of the second loop (\<^verbatim>\<open>tokio_tcp.rs\<close>). The methods Python calls are functions
  on the transport, for a call nothing interrupts. A method is more than one access to the shared
  state, though: it checks or exchanges an atomic flag, and only then takes the lock. The module
  declares that it does not need the interpreter lock, so other threads may run in between;
  \<open>k_enter\<close> and \<open>k_continue\<close> are the single accesses, and the calls under way are part of the state.
  The task that moves the bytes, \<^verbatim>\<open>io_processing_loop\<close>, is a step relation with a program counter,
  which interleaves with these accesses between any two of its critical sections, and whose select
  may drop a write half way. The transport carries a history of what was accepted, sent, lost and
  called, which nothing reads. Atomic accesses are taken to be sequentially consistent.
\<close>

section \<open>State\<close>

datatype kevent =
    KWritten bytes
  | KCleared bytes
  | KSent bytes
  | KLost bytes
  | KWeof
  | KShutdown
  | KPy pycall

text \<open>
  \<open>k_stream\<close> and \<open>k_io_task\<close> say whether the two options are set; the addresses are the strings
  \<^verbatim>\<open>SocketAddr\<close> prints. The fields \<open>a_closing\<close>, \<open>a_paused\<close> and \<open>a_weof\<close> are the atomic flags
  beside the state under the lock. \<^verbatim>\<open>read_buf\<close> is never used.

  \<open>k_pending\<close> holds, for every call of a method under way in some thread, what it has still to do:
  \<open>KcWrite\<close> to push the bytes it extracts (or to return the error of the extraction);
  \<open>KcWriteEof\<close>, \<open>KcPauseReading\<close> and \<open>KcResumeReading\<close>, past the check of \<^verbatim>\<open>closing\<close>, to exchange
  their flag; \<open>KcWeof\<close>, \<open>KcPaused\<close>, \<open>KcResumed\<close>, \<open>KcClosing\<close> and \<open>KcAborting\<close>, having won the
  exchange, to write the state under the lock.
\<close>

datatype kcall =
    KcWrite "bytes pyresult"
  | KcWriteEof
  | KcWeof
  | KcPauseReading
  | KcPaused
  | KcResumeReading
  | KcResumed
  | KcClosing
  | KcAborting

record TokioTCPTransportState =
  k_stream :: bool
  k_write_buf :: "bytes list"
  k_closing :: bool
  k_weof :: bool
  k_read_eof :: bool
  k_write_shutdown_done :: bool
  k_paused :: bool
  k_io_task :: bool
  k_local_addr :: "string option"
  k_peer_addr :: "string option"

record TokioTCPTransport =
  k_fd :: nat
  k_state :: TokioTCPTransportState
  k_protocol :: pyobj
  k_extra :: "string \<rightharpoonup> pyobj"
  a_closing :: bool
  a_paused :: bool
  a_weof :: bool
  k_trace :: "kevent list"
  k_pending :: "kcall list"

definition k_emit :: "kevent \<Rightarrow> TokioTCPTransport \<Rightarrow> TokioTCPTransport" where
  "k_emit e t = t\<lparr>k_trace := k_trace t @ [e]\<rparr>"

definition k_upd ::
  "(TokioTCPTransportState \<Rightarrow> TokioTCPTransportState) \<Rightarrow> TokioTCPTransport \<Rightarrow> TokioTCPTransport" where
  "k_upd f t = t\<lparr>k_state := f (k_state t)\<rparr>"

text \<open>
  The transport both \<^verbatim>\<open>from_py\<close> and \<^verbatim>\<open>create_transport_from_stream\<close> build, from the descriptor,
  the protocol the factory made and the Python socket object.
\<close>

definition TokioTCPTransport_new ::
  "nat \<Rightarrow> string option \<Rightarrow> string option \<Rightarrow> pyobj \<Rightarrow> pyobj \<Rightarrow> TokioTCPTransport" where
  "TokioTCPTransport_new fd local peer protocol py_socket =
     \<lparr>k_fd = fd,
      k_state = \<lparr>k_stream = True, k_write_buf = [], k_closing = False, k_weof = False,
                 k_read_eof = False, k_write_shutdown_done = False, k_paused = False,
                 k_io_task = False, k_local_addr = local, k_peer_addr = peer\<rparr>,
      k_protocol = protocol, k_extra = [''socket'' \<mapsto> py_socket],
      a_closing = False, a_paused = False, a_weof = False, k_trace = [], k_pending = []\<rparr>"

section \<open>Methods\<close>

text \<open>The methods, each as one uninterrupted call.\<close>

text \<open>\<^verbatim>\<open>data\<close> is the bytes extracted from the argument, or the error of the extraction.\<close>

definition k_write :: "bytes pyresult \<Rightarrow> TokioTCPTransport \<Rightarrow> unit pyresult \<times> TokioTCPTransport" where
  "k_write data t =
     (if a_weof t then (Inl (RuntimeError ''Cannot write after EOF''), t)
      else (case data of
              Inl e \<Rightarrow> (Inl e, t)
            | Inr bs \<Rightarrow>
                (Inr (), k_emit (KWritten bs)
                   (k_upd (\<lambda>s. s\<lparr>k_write_buf := k_write_buf s @ [bs]\<rparr>) t))))"

fun k_write_each ::
  "bytes pyresult list \<Rightarrow> TokioTCPTransport \<Rightarrow> unit pyresult \<times> TokioTCPTransport" where
  "k_write_each [] t = (Inr (), t)"
| "k_write_each (d # ds) t =
     (case k_write d t of
        (Inl e, t1) \<Rightarrow> (Inl e, t1)
      | (Inr _, t1) \<Rightarrow> k_write_each ds t1)"

definition k_writelines ::
  "bytes pyresult list pyresult \<Rightarrow> TokioTCPTransport \<Rightarrow> unit pyresult \<times> TokioTCPTransport" where
  "k_writelines items t = (case items of Inl e \<Rightarrow> (Inl e, t) | Inr ds \<Rightarrow> k_write_each ds t)"

definition k_write_eof :: "TokioTCPTransport \<Rightarrow> TokioTCPTransport" where
  "k_write_eof t =
     (if a_closing t then t
      else if \<not> a_weof t then
        k_emit KWeof (k_upd (\<lambda>s. s\<lparr>k_weof := True\<rparr>) (t\<lparr>a_weof := True\<rparr>))
      else t)"

definition k_can_write_eof :: "TokioTCPTransport \<Rightarrow> bool" where
  "k_can_write_eof t = (\<not> a_weof t)"

definition k_pause_reading :: "TokioTCPTransport \<Rightarrow> TokioTCPTransport" where
  "k_pause_reading t =
     (if a_closing t then t
      else if \<not> a_paused t then k_upd (\<lambda>s. s\<lparr>k_paused := True\<rparr>) (t\<lparr>a_paused := True\<rparr>)
      else t)"

definition k_resume_reading :: "TokioTCPTransport \<Rightarrow> TokioTCPTransport" where
  "k_resume_reading t =
     (if a_closing t then t
      else if a_paused t then k_upd (\<lambda>s. s\<lparr>k_paused := False\<rparr>) (t\<lparr>a_paused := False\<rparr>)
      else t)"

definition k_close :: "TokioTCPTransport \<Rightarrow> TokioTCPTransport" where
  "k_close t =
     (if a_closing t then t else k_upd (\<lambda>s. s\<lparr>k_closing := True\<rparr>) (t\<lparr>a_closing := True\<rparr>))"

definition k_abort :: "TokioTCPTransport \<Rightarrow> TokioTCPTransport" where
  "k_abort t =
     (if a_closing t then t
      else k_upd (\<lambda>s. s\<lparr>k_closing := True, k_write_buf := []\<rparr>)
             (k_emit (KCleared (concat (k_write_buf (k_state t)))) (t\<lparr>a_closing := True\<rparr>)))"

definition k_is_reading :: "TokioTCPTransport \<Rightarrow> bool" where
  "k_is_reading t = (\<not> a_closing t \<and> \<not> a_paused t)"

definition k_is_closing :: "TokioTCPTransport \<Rightarrow> bool" where
  "k_is_closing t = a_closing t"

section \<open>The accesses a method consists of\<close>

text \<open>
  The first access of a method, a check or an exchange of an atomic flag, which either ends the
  call or leaves it under way.
\<close>

datatype kmethod =
    MWrite "bytes pyresult"
  | MWriteEof
  | MPauseReading
  | MResumeReading
  | MClose
  | MAbort

definition k_pend :: "kcall \<Rightarrow> TokioTCPTransport \<Rightarrow> TokioTCPTransport" where
  "k_pend c t = t\<lparr>k_pending := c # k_pending t\<rparr>"

fun k_enter :: "kmethod \<Rightarrow> TokioTCPTransport \<Rightarrow> TokioTCPTransport" where
  "k_enter (MWrite data) t = (if a_weof t then t else k_pend (KcWrite data) t)"
| "k_enter MWriteEof t = (if a_closing t then t else k_pend KcWriteEof t)"
| "k_enter MPauseReading t = (if a_closing t then t else k_pend KcPauseReading t)"
| "k_enter MResumeReading t = (if a_closing t then t else k_pend KcResumeReading t)"
| "k_enter MClose t = (if a_closing t then t else k_pend KcClosing (t\<lparr>a_closing := True\<rparr>))"
| "k_enter MAbort t = (if a_closing t then t else k_pend KcAborting (t\<lparr>a_closing := True\<rparr>))"

text \<open>The next access of a call under way, which is no longer among the pending ones.\<close>

fun k_continue :: "kcall \<Rightarrow> TokioTCPTransport \<Rightarrow> TokioTCPTransport" where
  "k_continue (KcWrite data) t =
     (case data of
        Inl e \<Rightarrow> t
      | Inr bs \<Rightarrow> k_emit (KWritten bs) (k_upd (\<lambda>s. s\<lparr>k_write_buf := k_write_buf s @ [bs]\<rparr>) t))"
| "k_continue KcWriteEof t = (if \<not> a_weof t then k_pend KcWeof (t\<lparr>a_weof := True\<rparr>) else t)"
| "k_continue KcWeof t = k_emit KWeof (k_upd (\<lambda>s. s\<lparr>k_weof := True\<rparr>) t)"
| "k_continue KcPauseReading t = (if \<not> a_paused t then k_pend KcPaused (t\<lparr>a_paused := True\<rparr>) else t)"
| "k_continue KcPaused t = k_upd (\<lambda>s. s\<lparr>k_paused := True\<rparr>) t"
| "k_continue KcResumeReading t = (if a_paused t then k_pend KcResumed (t\<lparr>a_paused := False\<rparr>) else t)"
| "k_continue KcResumed t = k_upd (\<lambda>s. s\<lparr>k_paused := False\<rparr>) t"
| "k_continue KcClosing t = k_upd (\<lambda>s. s\<lparr>k_closing := True\<rparr>) t"
| "k_continue KcAborting t =
     k_upd (\<lambda>s. s\<lparr>k_closing := True, k_write_buf := []\<rparr>)
       (k_emit (KCleared (concat (k_write_buf (k_state t)))) t)"

definition k_unpend :: "kcall \<Rightarrow> TokioTCPTransport \<Rightarrow> TokioTCPTransport" where
  "k_unpend c t = t\<lparr>k_pending := remove1 c (k_pending t)\<rparr>"

text \<open>One access by a thread that calls a method; several calls may be under way at once.\<close>

inductive k_api :: "TokioTCPTransport \<Rightarrow> TokioTCPTransport \<Rightarrow> bool" where
  k_api_enter: "k_api t (k_enter m t)"
| k_api_continue: "c \<in> set (k_pending t) \<Longrightarrow> k_api t (k_continue c (k_unpend c t))"

lemmas k_access_defs = k_pend_def k_unpend_def k_upd_def k_emit_def

lemmas k_method_defs = k_write_def k_write_eof_def k_pause_reading_def k_resume_reading_def
  k_close_def k_abort_def k_upd_def k_emit_def

lemma k_unpend_pend [simp]: "k_unpend c (k_pend c t) = t"
  by (simp add: k_access_defs)

lemma k_api_go: "k_api\<^sup>*\<^sup>* t (k_pend c u) \<Longrightarrow> k_api\<^sup>*\<^sup>* t (k_continue c u)"
  using k_api_continue [of c "k_pend c u"]
  by (auto simp: k_pend_def intro: rtranclp.rtrancl_into_rtrancl) (simp add: k_access_defs)

lemma k_api_in: "k_api\<^sup>*\<^sup>* t (k_enter m t)"
  by (rule r_into_rtranclp) (rule k_api_enter)

text \<open>A call nothing interrupts is its accesses one after the other.\<close>

lemma k_api_write: "k_api\<^sup>*\<^sup>* t (snd (k_write data t))"
  using k_api_in [of t "MWrite data"] k_api_go [of t "KcWrite data" t]
  by (auto simp: k_write_def split: sum.splits)

lemma k_api_write_eof: "k_api\<^sup>*\<^sup>* t (k_write_eof t)"
  using k_api_in [of t MWriteEof] k_api_go [of t KcWriteEof t]
    k_api_go [of t KcWeof "t\<lparr>a_weof := True\<rparr>"] by (auto simp: k_write_eof_def)

lemma k_api_pause: "k_api\<^sup>*\<^sup>* t (k_pause_reading t)"
  using k_api_in [of t MPauseReading] k_api_go [of t KcPauseReading t]
    k_api_go [of t KcPaused "t\<lparr>a_paused := True\<rparr>"] by (auto simp: k_pause_reading_def)

lemma k_api_resume: "k_api\<^sup>*\<^sup>* t (k_resume_reading t)"
  using k_api_in [of t MResumeReading] k_api_go [of t KcResumeReading t]
    k_api_go [of t KcResumed "t\<lparr>a_paused := False\<rparr>"] by (auto simp: k_resume_reading_def)

lemma k_api_close: "k_api\<^sup>*\<^sup>* t (k_close t)"
  using k_api_in [of t MClose] k_api_go [of t KcClosing "t\<lparr>a_closing := True\<rparr>"]
  by (auto simp: k_close_def)

lemma k_api_abort: "k_api\<^sup>*\<^sup>* t (k_abort t)"
  using k_api_in [of t MAbort] k_api_go [of t KcAborting "t\<lparr>a_closing := True\<rparr>"]
  by (auto simp: k_abort_def)

lemma k_api_writelines: "k_api\<^sup>*\<^sup>* t (snd (k_writelines items t))"
proof -
  have "k_api\<^sup>*\<^sup>* t (snd (k_write_each ds t))" for ds
  proof (induction ds arbitrary: t)
    case (Cons d ds)
    show ?case using k_api_write [of t d] Cons [of "snd (k_write d t)"]
      by (cases "k_write d t"; cases "fst (k_write d t)") auto
  qed simp
  then show ?thesis by (auto simp: k_writelines_def split: sum.splits)
qed

section \<open>The I/O task\<close>

text \<open>
  Python code is a parameter, which may call the methods of the transport. \<open>KGuard\<close> and
  \<open>KSelect\<close> carry the copy of \<^verbatim>\<open>read_eof\<close> taken at the top of the loop, \<open>KSelect\<close> also the value
  of the write branch's precondition; \<open>KWriting\<close> the chunk being written with the number of bytes
  the kernel has taken, and whether the branch will shut the sending side down.
\<close>

type_synonym kpy = "pycall \<Rightarrow> TokioTCPTransport \<Rightarrow> pyres \<times> TokioTCPTransport"

definition k_py_uses_api :: "kpy \<Rightarrow> bool" where
  "k_py_uses_api P = (\<forall>c t. k_api\<^sup>*\<^sup>* t (snd (P c t)))"

definition k_call :: "kpy \<Rightarrow> pycall \<Rightarrow> TokioTCPTransport \<Rightarrow> TokioTCPTransport" where
  "k_call P c t = snd (P c (k_emit (KPy c) t))"

datatype kpc =
    KStart
  | KTop
  | KGuard bool
  | KSelect bool bool
  | KWriting bool "bytes option" nat bool
  | KCheck
  | KExit
  | KGone

datatype kread = KData bytes | KEof | KReadWouldBlock | KReadErr

text \<open>The top of the loop: leave, wait while paused, or go on to the select.\<close>

definition k_top :: "TokioTCPTransport \<Rightarrow> kpc" where
  "k_top t = (if k_closing (k_state t) then KExit else if k_paused (k_state t) then KTop
              else KGuard (k_read_eof (k_state t)))"

text \<open>The body of the read branch.\<close>

fun k_on_read :: "kpy \<Rightarrow> kread \<Rightarrow> TokioTCPTransport \<Rightarrow> kpc \<times> TokioTCPTransport" where
  "k_on_read P KEof t =
     (KCheck, k_call P (EofReceived (k_protocol t)) (k_upd (\<lambda>s. s\<lparr>k_read_eof := True\<rparr>) t))"
| "k_on_read P (KData data) t = (KCheck, k_call P (DataReceived (k_protocol t) data) t)"
| "k_on_read P KReadWouldBlock t = (KCheck, t)"
| "k_on_read P KReadErr t = (KExit, t)"

definition k_read_ok :: "kread \<Rightarrow> bool" where
  "k_read_ok r = (case r of KData d \<Rightarrow> d \<noteq> [] \<and> length d \<le> 8192 | _ \<Rightarrow> True)"

text \<open>The precondition of the write branch, and the critical section it starts with.\<close>

definition k_wants_write :: "TokioTCPTransport \<Rightarrow> bool" where
  "k_wants_write t =
     (let s = k_state t in k_write_buf s \<noteq> [] \<or> (k_weof s \<and> \<not> k_write_shutdown_done s))"

definition k_pop_write :: "TokioTCPTransport \<Rightarrow> bytes option \<times> bool \<times> TokioTCPTransport" where
  "k_pop_write t =
     (let s = k_state t;
          (data, buf) = (case k_write_buf s of [] \<Rightarrow> (None, []) | d # r \<Rightarrow> (Some d, r))
      in (data, k_weof s \<and> buf = [] \<and> \<not> k_write_shutdown_done s,
          k_upd (\<lambda>s. s\<lparr>k_write_buf := buf\<rparr>) t))"

definition k_should_exit :: "TokioTCPTransport \<Rightarrow> bool" where
  "k_should_exit t =
     (let s = k_state t in
      (k_read_eof s \<and> k_write_buf s = [])
      \<or> (k_read_eof s \<and> k_write_shutdown_done s \<and> k_write_buf s = []))"

definition call_connection_lost :: "kpy \<Rightarrow> pyerr option \<Rightarrow> TokioTCPTransport \<Rightarrow> TokioTCPTransport" where
  "call_connection_lost P err t = k_call P (ConnectionLost (k_protocol t) err) t"

text \<open>
  One step of the task, or one access of a thread that calls a method. The write branch hands bytes to the
  kernel as it takes them; it ends when the chunk is written, when the kernel reports an error
  (which is only logged), or when another branch of the select is ready first while the write is
  pending: the one-millisecond sleep or the read. Then the future of the write branch is dropped
  with the rest of the chunk, which has already left the buffer.
\<close>

inductive k_step :: "kpy \<Rightarrow> kpc \<times> TokioTCPTransport \<Rightarrow> kpc \<times> TokioTCPTransport \<Rightarrow> bool" for P where
  k_start: "k_stream (k_state t) \<Longrightarrow>
     k_step P (KStart, t) (KTop, k_upd (\<lambda>s. s\<lparr>k_stream := False\<rparr>) t)"
| k_no_stream: "\<not> k_stream (k_state t) \<Longrightarrow> k_step P (KStart, t) (KGone, t)"
| k_at_top: "k_step P (KTop, t) (k_top t, t)"
| k_at_guard: "k_step P (KGuard re, t) (KSelect re (k_wants_write t), t)"
| k_sel_read: "\<not> re \<Longrightarrow> k_read_ok r \<Longrightarrow> k_step P (KSelect re wg, t) (k_on_read P r t)"
| k_sel_write: "k_pop_write t = (data, sd, t') \<Longrightarrow>
     k_step P (KSelect re True, t) (KWriting re data 0 sd, t')"
| k_sel_sleep: "k_step P (KSelect re wg, t) (KCheck, t)"
| k_progress: "k < k' \<Longrightarrow> k' \<le> length d \<Longrightarrow>
     k_step P (KWriting re (Some d) k sd, t)
       (KWriting re (Some d) k' sd, k_emit (KSent (take (k' - k) (drop k d))) t)"
| k_written: "k_step P (KWriting re (Some d) (length d) sd, t) (KWriting re None 0 sd, t)"
| k_write_error: "k_step P (KWriting re (Some d) k sd, t)
     (KWriting re None 0 sd, k_emit (KLost (drop k d)) t)"
| k_cancel_sleep: "k < length d \<Longrightarrow>
     k_step P (KWriting re (Some d) k sd, t) (KCheck, k_emit (KLost (drop k d)) t)"
| k_cancel_read: "k < length d \<Longrightarrow> \<not> re \<Longrightarrow> k_read_ok r \<Longrightarrow>
     k_step P (KWriting re (Some d) k sd, t) (k_on_read P r (k_emit (KLost (drop k d)) t))"
| k_no_shutdown: "k_step P (KWriting re None k False, t) (KCheck, t)"
| k_shutdown: "k_step P (KWriting re None k True, t)
     (KCheck, k_emit KShutdown (k_upd (\<lambda>s. s\<lparr>k_write_shutdown_done := True\<rparr>) t))"
| k_at_check: "k_step P (KCheck, t) (if k_should_exit t then KExit else KTop, t)"
| k_at_exit: "k_step P (KExit, t) (KGone, call_connection_lost P None t)"
| k_method: "k_api t t' \<Longrightarrow> k_step P (pc, t) (pc, t')"
| k_made: "\<forall>p n. KPy (ConnectionMade p n) \<notin> set (k_trace t) \<Longrightarrow>
     k_step P (pc, t) (pc, k_call P (ConnectionMade (k_protocol t) (k_fd t)) t)"

lemma k_methods: "k_api\<^sup>*\<^sup>* t t' \<Longrightarrow> (k_step P)\<^sup>*\<^sup>* (pc, t) (pc, t')"
  by (induction rule: rtranclp_induct) (auto intro: rtranclp.rtrancl_into_rtrancl k_method)

text \<open>
  \<^verbatim>\<open>attach\<close>: the task is spawned first, which gives this state; then the attaching thread calls
  \<^verbatim>\<open>connection_made\<close>, once (\<open>k_made\<close>), while the task is already running.
\<close>

definition k_start_io_task :: "TokioTCPTransport \<Rightarrow> kpc \<times> TokioTCPTransport" where
  "k_start_io_task t = (KStart, k_upd (\<lambda>s. s\<lparr>k_io_task := True\<rparr>) t)"

section \<open>Reading the history\<close>

text \<open>Bytes that left the buffer through the task, in order: taken by the kernel, or lost.\<close>

definition flow :: "kevent list \<Rightarrow> bytes" where
  "flow tr = concat (map (\<lambda>e. case e of KSent b \<Rightarrow> b | KLost b \<Rightarrow> b | _ \<Rightarrow> []) tr)"

definition k_sent :: "kevent list \<Rightarrow> bytes" where
  "k_sent tr = concat (map (\<lambda>e. case e of KSent b \<Rightarrow> b | _ \<Rightarrow> []) tr)"

definition k_lost :: "kevent list \<Rightarrow> bytes" where
  "k_lost tr = concat (map (\<lambda>e. case e of KLost b \<Rightarrow> b | _ \<Rightarrow> []) tr)"

text \<open>Bytes accepted by \<^verbatim>\<open>write\<close>, less those \<^verbatim>\<open>abort\<close> has thrown away from the end.\<close>

fun accept_event :: "kevent \<Rightarrow> bytes \<Rightarrow> bytes" where
  "accept_event (KWritten b) acc = acc @ b"
| "accept_event (KCleared b) acc = take (length acc - length b) acc"
| "accept_event _ acc = acc"

definition accepted :: "kevent list \<Rightarrow> bytes" where
  "accepted tr = fold accept_event tr []"

text \<open>
  Bytes pushed after \<^verbatim>\<open>weof\<close> was set under the lock, by calls of \<^verbatim>\<open>write\<close> that had passed their
  check before, again less those thrown away from the end.
\<close>

fun late_event :: "kevent \<Rightarrow> bool \<times> bytes \<Rightarrow> bool \<times> bytes" where
  "late_event KWeof (eof, l) = (True, l)"
| "late_event (KWritten b) (eof, l) = (eof, if eof then l @ b else l)"
| "late_event (KCleared b) (eof, l) = (eof, take (length l - length b) l)"
| "late_event _ el = el"

definition weof_late :: "kevent list \<Rightarrow> bool \<times> bytes" where
  "weof_late tr = fold late_event tr (False, [])"

definition late :: "kevent list \<Rightarrow> bytes" where
  "late tr = snd (weof_late tr)"

definition k_calls :: "kevent list \<Rightarrow> pycall list" where
  "k_calls tr = concat (map (\<lambda>e. case e of KPy (ConnectionMade _ _) \<Rightarrow> [] | KPy c \<Rightarrow> [c] | _ \<Rightarrow> []) tr)"

definition shutdowns :: "kevent list \<Rightarrow> nat" where
  "shutdowns tr = length (filter (\<lambda>e. e = KShutdown) tr)"

lemma k_history_append [simp]:
  "flow (tr @ [e]) = flow tr @ (case e of KSent b \<Rightarrow> b | KLost b \<Rightarrow> b | _ \<Rightarrow> [])"
  "k_sent (tr @ [e]) = k_sent tr @ (case e of KSent b \<Rightarrow> b | _ \<Rightarrow> [])"
  "k_lost (tr @ [e]) = k_lost tr @ (case e of KLost b \<Rightarrow> b | _ \<Rightarrow> [])"
  "accepted (tr @ [e]) = accept_event e (accepted tr)"
  "k_calls (tr @ [e]) = k_calls tr @ (case e of KPy (ConnectionMade _ _) \<Rightarrow> [] | KPy c \<Rightarrow> [c] | _ \<Rightarrow> [])"
  "shutdowns (tr @ [e]) = shutdowns tr + (if e = KShutdown then 1 else 0)"
  "weof_late (tr @ [e]) = late_event e (weof_late tr)"
  by (simp_all add: flow_def k_sent_def k_lost_def accepted_def k_calls_def shutdowns_def weof_late_def)

lemma k_history_Nil [simp]:
  "flow [] = []" "k_sent [] = []" "k_lost [] = []" "accepted [] = []" "k_calls [] = []" "shutdowns [] = 0"
  "weof_late [] = (False, [])"
  by (simp_all add: flow_def k_sent_def k_lost_def accepted_def k_calls_def shutdowns_def weof_late_def)

lemma late_event_other [simp]:
  "\<forall>b. e \<noteq> KWritten b \<and> e \<noteq> KCleared b \<and> e \<noteq> KWeof \<Longrightarrow> late_event e el = el"
  by (cases el; cases e) auto

lemma late_snoc_other [simp]:
  "\<forall>b. e \<noteq> KWritten b \<and> e \<noteq> KCleared b \<and> e \<noteq> KWeof \<Longrightarrow> late (tr @ [e]) = late tr"
  by (simp add: late_def)

lemma flow_lossless: "k_lost tr = [] \<Longrightarrow> flow tr = k_sent tr"
  by (induction tr rule: rev_induct) (auto split: kevent.splits)

section \<open>Invariant\<close>

fun inflight :: "kpc \<Rightarrow> bytes" where
  "inflight (KWriting re (Some d) k sd) = drop k d"
| "inflight _ = []"

fun will_shutdown :: "kpc \<Rightarrow> bool" where
  "will_shutdown (KWriting re d k sd) = sd"
| "will_shutdown _ = False"

fun eof_copy :: "kpc \<Rightarrow> bool option" where
  "eof_copy (KGuard re) = Some re"
| "eof_copy (KSelect re wg) = Some re"
| "eof_copy (KWriting re d k sd) = Some re"
| "eof_copy _ = None"

text \<open>
  A flag beside the state is set when the one in it is, or when a call has still to set that one;
  no byte is unaccounted for; the sending side is shut down at most once, after \<^verbatim>\<open>write_eof\<close> and
  with nothing left to write but bytes that came late; the protocol sees data, then the end of the
  stream, then the loss of the connection.
\<close>

definition flags_ok :: "TokioTCPTransport \<Rightarrow> bool" where
  "flags_ok t =
     (a_closing t = (k_closing (k_state t) \<or> KcClosing \<in> set (k_pending t) \<or> KcAborting \<in> set (k_pending t))
      \<and> a_weof t = (k_weof (k_state t) \<or> KcWeof \<in> set (k_pending t)))"

text \<open>Calls that do not overlap keep the flags equal to those under the lock.\<close>

definition flags_agree :: "TokioTCPTransport \<Rightarrow> bool" where
  "flags_agree t =
     (a_closing t = k_closing (k_state t) \<and> a_paused t = k_paused (k_state t)
      \<and> a_weof t = k_weof (k_state t))"

lemma k_calls_flags_agree:
  assumes "flags_agree t"
  shows "flags_agree (snd (k_write data t))" "flags_agree (k_write_eof t)"
    "flags_agree (k_pause_reading t)" "flags_agree (k_resume_reading t)"
    "flags_agree (k_close t)" "flags_agree (k_abort t)"
  using assms by (auto simp: flags_agree_def k_method_defs split: sum.splits)

definition bytes_kept :: "kpc \<Rightarrow> TokioTCPTransport \<Rightarrow> bool" where
  "bytes_kept pc t =
     (flow (k_trace t) @ inflight pc @ concat (k_write_buf (k_state t)) = accepted (k_trace t))"

definition shutdown_ok :: "kpc \<Rightarrow> TokioTCPTransport \<Rightarrow> bool" where
  "shutdown_ok pc t =
     (let s = k_state t in
      fst (weof_late (k_trace t)) = k_weof s
      \<and> (k_write_shutdown_done s \<or> will_shutdown pc \<longrightarrow> k_weof s)
      \<and> (will_shutdown pc \<longrightarrow>
           \<not> k_write_shutdown_done s \<and> suffix (concat (k_write_buf s)) (late (k_trace t)))
      \<and> (k_write_shutdown_done s \<longrightarrow> suffix (inflight pc @ concat (k_write_buf s)) (late (k_trace t)))
      \<and> shutdowns (k_trace t) = (if k_write_shutdown_done s then 1 else 0))"

definition call_order :: "pyobj \<Rightarrow> bool \<Rightarrow> bool \<Rightarrow> pycall list \<Rightarrow> bool" where
  "call_order p eof gone cs =
     (\<exists>ds. cs = map (DataReceived p) ds @ (if eof then [EofReceived p] else [])
        @ (if gone then [ConnectionLost p None] else []))"

definition calls_ok :: "kpc \<Rightarrow> TokioTCPTransport \<Rightarrow> bool" where
  "calls_ok pc t =
     ((\<forall>re. eof_copy pc = Some re \<longrightarrow> re = k_read_eof (k_state t))
      \<and> (pc = KStart \<longrightarrow> k_stream (k_state t))
      \<and> call_order (k_protocol t) (k_read_eof (k_state t)) (pc = KGone) (k_calls (k_trace t)))"

definition k_inv :: "kpc \<times> TokioTCPTransport \<Rightarrow> bool" where
  "k_inv c = (flags_ok (snd c) \<and> bytes_kept (fst c) (snd c) \<and> shutdown_ok (fst c) (snd c)
     \<and> calls_ok (fst c) (snd c))"

lemma call_order_simps [simp]:
  "call_order p False False []"
  "call_order p False False cs \<Longrightarrow> call_order p False False (cs @ [DataReceived p d])"
  "call_order p False False cs \<Longrightarrow> call_order p True False (cs @ [EofReceived p])"
  "call_order p e False cs \<Longrightarrow> call_order p e True (cs @ [ConnectionLost p None])"
proof -
  show "call_order p False False cs \<Longrightarrow> call_order p False False (cs @ [DataReceived p d])"
    by (auto simp: call_order_def) (metis list.simps(8,9) map_append)
qed (auto simp: call_order_def)

lemmas k_inv_defs = k_inv_def flags_ok_def bytes_kept_def shutdown_ok_def calls_ok_def Let_def

text \<open>What an access of a method leaves alone, and what it does to the buffer.\<close>

lemma k_api_frame:
  assumes "k_api t t'"
  shows "k_calls (k_trace t') = k_calls (k_trace t) \<and> shutdowns (k_trace t') = shutdowns (k_trace t)
     \<and> flow (k_trace t') = flow (k_trace t) \<and> k_protocol t' = k_protocol t
     \<and> k_read_eof (k_state t') = k_read_eof (k_state t) \<and> k_stream (k_state t') = k_stream (k_state t)
     \<and> k_write_shutdown_done (k_state t') = k_write_shutdown_done (k_state t)"
  using assms
proof cases
  case (k_api_enter m)
  then show ?thesis by (cases m) (simp_all add: k_access_defs)
next
  case (k_api_continue c)
  then show ?thesis by (cases c) (auto simp: k_access_defs split: sum.splits)
qed

lemma k_api_flags:
  assumes "k_api t t'" "flags_ok t"
  shows "flags_ok t'"
  using assms(1)
proof cases
  case (k_api_enter m)
  then show ?thesis using assms(2) by (cases m) (auto simp: flags_ok_def k_access_defs)
next
  case (k_api_continue c)
  then show ?thesis using assms(2)
    by (cases c) (auto simp: flags_ok_def k_access_defs split: sum.splits)
qed

lemma k_api_bytes:
  assumes "k_api t t'" "accepted (k_trace t) = x @ concat (k_write_buf (k_state t))"
  shows "accepted (k_trace t') = x @ concat (k_write_buf (k_state t'))"
  using assms(1)
proof cases
  case (k_api_enter m)
  then show ?thesis using assms(2) by (cases m) (simp_all add: k_access_defs)
next
  case (k_api_continue c)
  then show ?thesis using assms(2) by (cases c) (auto simp: k_access_defs split: sum.splits)
qed

lemma k_api_weof:
  assumes "k_api t t'" "fst (weof_late (k_trace t)) = k_weof (k_state t)"
  shows "fst (weof_late (k_trace t')) = k_weof (k_state t') \<and> (k_weof (k_state t) \<longrightarrow> k_weof (k_state t'))"
  using assms(1)
proof cases
  case (k_api_enter m)
  then show ?thesis using assms(2) by (cases m) (simp_all add: k_access_defs)
next
  case (k_api_continue c)
  then show ?thesis using assms(2)
    by (cases "weof_late (k_trace t)"; cases c) (auto simp: k_access_defs split: sum.splits)
qed

lemma k_api_late:
  assumes "k_api t t'" "fst (weof_late (k_trace t))"
    and "suffix (x @ concat (k_write_buf (k_state t))) (late (k_trace t))"
  shows "suffix (x @ concat (k_write_buf (k_state t'))) (late (k_trace t'))"
  using assms(1)
proof cases
  case (k_api_enter m)
  then show ?thesis using assms(3) by (cases m) (simp_all add: k_access_defs)
next
  case (k_api_continue c)
  obtain l where l: "weof_late (k_trace t) = (True, l)" using assms(2) by (cases "weof_late (k_trace t)") auto
  show ?thesis using assms(3) l k_api_continue(1)
    by (cases c) (auto simp: late_def k_access_defs suffix_def split: sum.splits)
qed

lemma k_api_inv:
  assumes api: "k_api t t'" and inv: "k_inv (pc, t)"
  shows "k_inv (pc, t')"
proof -
  note fr = k_api_frame [OF api]
  from inv have I: "flags_ok t" "bytes_kept pc t" "shutdown_ok pc t" "calls_ok pc t"
    by (simp_all add: k_inv_def)
  have "bytes_kept pc t'"
    using k_api_bytes [OF api, of "flow (k_trace t) @ inflight pc"] I(2) fr
    by (simp add: bytes_kept_def)
  moreover have "shutdown_ok pc t'"
    using I(3) fr k_api_weof [OF api] k_api_late [OF api, of "[]"] k_api_late [OF api, of "inflight pc"]
    by (auto simp: shutdown_ok_def Let_def)
  moreover have "calls_ok pc t'" using I(4) fr by (simp add: calls_ok_def)
  ultimately show ?thesis using k_api_flags [OF api I(1)] by (simp add: k_inv_def)
qed

lemma k_api_star_inv: "k_api\<^sup>*\<^sup>* t t' \<Longrightarrow> k_inv (pc, t) \<Longrightarrow> k_inv (pc, t')"
  by (induction rule: rtranclp_induct) (auto intro: k_api_inv)

lemma k_call_inv:
  "k_py_uses_api P \<Longrightarrow> k_inv (pc, k_emit (KPy c) t) \<Longrightarrow> k_inv (pc, k_call P c t)"
  unfolding k_call_def k_py_uses_api_def using k_api_star_inv by blast

lemma k_on_read_inv:
  assumes py: "k_py_uses_api P" and fl: "flags_ok t" and bk: "bytes_kept KCheck t"
    and sd: "shutdown_ok KCheck t" and ca: "calls_ok KCheck t" and re: "\<not> k_read_eof (k_state t)"
  shows "k_inv (k_on_read P r t)"
proof (cases r)
  case KEof
  have "k_inv (KCheck, k_emit (KPy (EofReceived (k_protocol t))) (k_upd (\<lambda>s. s\<lparr>k_read_eof := True\<rparr>) t))"
    using fl bk sd ca re by (auto simp: k_inv_defs k_upd_def k_emit_def)
  then show ?thesis using KEof k_call_inv [OF py] by simp
next
  case (KData d)
  have "k_inv (KCheck, k_emit (KPy (DataReceived (k_protocol t) d)) t)"
    using fl bk sd ca re by (simp add: k_inv_defs k_emit_def)
  then show ?thesis using KData k_call_inv [OF py] by simp
next
  case KReadWouldBlock
  then show ?thesis using fl bk sd ca by (simp add: k_inv_def)
next
  case KReadErr
  then show ?thesis using fl bk sd ca by (simp add: k_inv_def bytes_kept_def shutdown_ok_def calls_ok_def)
qed

lemma k_invI:
  "flags_ok t \<Longrightarrow> bytes_kept pc t \<Longrightarrow> shutdown_ok pc t \<Longrightarrow> calls_ok pc t \<Longrightarrow> k_inv (pc, t)"
  by (simp add: k_inv_def)

lemma k_invD:
  "k_inv (pc, t) \<Longrightarrow> flags_ok t" "k_inv (pc, t) \<Longrightarrow> bytes_kept pc t"
  "k_inv (pc, t) \<Longrightarrow> shutdown_ok pc t" "k_inv (pc, t) \<Longrightarrow> calls_ok pc t"
  by (simp_all add: k_inv_def)

lemma k_pop_write_inv:
  assumes inv: "k_inv (KSelect re wg, t)" and pop: "k_pop_write t = (data, sd, t')"
  shows "k_inv (KWriting re data 0 sd, t')"
proof -
  note I = k_invD [OF inv]
  obtain buf where d: "(data, buf) = (case k_write_buf (k_state t) of [] \<Rightarrow> (None, []) | d # r \<Rightarrow> (Some d, r))"
    and sd: "sd = (k_weof (k_state t) \<and> buf = [] \<and> \<not> k_write_shutdown_done (k_state t))"
    and t': "t' = t\<lparr>k_state := (k_state t)\<lparr>k_write_buf := buf\<rparr>\<rparr>"
    using pop by (auto simp: k_pop_write_def k_upd_def Let_def split: prod.splits)
  have all: "inflight (KWriting re data 0 sd) @ concat buf = concat (k_write_buf (k_state t))"
    using d by (cases "k_write_buf (k_state t)") auto
  have empty: "data = None \<and> buf = []" if "k_write_buf (k_state t) = []"
    using d that by simp
  show ?thesis
  proof (rule k_invI)
    show "bytes_kept (KWriting re data 0 sd) t'"
      using I(2) all by (simp add: bytes_kept_def t')
    show "shutdown_ok (KWriting re data 0 sd) t'"
      using I(3) all by (auto simp: shutdown_ok_def t' sd Let_def)
    show "calls_ok (KWriting re data 0 sd) t'"
      using I(4) by (simp add: calls_ok_def t')
  qed (use I(1) in \<open>simp add: flags_ok_def t'\<close>)
qed

lemma take_drop_again: "k \<le> k' \<Longrightarrow> take (k' - k) (drop k d) @ drop k' d @ x = drop k d @ x"
  by (metis append_assoc append_take_drop_id drop_drop le_add_diff_inverse2)

lemma suffix_progress: "suffix (drop k d @ x) l \<Longrightarrow> k \<le> k' \<Longrightarrow> suffix (drop k' d @ x) l"
  by (metis take_drop_again suffix_appendD)

text \<open>The rest of the chunk being written is lost, and the task goes on without it.\<close>

lemma k_lost_inv:
  assumes "k_inv (KWriting re (Some d) k sd, t)" and pc: "pc = KCheck \<or> pc = KWriting re None 0 sd"
  shows "k_inv (pc, k_emit (KLost (drop k d)) t)"
proof (rule k_invI)
  note I = k_invD [OF assms(1)]
  show "bytes_kept pc (k_emit (KLost (drop k d)) t)"
    using I(2) pc by (auto simp: bytes_kept_def k_emit_def)
  show "shutdown_ok pc (k_emit (KLost (drop k d)) t)"
    using I(3) pc suffix_appendD [of "drop k d" "concat (k_write_buf (k_state t))" "late (k_trace t)"]
    by (auto simp: shutdown_ok_def k_emit_def Let_def)
qed (use k_invD(1,4) [OF assms(1)] pc in \<open>auto simp: flags_ok_def calls_ok_def k_emit_def\<close>)

lemma k_step_inv: "k_step P c c' \<Longrightarrow> k_py_uses_api P \<Longrightarrow> k_inv c \<Longrightarrow> k_inv c'"
proof (induction rule: k_step.induct)
  case (k_sel_read re r wg t)
  then show ?case by (intro k_on_read_inv) (auto simp: k_inv_defs)
next
  case (k_sel_write t data sd t' re)
  then show ?case using k_pop_write_inv by blast
next
  case (k_progress k k' d re sd t)
  note I = k_invD [OF k_progress(4)]
  show ?case
  proof (rule k_invI)
    show "bytes_kept (KWriting re (Some d) k' sd) (k_emit (KSent (take (k' - k) (drop k d))) t)"
      using I(2) k_progress(1) by (simp add: bytes_kept_def k_emit_def take_drop_again)
    show "shutdown_ok (KWriting re (Some d) k' sd) (k_emit (KSent (take (k' - k) (drop k d))) t)"
      using I(3) k_progress(1) suffix_progress [of k d "concat (k_write_buf (k_state t))" "late (k_trace t)" k']
      by (auto simp: shutdown_ok_def k_emit_def Let_def)
  qed (use I(1,4) in \<open>simp_all add: flags_ok_def calls_ok_def k_emit_def\<close>)
next
  case (k_cancel_read k d re r sd t)
  note I = k_invD [OF k_lost_inv [OF k_cancel_read(5) disjI1 [OF refl]]]
  have "\<not> k_read_eof (k_state t)" using k_cancel_read(2) k_invD(4) [OF k_cancel_read(5)] by (auto simp: calls_ok_def)
  then show ?case using I k_cancel_read(4) by (intro k_on_read_inv) (simp_all add: k_emit_def)
next
  case (k_write_error re d k sd t)
  then show ?case by (intro k_lost_inv) simp_all
next
  case (k_cancel_sleep k d re sd t)
  then show ?case by (intro k_lost_inv) simp_all
next
  case (k_at_exit t)
  then show ?case unfolding call_connection_lost_def
    by (intro k_call_inv) (auto simp: k_inv_defs k_emit_def)
next
  case (k_method t t' pc)
  then show ?case using k_api_inv by blast
next
  case (k_made t pc)
  then show ?case by (intro k_call_inv) (simp_all add: k_inv_defs k_emit_def)
next
  case (k_at_top t)
  then show ?case by (auto simp: k_inv_defs k_top_def)
qed (auto simp: k_inv_defs k_emit_def k_upd_def)

interpretation kio: step_system "k_step P" k_inv "k_py_uses_api P" for P
  by unfold_locales (rule k_step_inv)

definition k_init :: "nat \<Rightarrow> string option \<Rightarrow> string option \<Rightarrow> pyobj \<Rightarrow> pyobj \<Rightarrow> kpc \<times> TokioTCPTransport" where
  "k_init fd local peer protocol py_socket =
     k_start_io_task (TokioTCPTransport_new fd local peer protocol py_socket)"

lemma k_init_inv: "k_inv (k_init fd local peer protocol py_socket)"
  by (simp add: k_init_def k_start_io_task_def TokioTCPTransport_new_def k_inv_defs k_upd_def)

lemmas k_reach_inv = kio.run_inv [OF _ k_init_inv]

section \<open>A write that is dropped half way\<close>

lemma cancelled_write_run:
  assumes buf: "k_write_buf (k_state t) = d # rest" and k: "k < length d"
  shows "(k_step P)\<^sup>*\<^sup>* (KSelect re True, t)
     (KCheck, t\<lparr>k_state := (k_state t)\<lparr>k_write_buf := rest\<rparr>,
        k_trace := k_trace t @ (if k = 0 then [] else [KSent (take k d)]) @ [KLost (drop k d)]\<rparr>)"
proof -
  let ?sd = "k_weof (k_state t) \<and> rest = [] \<and> \<not> k_write_shutdown_done (k_state t)"
  let ?t1 = "t\<lparr>k_state := (k_state t)\<lparr>k_write_buf := rest\<rparr>\<rparr>"
  let ?t2 = "if k = 0 then ?t1 else k_emit (KSent (take k d)) ?t1"
  have "k_step P (KSelect re True, t) (KWriting re (Some d) 0 ?sd, ?t1)"
    by (rule k_sel_write) (simp add: k_pop_write_def buf k_upd_def Let_def)
  moreover have "(k_step P)\<^sup>*\<^sup>* (KWriting re (Some d) 0 ?sd, ?t1) (KWriting re (Some d) k ?sd, ?t2)"
    using k_progress [of 0 k d P re ?sd ?t1] k by auto
  moreover have "k_step P (KWriting re (Some d) k ?sd, ?t2) (KCheck, k_emit (KLost (drop k d)) ?t2)"
    using k by (rule k_cancel_sleep)
  moreover have "k_emit (KLost (drop k d)) ?t2 = t\<lparr>k_state := (k_state t)\<lparr>k_write_buf := rest\<rparr>,
      k_trace := k_trace t @ (if k = 0 then [] else [KSent (take k d)]) @ [KLost (drop k d)]\<rparr>"
    by (simp add: k_emit_def)
  ultimately show ?thesis
    by (metis (no_types, lifting) converse_rtranclp_into_rtranclp rtranclp.rtrancl_into_rtrancl)
qed

text \<open>
  For the concrete examples: Python code that does nothing, and a transport to which three bytes
  have been written.
\<close>

definition quiet_kpy :: kpy where
  "quiet_kpy = (\<lambda>c t. (PyOk 0 True, t))"

lemma quiet_kpy_ok [simp]: "k_py_uses_api quiet_kpy"
  by (simp add: k_py_uses_api_def quiet_kpy_def)

abbreviation k_demo :: TokioTCPTransport where
  "k_demo \<equiv>
     \<lparr>k_fd = 7,
      k_state = \<lparr>k_stream = False, k_write_buf = [[1, 2, 3]], k_closing = False, k_weof = False,
                 k_read_eof = False, k_write_shutdown_done = False, k_paused = False,
                 k_io_task = True, k_local_addr = None, k_peer_addr = None\<rparr>,
      k_protocol = 5, k_extra = [''socket'' \<mapsto> 6],
      a_closing = False, a_paused = False, a_weof = False, k_trace = [KWritten [1, 2, 3]], k_pending = []\<rparr>"

abbreviation k_open :: TokioTCPTransport where
  "k_open \<equiv> k_demo\<lparr>k_state := (k_state k_demo)\<lparr>k_write_buf := []\<rparr>, k_trace := []\<rparr>"

lemma k_open_reached: "(k_step P)\<^sup>*\<^sup>* (k_init 7 None None 5 6) (KTop, k_open)"
proof -
  let ?t = "k_upd (\<lambda>s. s\<lparr>k_io_task := True\<rparr>) (TokioTCPTransport_new 7 None None 5 6)"
  have "k_step P (KStart, ?t) (KTop, k_upd (\<lambda>s. s\<lparr>k_stream := False\<rparr>) ?t)"
    by (rule k_start) (simp add: TokioTCPTransport_new_def k_upd_def)
  then show ?thesis
    by (simp add: k_init_def k_start_io_task_def TokioTCPTransport_new_def k_upd_def)
qed

lemma k_demo_reached: "(k_step P)\<^sup>*\<^sup>* (k_init 7 None None 5 6) (KTop, k_demo)"
proof -
  have "snd (k_write (Inr [1, 2, 3]) k_open) = k_demo" by (simp add: k_method_defs)
  then show ?thesis
    using rtranclp_trans [OF k_open_reached k_methods [OF k_api_write [of k_open "Inr [1, 2, 3]"]], of P] by simp
qed

lemma k_demo_select: "(k_step P)\<^sup>*\<^sup>* (k_init 7 None None 5 6) (KSelect False True, k_demo)"
proof -
  have "k_step P (KTop, k_demo) (KGuard False, k_demo)"
    using k_at_top [of P k_demo] by (simp add: k_top_def)
  moreover have "k_step P (KGuard False, k_demo) (KSelect False True, k_demo)"
    using k_at_guard [of P False k_demo] by (simp add: k_wants_write_def)
  ultimately show ?thesis
    using k_demo_reached by (meson rtranclp.rtrancl_into_rtrancl)
qed

abbreviation k_demo_lost :: TokioTCPTransport where
  "k_demo_lost \<equiv> k_demo\<lparr>k_state := (k_state k_demo)\<lparr>k_write_buf := []\<rparr>,
     k_trace := [KWritten [1, 2, 3], KSent [1, 2], KLost [3]]\<rparr>"

lemma k_demo_lost_reached: "(k_step P)\<^sup>*\<^sup>* (k_init 7 None None 5 6) (KCheck, k_demo_lost)"
  using rtranclp_trans [OF k_demo_select cancelled_write_run [of k_demo "[1, 2, 3]" "[]" 2 P False]]
  by (simp add: numeral_2_eq_2)

section \<open>Properties of every run\<close>

text \<open>
  C13. The bytes of a connection of the second loop, at every point of every interleaving of its
  task with the single accesses of the methods other threads are inside. The bytes that left the
  buffer, in order, followed by those of the chunk being written and by those still buffered, are
  exactly the bytes accepted (less what \<^verbatim>\<open>abort\<close> cleared); as long as no write failed or was
  dropped half way, they left by being sent. The sending side is shut down at most once, only after
  \<^verbatim>\<open>write_eof\<close>, and from then on the only bytes that have not left are late ones, pushed after
  the end was recorded by calls of \<^verbatim>\<open>write\<close> that had passed their check before. \<^verbatim>\<open>is_closing\<close> and
  \<^verbatim>\<open>can_write_eof\<close> answer from their atomic flags, which are set exactly when the flag under the
  lock is, or a call of \<^verbatim>\<open>close\<close>, \<^verbatim>\<open>abort\<close> or \<^verbatim>\<open>write_eof\<close> that has won the exchange has still to
  set that one. (Nothing of the kind holds of \<^verbatim>\<open>paused\<close>.)
\<close>

theorem tokio_stream_bytes:
  assumes "k_py_uses_api P" "(k_step P)\<^sup>*\<^sup>* (k_init fd local peer protocol py_socket) (pc, t)"
  shows "flow (k_trace t) @ inflight pc @ concat (k_write_buf (k_state t)) = accepted (k_trace t)
    \<and> (k_lost (k_trace t) = [] \<longrightarrow>
         k_sent (k_trace t) @ inflight pc @ concat (k_write_buf (k_state t)) = accepted (k_trace t))
    \<and> shutdowns (k_trace t) \<le> 1
    \<and> (shutdowns (k_trace t) = 1 \<longrightarrow> k_weof (k_state t) \<and> \<not> k_can_write_eof t
         \<and> suffix (inflight pc @ concat (k_write_buf (k_state t))) (late (k_trace t)))
    \<and> k_is_closing t = (k_closing (k_state t) \<or> KcClosing \<in> set (k_pending t) \<or> KcAborting \<in> set (k_pending t))
    \<and> (\<not> k_can_write_eof t) = (k_weof (k_state t) \<or> KcWeof \<in> set (k_pending t))"
proof -
  note I = k_invD [OF k_reach_inv [OF assms(2,1)]]
  have a: "flow (k_trace t) @ inflight pc @ concat (k_write_buf (k_state t)) = accepted (k_trace t)"
    using I(2) by (simp add: bytes_kept_def)
  have sd: "shutdowns (k_trace t) \<le> 1" "shutdowns (k_trace t) = 1 \<Longrightarrow> k_weof (k_state t) \<and>
      suffix (inflight pc @ concat (k_write_buf (k_state t))) (late (k_trace t))"
    using I(3) by (auto simp: shutdown_ok_def Let_def split: if_splits)
  show ?thesis
    using a sd I(1) flow_lossless [of "k_trace t"]
    by (auto simp: flags_ok_def k_can_write_eof_def k_is_closing_def)
qed

theorem tokio_stream_bytes_witness:
  "k_py_uses_api quiet_kpy
   \<and> (k_step quiet_kpy)\<^sup>*\<^sup>* (k_init 7 None None 5 6) (KCheck, k_demo_lost)
   \<and> flow (k_trace k_demo_lost) = [1, 2, 3] \<and> accepted (k_trace k_demo_lost) = [1, 2, 3]
   \<and> k_lost (k_trace k_demo_lost) = [3]"
  using tokio_stream_bytes [OF quiet_kpy_ok k_demo_lost_reached [of quiet_kpy]]
    k_demo_lost_reached [of quiet_kpy]
  by (simp add: accepted_def k_lost_def)

text \<open>
  C14. What the protocol sees of a connection, apart from \<^verbatim>\<open>connection_made\<close>, in every
  interleaving: first the data, then at most once the end of the stream and nothing more after it
  but the loss of the connection, which is reported at most once, as the last call, exactly when the
  task has ended; it is always reported with \<^verbatim>\<open>None\<close>, after a read error too.
\<close>

theorem tokio_call_order:
  assumes "k_py_uses_api P" "(k_step P)\<^sup>*\<^sup>* (k_init fd local peer protocol py_socket) (pc, t)"
  shows "\<exists>ds. k_calls (k_trace t) = map (DataReceived (k_protocol t)) ds
           @ (if k_read_eof (k_state t) then [EofReceived (k_protocol t)] else [])
           @ (if pc = KGone then [ConnectionLost (k_protocol t) None] else [])"
  using k_invD(4) [OF k_reach_inv [OF assms(2,1)]] unfolding calls_ok_def call_order_def by blast

theorem tokio_call_order_witness:
  "k_py_uses_api quiet_kpy
   \<and> (\<exists>t. (k_step quiet_kpy)\<^sup>*\<^sup>* (k_init 7 None None 5 6) (KGone, t)
        \<and> k_calls (k_trace t) = [ConnectionLost 5 None]
        \<and> (\<exists>ds. k_calls (k_trace t) = map (DataReceived (k_protocol t)) ds
             @ (if k_read_eof (k_state t) then [EofReceived (k_protocol t)] else [])
             @ [ConnectionLost (k_protocol t) None]))"
proof -
  let ?S = "k_step quiet_kpy"
  let ?t = "call_connection_lost quiet_kpy None k_demo"
  have "?S (KSelect False True, k_demo) (KExit, k_demo)"
    using k_sel_read [of False KReadErr quiet_kpy True k_demo] by (simp add: k_read_ok_def)
  moreover have "?S (KExit, k_demo) (KGone, ?t)" by (rule k_at_exit)
  ultimately have r: "?S\<^sup>*\<^sup>* (k_init 7 None None 5 6) (KGone, ?t)"
    using k_demo_select [of quiet_kpy] by (meson rtranclp.rtrancl_into_rtrancl)
  have "k_calls (k_trace ?t) = [ConnectionLost 5 None]"
    by (simp add: call_connection_lost_def k_call_def quiet_kpy_def k_emit_def k_calls_def)
  then show ?thesis using tokio_call_order [OF quiet_kpy_ok r] r by auto
qed



section \<open>Calls that overlap\<close>

text \<open>The accesses of \<^verbatim>\<open>pause_reading\<close> and \<^verbatim>\<open>resume_reading\<close>, with the locks taken in the other order.\<close>

lemma pause_overtaken:
  assumes "\<not> a_closing t" "\<not> a_paused t"
  shows "k_api\<^sup>*\<^sup>* t (t\<lparr>k_state := (k_state t)\<lparr>k_paused := True\<rparr>\<rparr>)"
proof -
  let ?p = "t\<lparr>a_paused := True\<rparr>"
  have "k_api\<^sup>*\<^sup>* t (k_pend KcPaused ?p)"
    using k_api_in [of t MPauseReading] k_api_go [of t KcPauseReading t] assms by simp
  then have "k_api\<^sup>*\<^sup>* t (k_pend KcResumeReading (k_pend KcPaused ?p))"
    using k_api_enter [of "k_pend KcPaused ?p" MResumeReading] assms(1)
    by (simp add: k_pend_def rtranclp.rtrancl_into_rtrancl)
  from k_api_go [OF this]
  have "k_api\<^sup>*\<^sup>* t (k_pend KcResumed (k_pend KcPaused (t\<lparr>a_paused := False\<rparr>)))"
    by (simp add: k_pend_def)
  from k_api_go [OF this]
  have "k_api\<^sup>*\<^sup>* t (k_pend KcPaused (k_upd (\<lambda>s. s\<lparr>k_paused := False\<rparr>) (t\<lparr>a_paused := False\<rparr>)))"
    by (cases t) (simp add: k_access_defs)
  from k_api_go [OF this] show ?thesis using assms(2) by (cases t) (simp add: k_access_defs)
qed

text \<open>\<^verbatim>\<open>write_eof\<close> and the shutdown between the check of \<^verbatim>\<open>write\<close> and its push.\<close>

lemma write_overtaken:
  assumes "\<not> a_closing t" "\<not> a_weof t" "k_write_buf (k_state t) = []" "\<not> k_write_shutdown_done (k_state t)"
    "\<not> k_closing (k_state t)" "\<not> k_paused (k_state t)"
  shows "(k_step P)\<^sup>*\<^sup>* (KTop, t) (KCheck, t\<lparr>a_weof := True,
     k_state := (k_state t)\<lparr>k_weof := True, k_write_shutdown_done := True, k_write_buf := [bs]\<rparr>,
     k_trace := k_trace t @ [KWeof, KShutdown, KWritten bs]\<rparr>)"
proof -
  let ?c = "KcWrite (Inr bs)"
  let ?t1 = "k_pend ?c t"
  define t2 where "t2 = k_write_eof ?t1"
  let ?t3 = "k_emit KShutdown (k_upd (\<lambda>s. s\<lparr>k_write_shutdown_done := True\<rparr>) t2)"
  let ?re = "k_read_eof (k_state t)"
  have t2: "t2 = k_emit KWeof (k_upd (\<lambda>s. s\<lparr>k_weof := True\<rparr>) (?t1\<lparr>a_weof := True\<rparr>))"
    using assms by (simp add: t2_def k_write_eof_def k_pend_def)
  have "k_api\<^sup>*\<^sup>* t ?t1" using k_api_in [of t "MWrite (Inr bs)"] assms(2) by simp
  then have "k_api\<^sup>*\<^sup>* t t2" unfolding t2_def using k_api_write_eof by (rule rtranclp_trans)
  then have "(k_step P)\<^sup>*\<^sup>* (KTop, t) (KTop, t2)" by (rule k_methods)
  also have "k_step P (KTop, t2) (KGuard ?re, t2)"
    using k_at_top [of P t2] assms by (simp add: t2 k_top_def k_access_defs)
  also have "k_step P (KGuard ?re, t2) (KSelect ?re True, t2)"
    using k_at_guard [of P ?re t2] assms by (simp add: t2 k_wants_write_def k_access_defs Let_def)
  also have "k_step P (KSelect ?re True, t2) (KWriting ?re None 0 True, t2)"
    by (rule k_sel_write) (use assms in \<open>simp add: t2 k_pop_write_def k_access_defs Let_def\<close>)
  also have "k_step P (KWriting ?re None 0 True, t2) (KCheck, ?t3)" by (rule k_shutdown)
  also have "k_step P (KCheck, ?t3) (KCheck, k_continue ?c (k_unpend ?c ?t3))"
    by (rule k_method, rule k_api_continue) (simp add: t2 k_access_defs)
  finally show ?thesis using assms(3) by (simp add: t2 k_access_defs)
qed

text \<open>
  C21. What overlapping calls do to a connection of the second loop, from any open transport.
  When \<^verbatim>\<open>pause_reading\<close> and \<^verbatim>\<open>resume_reading\<close> overlap, the second may exchange the flag after the
  first but write the state before it; then both calls have returned, \<^verbatim>\<open>is_reading\<close> answers true,
  and the task waits at the top of its loop as if reading were paused; no \<^verbatim>\<open>resume_reading\<close> changes
  that, since the flag says that reading is not paused. When \<^verbatim>\<open>write\<close> and \<^verbatim>\<open>write_eof\<close> overlap, a
  chunk whose \<^verbatim>\<open>write\<close> succeeds may enter the buffer after the sending side has been shut down.
\<close>

theorem tokio_overlapping_calls:
  assumes "\<not> k_is_closing t" "\<not> k_closing (k_state t)" "k_is_reading t" "\<not> k_paused (k_state t)"
  shows "(\<exists>t'. (k_step P)\<^sup>*\<^sup>* (KTop, t) (KTop, t') \<and> k_pending t' = k_pending t
           \<and> k_is_reading t' \<and> k_top t' = KTop \<and> k_resume_reading t' = t')
    \<and> (k_can_write_eof t \<and> k_write_buf (k_state t) = [] \<and> \<not> k_write_shutdown_done (k_state t) \<longrightarrow>
         (\<exists>t'. (k_step P)\<^sup>*\<^sup>* (KTop, t) (KCheck, t') \<and> k_pending t' = k_pending t
           \<and> accepted (k_trace t') = accepted (k_trace t) @ bs
           \<and> shutdowns (k_trace t') = shutdowns (k_trace t) + 1 \<and> k_write_buf (k_state t') = [bs]))"
    (is "?A \<and> (?B \<longrightarrow> ?C)")
proof
  let ?t = "t\<lparr>k_state := (k_state t)\<lparr>k_paused := True\<rparr>\<rparr>"
  have "(k_step P)\<^sup>*\<^sup>* (KTop, t) (KTop, ?t)"
    using assms by (intro k_methods pause_overtaken) (simp_all add: k_is_closing_def k_is_reading_def)
  moreover have "k_is_reading ?t \<and> k_top ?t = KTop \<and> k_resume_reading ?t = ?t"
    using assms by (simp add: k_is_reading_def k_top_def k_resume_reading_def)
  ultimately show ?A by (intro exI [of _ ?t]) simp
  show "?B \<longrightarrow> ?C"
  proof
    assume ?B
    then have r: "(k_step P)\<^sup>*\<^sup>* (KTop, t) (KCheck, t\<lparr>a_weof := True,
       k_state := (k_state t)\<lparr>k_weof := True, k_write_shutdown_done := True, k_write_buf := [bs]\<rparr>,
       k_trace := k_trace t @ [KWeof, KShutdown, KWritten bs]\<rparr>)"
      using assms by (intro write_overtaken) (simp_all add: k_is_closing_def k_can_write_eof_def)
    show ?C by (rule exI, rule conjI [OF r]) (simp add: accepted_def shutdowns_def)
  qed
qed

theorem tokio_overlapping_calls_witness:
  "(k_step quiet_kpy)\<^sup>*\<^sup>* (k_init 7 None None 5 6) (KTop, k_open)
   \<and> (\<exists>t'. (k_step quiet_kpy)\<^sup>*\<^sup>* (KTop, k_open) (KTop, t') \<and> k_pending t' = []
        \<and> k_is_reading t' \<and> k_top t' = KTop)
   \<and> (\<exists>t'. (k_step quiet_kpy)\<^sup>*\<^sup>* (KTop, k_open) (KCheck, t') \<and> k_pending t' = []
        \<and> shutdowns (k_trace t') = 1 \<and> k_write_buf (k_state t') = [[4]])"
  using tokio_overlapping_calls [of k_open quiet_kpy "[4]"] k_open_reached [of quiet_kpy]
  by (auto simp: k_is_closing_def k_is_reading_def k_can_write_eof_def)

section \<open>Closing and pausing\<close>

text \<open>Methods never clear the closing flag, and send nothing.\<close>

lemma k_api_closing:
  assumes "k_api t t'" "k_closing (k_state t)"
  shows "k_closing (k_state t') \<and> k_sent (k_trace t') = k_sent (k_trace t)"
  using assms(1)
proof cases
  case (k_api_enter m)
  then show ?thesis using assms(2) by (cases m) (simp_all add: k_access_defs)
next
  case (k_api_continue c)
  then show ?thesis using assms(2) by (cases c) (auto simp: k_access_defs split: sum.splits)
qed

lemma k_api_star_closing:
  "k_api\<^sup>*\<^sup>* t t' \<Longrightarrow> k_closing (k_state t) \<Longrightarrow> k_closing (k_state t') \<and> k_sent (k_trace t') = k_sent (k_trace t)"
  by (induction rule: rtranclp_induct) (auto dest: k_api_closing)

lemma k_call_closing:
  assumes "k_py_uses_api P" "k_closing (k_state t)"
  shows "k_closing (k_state (k_call P c t)) \<and> k_sent (k_trace (k_call P c t)) = k_sent (k_trace t)"
  using k_api_star_closing [of "k_emit (KPy c) t" "k_call P c t"] assms
  by (simp add: k_call_def k_py_uses_api_def k_emit_def)

definition winding_down :: "bytes \<Rightarrow> kpc \<times> TokioTCPTransport \<Rightarrow> bool" where
  "winding_down b c = (fst c \<in> {KTop, KExit, KGone} \<and> k_closing (k_state (snd c))
     \<and> k_sent (k_trace (snd c)) = b)"

interpretation kclose: step_system "k_step P" "winding_down b" "k_py_uses_api P" for P b
proof unfold_locales
  fix c c'
  show "k_step P c c' \<Longrightarrow> k_py_uses_api P \<Longrightarrow> winding_down b c \<Longrightarrow> winding_down b c'"
    by (induction rule: k_step.induct)
      (auto simp: winding_down_def k_top_def call_connection_lost_def k_call_closing k_api_closing)
qed

text \<open>
  C32. \<^verbatim>\<open>close\<close> does not send what is buffered. From the top of the task's loop with the transport
  closing, in every continuation, no further byte is sent, whatever is still in the buffer, and the
  task goes straight to \<^verbatim>\<open>connection_lost\<close>. And while reading is paused the task does not reach
  its select, so that nothing is written either.
\<close>

theorem tokio_close_drops:
  assumes "k_py_uses_api P" "k_closing (k_state t)" "(k_step P)\<^sup>*\<^sup>* (KTop, t) (pc, t')"
  shows "k_sent (k_trace t') = k_sent (k_trace t) \<and> pc \<in> {KTop, KExit, KGone}
    \<and> (\<forall>u. \<not> k_is_closing u \<longrightarrow> k_closing (k_state (k_close u))
         \<and> k_write_buf (k_state (k_close u)) = k_write_buf (k_state u)
         \<and> k_top (k_close u) = KExit)
    \<and> (\<forall>u. k_paused (k_state u) \<longrightarrow> k_top u \<in> {KTop, KExit})"
proof -
  have "winding_down (k_sent (k_trace t)) (pc, t')"
    by (rule kclose.run_inv [OF assms(3) _ assms(1)]) (simp add: winding_down_def assms(2))
  then show ?thesis
    by (simp add: winding_down_def k_is_closing_def k_close_def k_upd_def k_top_def)
qed

theorem tokio_close_drops_witness:
  "(k_step quiet_kpy)\<^sup>*\<^sup>* (k_init 7 None None 5 6) (KTop, k_close k_demo)
   \<and> k_closing (k_state (k_close k_demo)) \<and> k_write_buf (k_state (k_close k_demo)) = [[1, 2, 3]]
   \<and> (\<exists>t'. (k_step quiet_kpy)\<^sup>*\<^sup>* (KTop, k_close k_demo) (KGone, t') \<and> k_sent (k_trace t') = [])"
proof -
  have r: "(k_step quiet_kpy)\<^sup>*\<^sup>* (k_init 7 None None 5 6) (KTop, k_close k_demo)"
    by (rule rtranclp_trans [OF k_demo_reached k_methods [OF k_api_close]])
  have c: "k_closing (k_state (k_close k_demo))" "k_write_buf (k_state (k_close k_demo)) = [[1, 2, 3]]"
    "k_sent (k_trace (k_close k_demo)) = []"
    by (simp_all add: k_close_def k_upd_def k_sent_def)
  have "k_step quiet_kpy (KTop, k_close k_demo) (KExit, k_close k_demo)"
    using k_at_top [of quiet_kpy "k_close k_demo"] c(1) by (simp add: k_top_def)
  with k_at_exit [of quiet_kpy "k_close k_demo"] have
    d: "(k_step quiet_kpy)\<^sup>*\<^sup>* (KTop, k_close k_demo)
      (KGone, call_connection_lost quiet_kpy None (k_close k_demo))" by auto
  show ?thesis using tokio_close_drops [OF quiet_kpy_ok c(1) d] r c d by auto
qed

end
