(* ===== verification/Tokio_Server.thy ===== *)
theory Tokio_Server
  imports Tokio_Tcp
begin

text \<open>
  Connections and servers of the second loop: \<^verbatim>\<open>_tcp_conn\<close> and \<^verbatim>\<open>_tcp_server\<close>
  (\<^verbatim>\<open>tokio_event_loop.rs\<close>), \<^verbatim>\<open>TokioTCPServer\<close> with its accept loops (\<^verbatim>\<open>tokio_tcp.rs\<close>) and
  \<^verbatim>\<open>TokioServer\<close> (\<^verbatim>\<open>server.rs\<close>).
\<close>

section \<open>Opening a connection\<close>

text \<open>
  Inputs: what converting the descriptor to a stream gives (its two addresses), what the \<open>n\<close>-th
  call of the protocol factory gives, and the Python socket object, each of which may be an error.
\<close>

record conn_env =
  ce_convert :: "(string option \<times> string option) pyresult"
  ce_factory :: "nat \<Rightarrow> pyobj pyresult"
  ce_socket :: "pyobj pyresult"

text \<open>\<^verbatim>\<open>TokioTCPTransport::from_py\<close>; \<open>n\<close> counts the calls of the factory before it.\<close>

definition k_from_py :: "conn_env \<Rightarrow> nat \<Rightarrow> nat \<Rightarrow> TokioTCPTransport pyresult" where
  "k_from_py e n fd =
     (case ce_convert e of
        Inl err \<Rightarrow> Inl err
      | Inr (local, peer) \<Rightarrow>
          (case ce_factory e n of
             Inl err \<Rightarrow> Inl err
           | Inr protocol \<Rightarrow>
               (case ce_socket e of
                  Inl err \<Rightarrow> Inl err
                | Inr py_socket \<Rightarrow> Inr (TokioTCPTransport_new fd local peer protocol py_socket))))"

text \<open>
  \<^verbatim>\<open>attach\<close>: the task is spawned, then \<^verbatim>\<open>connection_made\<close> is called; its error is the result, but
  the task goes on. The answer of the call and its effect are those of the Python parameter.
\<close>

definition k_attach :: "kpy \<Rightarrow> TokioTCPTransport \<Rightarrow> pyobj pyresult \<times> (kpc \<times> TokioTCPTransport)" where
  "k_attach P t =
     (let (pc, t1) = k_start_io_task t;
          c = ConnectionMade (k_protocol t1) (k_fd t1);
          (res, t2) = P c (k_emit (KPy c) t1)
      in (case res of PyOk _ _ \<Rightarrow> Inr (k_protocol t1) | PyErr e \<Rightarrow> Inl (PyExc e), (pc, t2)))"

definition t_tcp_conn ::
  "kpy \<Rightarrow> conn_env \<Rightarrow> nat \<Rightarrow> bool \<Rightarrow> ((kpc \<times> TokioTCPTransport) \<times> pyobj) pyresult" where
  "t_tcp_conn P e fd has_ssl_context =
     (if has_ssl_context then Inl (NotImplementedError ''SSL/TLS not yet supported in TokioLoop'')
      else
        (case ce_factory e 0 of
           Inl err \<Rightarrow> Inl err
         | Inr protocol \<Rightarrow>
             (case k_from_py e 1 fd of
                Inl err \<Rightarrow> Inl err
              | Inr t \<Rightarrow>
                  (case k_attach P t of
                     (Inl err, _) \<Rightarrow> Inl err
                   | (Inr _, c) \<Rightarrow> Inr (c, protocol)))))"

definition t_tcp_server_ssl :: "'a pyresult" where
  "t_tcp_server_ssl =
     Inl (NotImplementedError ''TokioEventLoop::_tcp_server_ssl not yet implemented'')"

definition t_udp_conn :: "'a pyresult" where
  "t_udp_conn = Inl (NotImplementedError ''TokioEventLoop::_udp_conn not yet implemented'')"

section \<open>Listeners\<close>

text \<open>
  A listener with the connections it has accepted, each with the program counter of its task, and
  the program counters of the accept loops that run on it: at the check of the closed flag, waiting
  in \<^verbatim>\<open>accept\<close>, or ended.
\<close>

datatype acpc = AcCheck | AcWait | AcDone

record TokioTCPServer =
  sv_fd :: nat
  sv_conns :: "(kpc \<times> TokioTCPTransport) list"
  sv_closed :: bool
  sv_loops :: "acpc list"

definition sv_from_fd :: "(nat \<Rightarrow> unit pyresult) \<Rightarrow> nat \<Rightarrow> TokioTCPServer pyresult" where
  "sv_from_fd convert fd =
     (case convert fd of
        Inl err \<Rightarrow> Inl err
      | Inr _ \<Rightarrow> Inr \<lparr>sv_fd = fd, sv_conns = [], sv_closed = False, sv_loops = []\<rparr>)"

definition sv_start_listening :: "TokioTCPServer \<Rightarrow> TokioTCPServer" where
  "sv_start_listening s = s\<lparr>sv_loops := sv_loops s @ [AcCheck]\<rparr>"

definition sv_close :: "TokioTCPServer \<Rightarrow> TokioTCPServer" where
  "sv_close s =
     (if sv_closed s then s
      else s\<lparr>sv_closed := True, sv_conns := map (\<lambda>(pc, t). (pc, k_close t)) (sv_conns s)\<rparr>)"

definition sv_is_serving :: "TokioTCPServer \<Rightarrow> bool" where
  "sv_is_serving s = (\<not> sv_closed s)"

text \<open>\<^verbatim>\<open>create_transport_from_stream\<close>: the protocol first, then the socket object.\<close>

definition create_transport_from_stream ::
  "pyobj pyresult \<Rightarrow> pyobj pyresult \<Rightarrow> nat \<Rightarrow> string option \<Rightarrow> string option \<Rightarrow> TokioTCPTransport pyresult" where
  "create_transport_from_stream made py_sock fd local peer =
     (case made of
        Inl err \<Rightarrow> Inl err
      | Inr protocol \<Rightarrow>
          (case py_sock of
             Inl err \<Rightarrow> Inl err
           | Inr s \<Rightarrow> Inr (TokioTCPTransport_new fd local peer protocol s)))"

text \<open>
  What an accept loop does with an accepted stream: a transport that could not be made is only
  logged, and so is an error of \<^verbatim>\<open>attach\<close>.
\<close>

definition sv_accepted :: "kpy \<Rightarrow> TokioTCPTransport pyresult \<Rightarrow> TokioTCPServer \<Rightarrow> TokioTCPServer" where
  "sv_accepted P made s =
     (case made of
        Inl err \<Rightarrow> s
      | Inr t \<Rightarrow> s\<lparr>sv_conns := sv_conns s @ [snd (k_attach P t)]\<rparr>)"

text \<open>
  The steps of a listener: its accept loops, the tasks of its connections, and \<^verbatim>\<open>close\<close>. Only
  \<^verbatim>\<open>start_listening\<close> is left out, which adds loops.
\<close>

inductive sv_step :: "kpy \<Rightarrow> TokioTCPServer \<Rightarrow> TokioTCPServer \<Rightarrow> bool" for P where
  ac_check: "i < length (sv_loops s) \<Longrightarrow> sv_loops s ! i = AcCheck \<Longrightarrow>
     sv_step P s (s\<lparr>sv_loops := (sv_loops s)[i := if sv_closed s then AcDone else AcWait]\<rparr>)"
| ac_accept: "i < length (sv_loops s) \<Longrightarrow> sv_loops s ! i = AcWait \<Longrightarrow>
     sv_step P s (sv_accepted P (create_transport_from_stream made py_sock fd local peer)
       (s\<lparr>sv_loops := (sv_loops s)[i := AcCheck]\<rparr>))"
| ac_error: "i < length (sv_loops s) \<Longrightarrow> sv_loops s ! i = AcWait \<Longrightarrow>
     sv_step P s (s\<lparr>sv_loops := (sv_loops s)[i := AcCheck]\<rparr>)"
| sv_conn: "j < length (sv_conns s) \<Longrightarrow> k_step P (sv_conns s ! j) c \<Longrightarrow>
     sv_step P s (s\<lparr>sv_conns := (sv_conns s)[j := c]\<rparr>)"
| sv_do_close: "sv_step P s (sv_close s)"

section \<open>The server object\<close>

record TokioServer =
  ks_closed :: bool
  ks_serving :: bool
  ks_servers :: "TokioTCPServer list"

definition TokioServer_tcp :: "TokioTCPServer list \<Rightarrow> TokioServer" where
  "TokioServer_tcp servers = \<lparr>ks_closed = False, ks_serving = False, ks_servers = servers\<rparr>"

definition ks_start_serving :: "TokioServer \<Rightarrow> TokioServer" where
  "ks_start_serving s = s\<lparr>ks_servers := map sv_start_listening (ks_servers s), ks_serving := True\<rparr>"

definition ks_is_serving :: "TokioServer \<Rightarrow> bool" where
  "ks_is_serving s = ks_serving s"

definition ks_close :: "TokioServer \<Rightarrow> TokioServer" where
  "ks_close s =
     (let s1 = (if \<not> ks_closed s
                then s\<lparr>ks_closed := True, ks_servers := map sv_close (ks_servers s)\<rparr> else s)
      in s1\<lparr>ks_serving := False\<rparr>)"

definition ks_streams_close :: "TokioServer \<Rightarrow> TokioServer" where
  "ks_streams_close s = s\<lparr>ks_servers := map sv_close (ks_servers s)\<rparr>"

definition ks_streams_abort :: "TokioServer \<Rightarrow> TokioServer" where
  "ks_streams_abort s = s\<lparr>ks_servers := map sv_close (ks_servers s)\<rparr>"

text \<open>\<^verbatim>\<open>_tcp_server\<close>: every listener is made and starts its accept loop at once.\<close>

fun listen_each :: "(nat \<Rightarrow> unit pyresult) \<Rightarrow> nat list \<Rightarrow> TokioTCPServer list pyresult" where
  "listen_each convert [] = Inr []"
| "listen_each convert (fd # fds) =
     (case sv_from_fd convert fd of
        Inl err \<Rightarrow> Inl err
      | Inr server \<Rightarrow>
          (case listen_each convert fds of
             Inl err \<Rightarrow> Inl err
           | Inr servers \<Rightarrow> Inr (sv_start_listening server # servers)))"

definition t_tcp_server :: "(nat \<Rightarrow> unit pyresult) \<Rightarrow> nat list \<Rightarrow> TokioServer pyresult" where
  "t_tcp_server convert fds =
     (case listen_each convert fds of
        Inl err \<Rightarrow> Inl err
      | Inr servers \<Rightarrow> Inr (TokioServer_tcp servers))"

section \<open>After closing\<close>

definition waiting :: "TokioTCPServer \<Rightarrow> nat" where
  "waiting s = length (filter (\<lambda>x. x = AcWait) (sv_loops s))"

lemma filter_upd:
  "i < length xs \<Longrightarrow> length (filter P (xs[i := x])) + (if P (xs ! i) then 1 else 0)
     = length (filter P xs) + (if P x then 1 else 0)"
proof (induction xs arbitrary: i)
  case (Cons y ys)
  then show ?case by (cases i) auto
qed simp

lemma k_step_closing:
  assumes "k_step P c c'" "k_py_uses_api P" "k_closing (k_state (snd c))"
  shows "k_closing (k_state (snd c'))"
proof -
  have rd: "k_closing (k_state (snd (k_on_read P r t)))" if "k_closing (k_state t)" for r t
    using that assms(2) by (cases r) (auto simp: k_upd_def k_call_closing)
  show ?thesis
    using assms
  proof (induction rule: k_step.induct)
    case (k_sel_write t data sd t' re)
    then show ?case by (auto simp: k_pop_write_def k_upd_def Let_def split: prod.splits)
  qed (auto simp: k_upd_def k_emit_def rd k_call_closing k_api_closing call_connection_lost_def)
qed

text \<open>
  Of a closed listener: the first \<open>n\<close> connections are closing, and the connections and the loops
  that still wait in \<^verbatim>\<open>accept\<close> are together at most \<open>m\<close>.
\<close>

definition shut :: "nat \<Rightarrow> nat \<Rightarrow> TokioTCPServer \<Rightarrow> bool" where
  "shut n m s =
     (sv_closed s \<and> n \<le> length (sv_conns s) \<and> length (sv_conns s) + waiting s \<le> m
      \<and> (\<forall>j < n. k_closing (k_state (snd (sv_conns s ! j)))))"

lemma sv_step_shut: "sv_step P s s' \<Longrightarrow> k_py_uses_api P \<Longrightarrow> shut n m s \<Longrightarrow> shut n m s'"
proof (induction rule: sv_step.induct)
  case (ac_check i s)
  then show ?case using filter_upd [of i "sv_loops s" "\<lambda>x. x = AcWait" AcDone]
    by (auto simp: shut_def waiting_def)
next
  case (ac_accept i s made py_sock fd local peer)
  then show ?case using filter_upd [of i "sv_loops s" "\<lambda>x. x = AcWait" AcCheck]
    by (auto simp: shut_def waiting_def sv_accepted_def nth_append split: sum.splits)
next
  case (ac_error i s)
  then show ?case using filter_upd [of i "sv_loops s" "\<lambda>x. x = AcWait" AcCheck]
    by (auto simp: shut_def waiting_def)
next
  case (sv_conn j s c)
  then show ?case using k_step_closing [OF sv_conn(2)]
    by (auto simp: shut_def waiting_def nth_list_update)
qed (auto simp: shut_def sv_close_def)

interpretation svc: step_system "sv_step P" "shut n m" "k_py_uses_api P" for P n m
  by unfold_locales (rule sv_step_shut)

text \<open>
  C27. Closing a listener of the second loop, none of whose connections is in the middle of a method
  that changes a flag (so that the flags agree with those under the lock). It stops serving, every connection accepted before is
  closing, in every continuation, and closing again changes nothing. But an accept loop that is
  already waiting in \<^verbatim>\<open>accept\<close> does not see the flag until it has accepted once more: each of them
  can add one connection, and no more, and that connection is not closed.
\<close>

theorem tokio_server_close:
  assumes "k_py_uses_api P" "\<not> sv_closed s" "\<forall>c \<in> set (sv_conns s). flags_agree (snd c)"
    and "(sv_step P)\<^sup>*\<^sup>* (sv_close s) s'"
  shows "\<not> sv_is_serving s' \<and> sv_close s' = s'
    \<and> (\<forall>j < length (sv_conns s). k_closing (k_state (snd (sv_conns s' ! j))))
    \<and> length (sv_conns s') \<le> length (sv_conns s) + waiting s
    \<and> (0 < waiting s \<longrightarrow> (\<forall>fd p. \<exists>s''. sv_step P (sv_close s) s'' \<and>
         sv_conns s'' = sv_conns (sv_close s)
           @ [snd (k_attach P (TokioTCPTransport_new fd None None p 6))]))"
proof -
  have closes: "k_closing (k_state (k_close t))" if "flags_agree t" for t
    using that by (auto simp: k_close_def k_upd_def flags_agree_def)
  have "shut (length (sv_conns s)) (length (sv_conns s) + waiting s) (sv_close s)"
    using assms(2,3) closes
    by (auto simp: shut_def sv_close_def waiting_def case_prod_beta)
  from svc.run_inv [OF assms(4) this assms(1)]
  have sh: "shut (length (sv_conns s)) (length (sv_conns s) + waiting s) s'" .
  have more: "\<exists>s''. sv_step P (sv_close s) s'' \<and> sv_conns s'' = sv_conns (sv_close s)
      @ [snd (k_attach P (TokioTCPTransport_new fd None None p 6))]" if "0 < waiting s" for fd p
  proof -
    from that have "AcWait \<in> set (sv_loops s)" by (auto simp: waiting_def filter_empty_conv)
    then obtain i where "i < length (sv_loops s)" "sv_loops s ! i = AcWait"
      by (auto simp: in_set_conv_nth)
    then have "i < length (sv_loops (sv_close s))" "sv_loops (sv_close s) ! i = AcWait"
      by (simp_all add: sv_close_def)
    from ac_accept [OF this, of P "Inr p" "Inr 6" fd None None] show ?thesis
      by (intro exI conjI) (auto simp: create_transport_from_stream_def sv_accepted_def)
  qed
  show ?thesis using sh more by (auto simp: shut_def sv_is_serving_def sv_close_def)
qed

theorem tokio_server_close_witness:
  "k_py_uses_api quiet_kpy
   \<and> (let s = \<lparr>sv_fd = 3, sv_conns = [(KTop, k_demo)], sv_closed = False, sv_loops = [AcWait]\<rparr>
      in waiting s = 1 \<and> k_closing (k_state (snd (sv_conns (sv_close s) ! 0)))
         \<and> (\<exists>s'' c. sv_step quiet_kpy (sv_close s) s'' \<and> sv_conns s'' = sv_conns (sv_close s) @ [c]
              \<and> \<not> k_closing (k_state (snd c))))"
proof -
  let ?s = "\<lparr>sv_fd = 3, sv_conns = [(KTop, k_demo)], sv_closed = False, sv_loops = [AcWait]\<rparr>"
  have w: "waiting ?s = 1" by (simp add: waiting_def)
  have f: "\<forall>c \<in> set (sv_conns ?s). flags_agree (snd c)" by (simp add: flags_agree_def)
  have o: "\<not> sv_closed ?s" by simp
  have n: "\<not> k_closing (k_state (snd (snd (k_attach quiet_kpy (TokioTCPTransport_new 9 None None 5 6)))))"
    by (simp add: k_attach_def k_start_io_task_def TokioTCPTransport_new_def k_upd_def quiet_kpy_def
        k_emit_def)
  note T = tokio_server_close [OF quiet_kpy_ok o f, of "sv_close ?s"]
  have "k_closing (k_state (snd (sv_conns (sv_close ?s) ! 0)))" using T by simp
  moreover have "\<exists>s'' c. sv_step quiet_kpy (sv_close ?s) s'' \<and> sv_conns s'' = sv_conns (sv_close ?s) @ [c]
      \<and> \<not> k_closing (k_state (snd c))"
    using T w n by (metis (no_types, lifting) rtranclp.rtrancl_refl zero_less_one)
  ultimately show ?thesis using w quiet_kpy_ok unfolding Let_def by blast
qed

section \<open>Constructors\<close>

lemma listen_each_loops:
  "listen_each convert fds = Inr svs \<Longrightarrow>
     map sv_fd svs = fds \<and> (\<forall>s \<in> set svs. sv_loops s = [AcCheck] \<and> sv_conns s = [] \<and> \<not> sv_closed s)"
proof (induction fds arbitrary: svs)
  case (Cons fd fds)
  then show ?case
    by (auto simp: sv_from_fd_def sv_start_listening_def split: sum.splits)
qed auto

lemma k_py_protocol: "k_py_uses_api P \<Longrightarrow> k_protocol (snd (P c t)) = k_protocol t"
proof -
  have "k_api\<^sup>*\<^sup>* t t' \<Longrightarrow> k_protocol t' = k_protocol t" for t t'
    by (induction rule: rtranclp_induct) (auto dest: k_api_frame)
  then show "k_py_uses_api P \<Longrightarrow> k_protocol (snd (P c t)) = k_protocol t"
    by (simp add: k_py_uses_api_def)
qed

text \<open>
  The constructors of the second loop. A connection with TLS is refused. \<^verbatim>\<open>_tcp_conn\<close> calls the
  protocol factory twice: the protocol it returns is the first, the one its transport delivers to is
  the second. A server made by \<^verbatim>\<open>_tcp_server\<close> already accepts on every listener while it says it is
  not serving, and \<^verbatim>\<open>_start_serving\<close> then starts a second accept loop on each. After \<^verbatim>\<open>_close\<close> it is
  not serving and every listener is closed; a second \<^verbatim>\<open>_close\<close> does nothing. \<^verbatim>\<open>_streams_close\<close> and
  \<^verbatim>\<open>_streams_abort\<close> close the listeners too.
\<close>

theorem tokio_constructors:
  assumes "t_tcp_conn P e fd has_ssl_context = Inr ((pc, t), protocol)" "t_tcp_server convert fds = Inr k"
    and "k_py_uses_api P"
  shows "\<not> has_ssl_context \<and> ce_factory e 0 = Inr protocol \<and> ce_factory e 1 = Inr (k_protocol t)
    \<and> pc = KStart
    \<and> map sv_fd (ks_servers k) = fds \<and> \<not> ks_is_serving k
    \<and> (\<forall>s \<in> set (ks_servers k). sv_loops s = [AcCheck])
    \<and> ks_is_serving (ks_start_serving k)
    \<and> (\<forall>s \<in> set (ks_servers (ks_start_serving k)). sv_loops s = [AcCheck, AcCheck])
    \<and> \<not> ks_is_serving (ks_close k) \<and> (\<forall>s \<in> set (ks_servers (ks_close k)). \<not> sv_is_serving s)
    \<and> ks_close (ks_close k) = ks_close k
    \<and> (\<forall>s \<in> set (ks_servers (ks_streams_close k)) \<union> set (ks_servers (ks_streams_abort k)). \<not> sv_is_serving s)"
proof -
  have conn: "\<not> has_ssl_context \<and> ce_factory e 0 = Inr protocol \<and> ce_factory e 1 = Inr (k_protocol t)
      \<and> pc = KStart"
    using assms(1) k_py_protocol [OF assms(3)]
    by (auto simp: t_tcp_conn_def k_from_py_def k_attach_def k_start_io_task_def k_upd_def k_emit_def
        TokioTCPTransport_new_def Let_def split: if_splits sum.splits prod.splits pyres.splits)
      (metis TokioTCPTransport.select_convs(3) TokioTCPTransport.update_convs(8) snd_conv)+
  obtain svs where k: "listen_each convert fds = Inr svs" "k = TokioServer_tcp svs"
    using assms(2) by (auto simp: t_tcp_server_def split: sum.splits)
  show ?thesis
    using conn listen_each_loops [OF k(1)]
    by (auto simp: k(2) TokioServer_tcp_def ks_is_serving_def ks_start_serving_def ks_close_def
        sv_start_listening_def sv_is_serving_def sv_close_def ks_streams_close_def
        ks_streams_abort_def Let_def)
qed

theorem tokio_constructors_witness:
  "\<exists>t k. t_tcp_conn quiet_kpy \<lparr>ce_convert = Inr (None, None), ce_factory = (\<lambda>n. Inr (20 + n)), ce_socket = Inr 6\<rparr>
           7 False = Inr ((KStart, t), 20)
     \<and> k_protocol t = 21 \<and> t_tcp_server (\<lambda>fd. Inr ()) [3, 4] = Inr k
     \<and> map sv_loops (ks_servers (ks_start_serving k)) = [[AcCheck, AcCheck], [AcCheck, AcCheck]]"
proof -
  let ?e = "\<lparr>ce_convert = Inr (None, None), ce_factory = (\<lambda>n. Inr (20 + n)), ce_socket = Inr 6\<rparr>"
  have "\<exists>t. t_tcp_conn quiet_kpy ?e 7 False = Inr ((KStart, t), 20)"
    by (simp add: t_tcp_conn_def k_from_py_def k_attach_def k_start_io_task_def quiet_kpy_def Let_def)
  then obtain t where a: "t_tcp_conn quiet_kpy ?e 7 False = Inr ((KStart, t), 20)" by blast
  obtain k where b: "t_tcp_server (\<lambda>fd. Inr ()) [3, 4] = Inr k"
    by (simp add: t_tcp_server_def sv_from_fd_def)
  note T = tokio_constructors [OF a b quiet_kpy_ok]
  have "k_protocol t = 21" "map sv_fd (ks_servers k) = [3, 4]"
    "\<forall>s \<in> set (ks_servers (ks_start_serving k)). sv_loops s = [AcCheck, AcCheck]"
    using T by simp_all
  moreover from this(2) have "length (ks_servers (ks_start_serving k)) = 2"
    by (simp add: ks_start_serving_def) (metis length_map length_Cons list.size(3) numeral_2_eq_2)
  ultimately show ?thesis using a b
    by (auto simp: numeral_2_eq_2 length_Suc_conv)
qed

end
