(* ===== verification/Tokio_Sockets.thy ===== *)
theory Tokio_Sockets
  imports Tokio_Server
begin

text \<open>
  What the second loop does with the descriptors Python hands over (\<^verbatim>\<open>_try_socket2_conversion\<close> and
  the conversions around it in \<^verbatim>\<open>tokio_tcp.rs\<close>), who owns them afterwards, and the stub of UDP
  transports in \<^verbatim>\<open>tokio_udp.rs\<close>.
\<close>

section \<open>Conversions\<close>

text \<open>
  The calls on a descriptor. The answers of \<^verbatim>\<open>set_nonblocking\<close> and of \<^verbatim>\<open>from_std\<close> are
  arguments, \<open>None\<close> for success or the text of the error; that of \<^verbatim>\<open>listen\<close> is ignored by
  the code. A socket dropped on an error path closes its descriptor.
\<close>

datatype sock_call = SetNonblocking fd | ListenOn fd int | CloseFd fd

definition socket2_conversion :: "string option \<Rightarrow> fd \<Rightarrow> int \<Rightarrow> unit pyresult \<times> sock_call list" where
  "socket2_conversion nonblocking f backlog =
     (case nonblocking of
        Some e \<Rightarrow> (Inl (RuntimeError (''Failed to set socket nonblocking: '' @ e)), [SetNonblocking f, CloseFd f])
      | None \<Rightarrow> (Inr (), SetNonblocking f # (if backlog \<noteq> 0 then [ListenOn f backlog] else [])))"

text \<open>The first half of \<^verbatim>\<open>TokioTCPTransport::from_py\<close> and of \<^verbatim>\<open>TokioTCPServer::from_fd\<close>.\<close>

definition stream_conversion ::
  "string option \<Rightarrow> string option \<Rightarrow> string option \<times> string option \<Rightarrow> fd
     \<Rightarrow> (string option \<times> string option) pyresult \<times> sock_call list" where
  "stream_conversion nonblocking std addrs f =
     (case socket2_conversion nonblocking f 0 of
        (Inl e, calls) \<Rightarrow> (Inl e, calls)
      | (Inr _, calls) \<Rightarrow>
          (case std of
             Some e \<Rightarrow> (Inl (RuntimeError (''Failed to convert socket to tokio stream: '' @ e)), calls @ [CloseFd f])
           | None \<Rightarrow> (Inr addrs, calls)))"

definition listener_conversion ::
  "string option \<Rightarrow> string option \<Rightarrow> int \<Rightarrow> fd \<Rightarrow> unit pyresult \<times> sock_call list" where
  "listener_conversion nonblocking std backlog f =
     (case socket2_conversion nonblocking f backlog of
        (Inl e, calls) \<Rightarrow> (Inl e, calls)
      | (Inr _, calls) \<Rightarrow>
          (case std of
             Some e \<Rightarrow> (Inl (RuntimeError (''Failed to convert socket2 to tokio listener: '' @ e)), calls @ [CloseFd f])
           | None \<Rightarrow> (Inr (), calls)))"

text \<open>
  Who can still close the descriptor of a connection when \<^verbatim>\<open>_tcp_conn\<close> is done: nobody in the
  program if it was never converted, the stream, or the stream and the Python socket object made from
  the same number.
\<close>

datatype fd_owner = OwnStream | OwnPySocket

definition conn_fd ::
  "string option \<Rightarrow> string option \<Rightarrow> conn_env \<Rightarrow> fd \<Rightarrow> bool \<Rightarrow> sock_call list \<times> fd_owner list" where
  "conn_fd nonblocking std e f has_ssl_context =
     (if has_ssl_context then ([], [])
      else
        (case ce_factory e 0 of
           Inl _ \<Rightarrow> ([], [])
         | Inr _ \<Rightarrow>
             (case stream_conversion nonblocking std (None, None) f of
                (Inl _, calls) \<Rightarrow> (calls, [])
              | (Inr _, calls) \<Rightarrow>
                  (case ce_factory e 1 of
                     Inl _ \<Rightarrow> (calls @ [CloseFd f], [])
                   | Inr _ \<Rightarrow>
                       (case ce_socket e of
                          Inl _ \<Rightarrow> (calls @ [CloseFd f], [])
                        | Inr _ \<Rightarrow> (calls, [OwnStream, OwnPySocket]))))))"

lemma conversion_closes:
  "fst (listener_conversion nb std backlog f) = Inr () \<Longrightarrow> CloseFd f \<notin> set (snd (listener_conversion nb std backlog f))"
  "fst (listener_conversion nb std backlog f) = Inl e \<Longrightarrow> count_list (snd (listener_conversion nb std backlog f)) (CloseFd f) = 1"
  by (auto simp: listener_conversion_def socket2_conversion_def split: option.splits)

text \<open>
  The descriptor Python detached from its socket. When the transport is made, it has two owners.
  When the call fails after the conversion began, it was closed exactly once; when it fails before (a
  TLS context, or a factory that raises), nothing has closed it and nobody owns it.
\<close>

theorem tokio_conn_descriptor:
  assumes conv: "ce_convert e = fst (stream_conversion nb std addrs f)"
  shows "(\<exists>t p. t_tcp_conn P e f ssl = Inr (t, p)) \<longrightarrow>
       conn_fd nb std e f ssl = ([SetNonblocking f], [OwnStream, OwnPySocket])"
    "t_tcp_conn P e f ssl = Inl err \<longrightarrow>
       (if ssl \<or> (\<exists>x. ce_factory e 0 = Inl x) then conn_fd nb std e f ssl = ([], [])
        else count_list (fst (conn_fd nb std e f ssl)) (CloseFd f) = 1 \<and> snd (conn_fd nb std e f ssl) = []
          \<or> (\<exists>t. k_from_py e 1 f = Inr t) \<and> snd (conn_fd nb std e f ssl) = [OwnStream, OwnPySocket])"
  using assms
  by (auto simp: conn_fd_def t_tcp_conn_def k_from_py_def stream_conversion_def socket2_conversion_def
      split: sum.splits option.splits if_splits prod.splits)

section \<open>Small methods\<close>

definition k_is_tls :: "TokioTCPTransport \<Rightarrow> bool" where
  "k_is_tls t = False"

definition k_get_local_addr :: "TokioTCPTransport \<Rightarrow> string + string" where
  "k_get_local_addr t =
     (case k_local_addr (k_state t) of Some a \<Rightarrow> Inr a | None \<Rightarrow> Inl ''Local address not available'')"

definition k_get_remote_addr :: "TokioTCPTransport \<Rightarrow> string + string" where
  "k_get_remote_addr t =
     (case k_peer_addr (k_state t) of Some a \<Rightarrow> Inr a | None \<Rightarrow> Inl ''Peer address not available'')"

definition TokioServer_mock :: TokioServer where
  "TokioServer_mock = \<lparr>ks_closed = False, ks_serving = False, ks_servers = []\<rparr>"

lemma mock_server: "ks_is_serving (ks_start_serving TokioServer_mock)" "ks_servers (ks_start_serving TokioServer_mock) = []"
  by (simp_all add: TokioServer_mock_def ks_start_serving_def ks_is_serving_def)

section \<open>The UDP stub\<close>

text \<open>
  No socket is made from the descriptor; every method answers a constant. \<^verbatim>\<open>fd as usize\<close>
  wraps a negative number.
\<close>

record TokioUDPTransport =
  ku_fd :: nat
  ku_remote_addr :: "addr option"

definition ku_from_py :: "int \<times> int \<Rightarrow> pyobj \<Rightarrow> addr option \<Rightarrow> TokioUDPTransport" where
  "ku_from_py sock protocol_factory remote_addr =
     (case sock of (f, family) \<Rightarrow> \<lparr>ku_fd = nat (f mod 2 ^ 64), ku_remote_addr = remote_addr\<rparr>)"

definition ku_attach :: "pyobj \<Rightarrow> TokioUDPTransport \<Rightarrow> pyobj pyresult" where
  "ku_attach none t = Inr none"

definition ku_get_local_addr :: "TokioUDPTransport \<Rightarrow> string + string" where
  "ku_get_local_addr t = Inr ''127.0.0.1:0''"

definition ku_get_extra_info :: "pyobj \<Rightarrow> TokioUDPTransport \<Rightarrow> string \<Rightarrow> pyobj option \<Rightarrow> pyobj pyresult" where
  "ku_get_extra_info none t name dflt = Inr (case dflt of Some d \<Rightarrow> d | None \<Rightarrow> none)"

definition ku_sendto :: "TokioUDPTransport \<Rightarrow> pyobj \<Rightarrow> addr option \<Rightarrow> unit pyresult" where
  "ku_sendto t data a = Inr ()"

definition ku_pause_reading :: "TokioUDPTransport \<Rightarrow> TokioUDPTransport" where
  "ku_pause_reading t = t"

definition ku_resume_reading :: "TokioUDPTransport \<Rightarrow> TokioUDPTransport" where
  "ku_resume_reading t = t"

definition ku_close :: "TokioUDPTransport \<Rightarrow> TokioUDPTransport" where
  "ku_close t = t"

definition ku_abort :: "TokioUDPTransport \<Rightarrow> TokioUDPTransport" where
  "ku_abort t = t"

definition ku_is_reading :: "TokioUDPTransport \<Rightarrow> bool" where
  "ku_is_reading t = False"

definition ku_is_closing :: "TokioUDPTransport \<Rightarrow> bool" where
  "ku_is_closing t = False"

text \<open>The stub never shows that it was closed, and reports datagrams as sent.\<close>

lemma udp_stub: "\<not> ku_is_closing (ku_abort (ku_close t))" "ku_sendto (ku_close t) data a = Inr ()"
  "\<not> ku_is_reading (ku_resume_reading t)"
  by (simp_all add: ku_is_closing_def ku_sendto_def ku_is_reading_def)

end
