(* ===== verification/Tokio_Extra_Info.thy ===== *)
theory Tokio_Extra_Info
  imports Tokio_Tcp
begin

text \<open>
  \<^verbatim>\<open>get_extra_info\<close> of the second loop's transport (\<^verbatim>\<open>tokio_tcp.rs\<close>). The addresses are kept as
  \<^verbatim>\<open>SocketAddr\<close>, printed, split again at the last colon and the port parsed back.
\<close>

section \<open>Parts of the standard library\<close>

text \<open>\<^verbatim>\<open>str::rsplit_once(':')\<close>.\<close>

definition rsplit_once :: "char \<Rightarrow> string \<Rightarrow> (string \<times> string) option" where
  "rsplit_once c s =
     (if c \<in> set s
      then Some (rev (tl (dropWhile (\<lambda>x. x \<noteq> c) (rev s))), rev (takeWhile (\<lambda>x. x \<noteq> c) (rev s)))
      else None)"

text \<open>\<^verbatim>\<open>str::parse::<u16>\<close>: an optional plus sign, then decimal digits, at most 65535.\<close>

definition digit_val :: "char \<Rightarrow> nat option" where
  "digit_val c = (if 48 \<le> (of_char c :: nat) \<and> (of_char c :: nat) \<le> 57 then Some (of_char c - 48) else None)"

fun parse_digits :: "nat \<Rightarrow> string \<Rightarrow> nat option" where
  "parse_digits acc [] = Some acc"
| "parse_digits acc (c # cs) =
     (case digit_val c of
        None \<Rightarrow> None
      | Some d \<Rightarrow> if acc * 10 + d \<le> 65535 then parse_digits (acc * 10 + d) cs else None)"

definition parse_u16 :: "string \<Rightarrow> nat option" where
  "parse_u16 s =
     (let ds = (case s of c # cs \<Rightarrow> if c = CHR ''+'' then cs else s | [] \<Rightarrow> s)
      in if ds = [] then None else parse_digits 0 ds)"

text \<open>\<^verbatim>\<open>Display\<close> of a number, and of \<^verbatim>\<open>SocketAddr\<close>: an IPv6 address is put in brackets.\<close>

function show_nat :: "nat \<Rightarrow> string" where
  "show_nat n = (if n < 10 then [char_of (48 + n)] else show_nat (n div 10) @ [char_of (48 + n mod 10)])"
  by pat_completeness auto
termination by (relation "measure id") auto

declare show_nat.simps [simp del]

datatype sockaddr = V4 string nat | V6 string nat

fun show_sockaddr :: "sockaddr \<Rightarrow> string" where
  "show_sockaddr (V4 host port) = host @ '':'' @ show_nat port"
| "show_sockaddr (V6 host port) = ''['' @ host @ '']:'' @ show_nat port"

section \<open>\<^verbatim>\<open>get_extra_info\<close>\<close>

datatype extra_info = InfoObj pyobj | InfoAddr string nat

definition addr_tuple :: "string \<Rightarrow> (string \<times> nat) option" where
  "addr_tuple addr =
     (case rsplit_once (CHR '':'') addr of
        Some (host_part, port_part) \<Rightarrow>
          Some (host_part, case parse_u16 port_part of Some p \<Rightarrow> p | None \<Rightarrow> 0)
      | None \<Rightarrow> None)"

definition get_extra_info ::
  "pyobj \<Rightarrow> TokioTCPTransport \<Rightarrow> string \<Rightarrow> pyobj option \<Rightarrow> extra_info" where
  "get_extra_info none t name dft =
     (let dflt = InfoObj (case dft of Some d \<Rightarrow> d | None \<Rightarrow> none);
          addr = (\<lambda>a. case Option.bind a addr_tuple of Some (h, p) \<Rightarrow> InfoAddr h p | None \<Rightarrow> dflt)
      in if name = ''socket'' then (case k_extra t ''socket'' of Some x \<Rightarrow> InfoObj x | None \<Rightarrow> dflt)
         else if name = ''sockname'' then addr (k_local_addr (k_state t))
         else if name = ''peername'' then addr (k_peer_addr (k_state t))
         else (case k_extra t name of Some x \<Rightarrow> InfoObj x | None \<Rightarrow> dflt))"

section \<open>Round trip\<close>

lemma of_char_of_nat: "n < 256 \<Longrightarrow> of_char (char_of n :: char) = (n :: nat)"
  by (simp add: take_bit_eq_mod)

lemma digit_val_char: "d < 10 \<Longrightarrow> digit_val (char_of (48 + d)) = Some d"
  by (simp add: digit_val_def of_char_of_nat)

lemma parse_digits_append:
  "parse_digits acc (xs @ ys) = (case parse_digits acc xs of None \<Rightarrow> None | Some a \<Rightarrow> parse_digits a ys)"
  by (induction acc xs rule: parse_digits.induct) (auto split: option.splits)

lemma parse_show: "n \<le> 65535 \<Longrightarrow> parse_digits 0 (show_nat n) = Some n"
proof (induction n rule: show_nat.induct)
  case (1 n)
  show ?case
  proof (cases "n < 10")
    case True
    then show ?thesis using 1(2) by (simp add: show_nat.simps [of n] digit_val_char)
  next
    case False
    have "n div 10 * 10 + n mod 10 = n" by simp
    then show ?thesis
      using 1 False
      by (simp add: show_nat.simps [of n] parse_digits_append digit_val_char)
  qed
qed

lemma show_nat_digits: "c \<in> set (show_nat n) \<Longrightarrow> \<exists>d < 10. c = char_of (48 + d :: nat)"
proof (induction n rule: show_nat.induct)
  case (1 n)
  then show ?case
    by (subst (asm) (2) show_nat.simps) (auto split: if_splits intro: exI [of _ "n mod 10"])
qed

lemma char_of_neq: "n < 256 \<Longrightarrow> of_char c \<noteq> n \<Longrightarrow> char_of (n :: nat) \<noteq> c"
  using of_char_of_nat [of n] by auto

lemma digit_not:
  assumes "d < 10"
  shows "char_of (48 + d :: nat) \<noteq> CHR '':'' \<and> char_of (48 + d :: nat) \<noteq> CHR ''+''"
  using assms by (intro conjI char_of_neq) simp_all

lemma show_nat_plain: "CHR '':'' \<notin> set (show_nat n) \<and> CHR ''+'' \<notin> set (show_nat n)"
  using show_nat_digits digit_not by metis

lemma show_nat_nonempty [simp]: "show_nat n \<noteq> []"
  by (simp add: show_nat.simps [of n])

lemma parse_u16_show: "n \<le> 65535 \<Longrightarrow> parse_u16 (show_nat n) = Some n"
proof -
  assume n: "n \<le> 65535"
  obtain c cs where s: "show_nat n = c # cs" by (meson list.exhaust show_nat_nonempty)
  then have "c \<noteq> CHR ''+''" using show_nat_plain [of n] by auto
  then show ?thesis using parse_show [OF n] s by (simp add: parse_u16_def)
qed

lemma rsplit_once_last: "c \<notin> set ys \<Longrightarrow> rsplit_once c (xs @ c # ys) = Some (xs, ys)"
proof -
  assume "c \<notin> set ys"
  then have "\<forall>x \<in> set (rev ys). x \<noteq> c" by auto
  then have "takeWhile (\<lambda>x. x \<noteq> c) (rev ys @ c # rev xs) = rev ys"
    "dropWhile (\<lambda>x. x \<noteq> c) (rev ys @ c # rev xs) = c # rev xs"
    by (subst takeWhile_append2 dropWhile_append2; simp)+
  then show ?thesis by (simp add: rsplit_once_def)
qed

text \<open>
  C25. \<^verbatim>\<open>get_extra_info\<close> for \<^verbatim>\<open>"sockname"\<close> and \<^verbatim>\<open>"peername"\<close>: printing an address, splitting it at the
  last colon and parsing the port gives back the host and the port of an IPv4 address; of an IPv6
  address it gives the host with the brackets around it, which is not the address. Without an
  address, the answer is the default or \<^verbatim>\<open>None\<close>.
\<close>

theorem sockname_roundtrip:
  assumes "port \<le> 65535"
  shows "get_extra_info none (t\<lparr>k_state := (k_state t)\<lparr>k_local_addr := Some (show_sockaddr (V4 host port))\<rparr>\<rparr>)
           ''sockname'' dft = InfoAddr host port
    \<and> get_extra_info none (t\<lparr>k_state := (k_state t)\<lparr>k_peer_addr := Some (show_sockaddr (V4 host port))\<rparr>\<rparr>)
           ''peername'' dft = InfoAddr host port
    \<and> get_extra_info none (t\<lparr>k_state := (k_state t)\<lparr>k_peer_addr := Some (show_sockaddr (V6 host port))\<rparr>\<rparr>)
           ''peername'' dft = InfoAddr (''['' @ host @ '']'') port
    \<and> get_extra_info none (t\<lparr>k_state := (k_state t)\<lparr>k_peer_addr := None\<rparr>\<rparr>) ''peername'' dft
        = InfoObj (case dft of Some d \<Rightarrow> d | None \<Rightarrow> none)"
proof -
  have p: "CHR '':'' \<notin> set (show_nat port)" using show_nat_plain by simp
  have v4: "addr_tuple (show_sockaddr (V4 host port)) = Some (host, port)"
    using rsplit_once_last [OF p, of host] parse_u16_show [OF assms] by (simp add: addr_tuple_def)
  have v6: "addr_tuple (show_sockaddr (V6 host port)) = Some (''['' @ host @ '']'', port)"
    using rsplit_once_last [OF p, of "''['' @ host @ '']''"] parse_u16_show [OF assms]
    by (simp add: addr_tuple_def)
  show ?thesis using v4 v6 by (simp add: get_extra_info_def del: show_sockaddr.simps)
qed

theorem sockname_roundtrip_witness:
  "(8080 :: nat) \<le> 65535 \<and> show_sockaddr (V4 ''127.0.0.1'' 8080) = ''127.0.0.1:8080''
   \<and> get_extra_info 0 (k_demo\<lparr>k_state := (k_state k_demo)\<lparr>k_peer_addr := Some (show_sockaddr (V4 ''127.0.0.1'' 8080))\<rparr>\<rparr>)
       ''peername'' None = InfoAddr ''127.0.0.1'' 8080"
proof -
  have "char_of (56 :: nat) = CHR ''8''" "char_of (48 :: nat) = CHR ''0''"
    using char_of_char [of "CHR ''8''", where ?'a = nat] char_of_char [of "CHR ''0''", where ?'a = nat]
    by simp_all
  then have "show_nat 8080 = ''8080''"
    by (simp add: show_nat.simps [of 8080] show_nat.simps [of 808] show_nat.simps [of 80] show_nat.simps [of 8])
  then show ?thesis using sockname_roundtrip [where port = 8080 and none = 0 and t = k_demo
        and host = "''127.0.0.1''" and dft = None] by simp
qed

end
