(* ===== verification/Ssl_Config.thy ===== *)
theory Ssl_Config
  imports Loop_State
begin

text \<open>
  The TLS configurations of \<^verbatim>\<open>ssl.rs\<close>. The file system, the PEM reader, the certificate generator
  and rustls' check that a key fits its certificate are parameters.
\<close>

section \<open>Versions\<close>

datatype TLSVersion = TLS12 | TLS12_PLUS | TLS13

datatype tls_protocol = Proto12 | Proto13

text \<open>The argument is the variable \<^verbatim>\<open>RLOOP_TLS_VERSION\<close>, if it is set (and is Unicode).\<close>

definition get_tls_version_from_env :: "string option \<Rightarrow> TLSVersion option" where
  "get_tls_version_from_env var =
     (if var = Some ''1.2'' then Some TLS12
      else if var = Some ''1.2+'' then Some TLS12_PLUS
      else if var = Some ''1.3'' then Some TLS13
      else None)"

definition tls_default :: "tls_protocol list" where
  "tls_default = [Proto12]"

fun tls_versions :: "TLSVersion option \<Rightarrow> tls_protocol list" where
  "tls_versions (Some TLS12) = [Proto12]"
| "tls_versions (Some TLS12_PLUS) = [Proto12, Proto13]"
| "tls_versions (Some TLS13) = [Proto13]"
| "tls_versions None = tls_default"

section \<open>Server configurations\<close>

datatype pem_item =
    X509Certificate bytes
  | Pkcs8Key bytes
  | Pkcs1Key bytes
  | Sec1Key bytes
  | OtherItem

record ssl_env =
  fs_read :: "string \<Rightarrow> bytes pyresult"
  read_one :: "bytes \<Rightarrow> pem_item option pyresult"
  generate_self_signed :: "(bytes \<times> bytes) pyresult"
  single_cert :: "bytes \<Rightarrow> bytes \<Rightarrow> unit pyresult"

record ServerConfig =
  sc_versions :: "tls_protocol list"
  sc_cert :: bytes
  sc_key :: bytes

text \<open>The builder: no client authentication, one certificate, which must fit the key.\<close>

definition build_config :: "ssl_env \<Rightarrow> TLSVersion option \<Rightarrow> bytes \<Rightarrow> bytes \<Rightarrow> ServerConfig pyresult" where
  "build_config env ver cert key =
     (case single_cert env cert key of
        Inl err \<Rightarrow> Inl err
      | Inr _ \<Rightarrow> Inr \<lparr>sc_versions = tls_versions ver, sc_cert = cert, sc_key = key\<rparr>)"

definition create_ssl_config_with_version :: "ssl_env \<Rightarrow> TLSVersion option \<Rightarrow> ServerConfig pyresult" where
  "create_ssl_config_with_version env ver =
     (case generate_self_signed env of
        Inl err \<Rightarrow> Inl err
      | Inr (cert, key) \<Rightarrow> build_config env ver cert key)"

definition create_ssl_config :: "ssl_env \<Rightarrow> string option \<Rightarrow> ServerConfig pyresult" where
  "create_ssl_config env var = create_ssl_config_with_version env (get_tls_version_from_env var)"

definition load_cert :: "ssl_env \<Rightarrow> string \<Rightarrow> bytes pyresult" where
  "load_cert env certfile =
     (case fs_read env certfile of
        Inl err \<Rightarrow> Inl err
      | Inr cert_data \<Rightarrow>
          (case read_one env cert_data of
             Inl err \<Rightarrow> Inl err
           | Inr (Some (X509Certificate cert)) \<Rightarrow> Inr cert
           | Inr _ \<Rightarrow> Inl (RuntimeError ''failed to parse certificate'')))"

definition load_key :: "ssl_env \<Rightarrow> string \<Rightarrow> bytes pyresult" where
  "load_key env keyfile =
     (case fs_read env keyfile of
        Inl err \<Rightarrow> Inl err
      | Inr key_data \<Rightarrow>
          (case read_one env key_data of
             Inl err \<Rightarrow> Inl err
           | Inr (Some (Pkcs8Key key)) \<Rightarrow> Inr key
           | Inr (Some (Pkcs1Key key)) \<Rightarrow> Inr key
           | Inr (Some (Sec1Key key)) \<Rightarrow> Inr key
           | Inr _ \<Rightarrow> Inl (RuntimeError ''failed to parse private key'')))"

text \<open>
  \<open>certfile\<close> and \<open>keyfile\<close> are the attributes \<^verbatim>\<open>_certfile\<close> and \<^verbatim>\<open>_keyfile\<close> of the context, if it
  has them, extracted as strings. The rest of the context is not looked at.
\<close>

definition create_ssl_config_from_context_with_version ::
  "ssl_env \<Rightarrow> string pyresult option \<Rightarrow> string pyresult option \<Rightarrow> TLSVersion option
     \<Rightarrow> ServerConfig pyresult" where
  "create_ssl_config_from_context_with_version env certfile keyfile ver =
     (case (certfile, keyfile) of
        (Some c, Some k) \<Rightarrow>
          (case c of
             Inl err \<Rightarrow> Inl err
           | Inr cf \<Rightarrow>
               (case k of
                  Inl err \<Rightarrow> Inl err
                | Inr kf \<Rightarrow>
                    (case load_cert env cf of
                       Inl err \<Rightarrow> Inl err
                     | Inr cert \<Rightarrow>
                         (case load_key env kf of
                            Inl err \<Rightarrow> Inl err
                          | Inr key \<Rightarrow> build_config env ver cert key))))
      | _ \<Rightarrow> create_ssl_config_with_version env ver)"

definition create_ssl_config_from_context ::
  "ssl_env \<Rightarrow> string option \<Rightarrow> string pyresult option \<Rightarrow> string pyresult option \<Rightarrow> ServerConfig pyresult" where
  "create_ssl_config_from_context env var certfile keyfile =
     create_ssl_config_from_context_with_version env certfile keyfile (get_tls_version_from_env var)"

section \<open>Client configurations\<close>

text \<open>
  The verifier \<^verbatim>\<open>NoCertificateVerification\<close> answers every question with an assertion of validity,
  and the context is ignored.
\<close>

datatype SignatureScheme =
    RSA_PKCS1_SHA1 | ECDSA_SHA1_Legacy | RSA_PKCS1_SHA256 | ECDSA_NISTP256_SHA256 | RSA_PKCS1_SHA384
  | ECDSA_NISTP384_SHA384 | RSA_PKCS1_SHA512 | ECDSA_NISTP521_SHA512 | RSA_PSS_SHA256 | RSA_PSS_SHA384
  | RSA_PSS_SHA512 | ED25519 | ED448

definition supported_verify_schemes :: "SignatureScheme list" where
  "supported_verify_schemes =
     [RSA_PKCS1_SHA1, ECDSA_SHA1_Legacy, RSA_PKCS1_SHA256, ECDSA_NISTP256_SHA256, RSA_PKCS1_SHA384,
      ECDSA_NISTP384_SHA384, RSA_PKCS1_SHA512, ECDSA_NISTP521_SHA512, RSA_PSS_SHA256, RSA_PSS_SHA384,
      RSA_PSS_SHA512, ED25519, ED448]"

record ClientConfig =
  cc_versions :: "tls_protocol list"
  cc_verify_schemes :: "SignatureScheme list"
  cc_verify_server_cert :: "bytes \<Rightarrow> string \<Rightarrow> bool"
  cc_verify_signature :: "bytes \<Rightarrow> bytes \<Rightarrow> bool"

definition verify_server_cert :: "bytes \<Rightarrow> string \<Rightarrow> bool" where
  "verify_server_cert end_entity server_name = True"

definition verify_signature :: "bytes \<Rightarrow> bytes \<Rightarrow> bool" where
  "verify_signature message cert = True"

definition create_ssl_client_config_from_context_with_version :: "TLSVersion option \<Rightarrow> ClientConfig" where
  "create_ssl_client_config_from_context_with_version ver =
     \<lparr>cc_versions = tls_versions ver, cc_verify_schemes = supported_verify_schemes,
      cc_verify_server_cert = verify_server_cert,
      cc_verify_signature = verify_signature\<rparr>"

definition create_ssl_client_config_from_context :: "string option \<Rightarrow> ClientConfig" where
  "create_ssl_client_config_from_context var =
     create_ssl_client_config_from_context_with_version (get_tls_version_from_env var)"

text \<open>
  The two functions for debugging print the names of the default and of all suites of rustls, which
  are arguments here.
\<close>

definition list_rustls_cipher_suites :: "('cs \<Rightarrow> string) \<Rightarrow> 'cs list \<Rightarrow> string list" where
  "list_rustls_cipher_suites debug default_suites = map debug default_suites"

definition list_all_rustls_cipher_suites :: "('cs \<Rightarrow> string) \<Rightarrow> 'cs list \<Rightarrow> string list" where
  "list_all_rustls_cipher_suites debug all_suites = map debug all_suites"

text \<open>
  A client offers every scheme once, those over SHA-1 included, and believes whatever is signed with
  any of them; a suite listed by default is listed among all when the suites of rustls are so.
\<close>

lemma client_offers:
  "distinct (cc_verify_schemes (create_ssl_client_config_from_context var))"
  "set (cc_verify_schemes (create_ssl_client_config_from_context var)) = UNIV"
  "cc_verify_signature (create_ssl_client_config_from_context var) msg cert"
  "set dflt \<subseteq> set all \<Longrightarrow>
     set (list_rustls_cipher_suites debug dflt) \<subseteq> set (list_all_rustls_cipher_suites debug all)"
proof -
  show "set (cc_verify_schemes (create_ssl_client_config_from_context var)) = UNIV"
  proof (intro equalityI subsetI)
    fix x :: SignatureScheme
    show "x \<in> set (cc_verify_schemes (create_ssl_client_config_from_context var))"
      by (cases x) (simp_all add: create_ssl_client_config_from_context_def
          create_ssl_client_config_from_context_with_version_def supported_verify_schemes_def)
  qed simp
qed (auto simp: create_ssl_client_config_from_context_def create_ssl_client_config_from_context_with_version_def
    supported_verify_schemes_def verify_signature_def list_rustls_cipher_suites_def
    list_all_rustls_cipher_suites_def)

section \<open>What a server gets\<close>

text \<open>The protocol versions of rustls a setting of the environment variable enables.\<close>

lemma tls_versions_cases:
  "tls_versions (get_tls_version_from_env var) =
     (if var = Some ''1.2+'' then [Proto12, Proto13] else if var = Some ''1.3'' then [Proto13] else [Proto12])"
  by (simp add: get_tls_version_from_env_def tls_default_def)

lemma load_cert_iff:
  "load_cert env f = Inr cert \<longleftrightarrow>
     (\<exists>d. fs_read env f = Inr d \<and> read_one env d = Inr (Some (X509Certificate cert)))"
  by (auto simp: load_cert_def split: sum.splits option.splits pem_item.splits)

lemma load_key_iff:
  "load_key env f = Inr key \<longleftrightarrow>
     (\<exists>d. fs_read env f = Inr d \<and> read_one env d \<in> {Inr (Some (Pkcs8Key key)), Inr (Some (Pkcs1Key key)),
        Inr (Some (Sec1Key key))})"
  by (auto simp: load_key_def split: sum.splits option.splits pem_item.splits)

lemma load_errors:
  "fs_read env f = Inr d \<Longrightarrow> read_one env d = Inr item \<Longrightarrow> (\<And>c. item \<noteq> Some (X509Certificate c)) \<Longrightarrow>
     load_cert env f = Inl (RuntimeError ''failed to parse certificate'')"
  "fs_read env f = Inr d \<Longrightarrow> read_one env d = Inr item \<Longrightarrow>
     (\<And>k. item \<notin> {Some (Pkcs8Key k), Some (Pkcs1Key k), Some (Sec1Key k)}) \<Longrightarrow>
     load_key env f = Inl (RuntimeError ''failed to parse private key'')"
  by (auto simp: load_cert_def load_key_def split: option.splits pem_item.splits)

lemma server_config_iff:
  "create_ssl_config_from_context env var certfile keyfile = Inr cfg \<longleftrightarrow>
     sc_versions cfg = tls_versions (get_tls_version_from_env var)
     \<and> single_cert env (sc_cert cfg) (sc_key cfg) = Inr ()
     \<and> (if certfile \<noteq> None \<and> keyfile \<noteq> None
        then \<exists>cf kf. certfile = Some (Inr cf) \<and> keyfile = Some (Inr kf)
               \<and> load_cert env cf = Inr (sc_cert cfg) \<and> load_key env kf = Inr (sc_key cfg)
        else generate_self_signed env = Inr (sc_cert cfg, sc_key cfg))"
  by (cases certfile; cases keyfile)
    (auto simp: create_ssl_config_from_context_def create_ssl_config_from_context_with_version_def
      create_ssl_config_with_version_def build_config_def split: sum.splits)

text \<open>
  C26. Which TLS configurations come from a context. A server configuration is made exactly when: the
  context has both file attributes, they are strings, both files can be read, the first PEM item of
  the one is an X.509 certificate, the first item of the other a private key (PKCS8, PKCS1 or SEC1) and
  rustls finds that they fit, and then it uses these; or an attribute is missing and a self-signed
  certificate can be generated, and then it uses that one, whatever the context was loaded with. A
  file whose first item is something else is refused with its own error, that of the certificate first.
  Servers and clients alike speak TLS 1.2 and 1.3 when the environment says \<^verbatim>\<open>1.2+\<close>, 1.3 alone when it
  says \<^verbatim>\<open>1.3\<close>, and 1.2 alone in every other case; a client believes every certificate for every name.
\<close>

theorem ssl_config_from_context:
  "(create_ssl_config_from_context env var certfile keyfile = Inr cfg \<longleftrightarrow>
     sc_versions cfg = (if var = Some ''1.2+'' then [Proto12, Proto13]
                        else if var = Some ''1.3'' then [Proto13] else [Proto12])
     \<and> single_cert env (sc_cert cfg) (sc_key cfg) = Inr ()
     \<and> (if certfile \<noteq> None \<and> keyfile \<noteq> None
        then \<exists>cf kf cd kd. certfile = Some (Inr cf) \<and> keyfile = Some (Inr kf)
               \<and> fs_read env cf = Inr cd \<and> read_one env cd = Inr (Some (X509Certificate (sc_cert cfg)))
               \<and> fs_read env kf = Inr kd
               \<and> read_one env kd \<in> {Inr (Some (Pkcs8Key (sc_key cfg))), Inr (Some (Pkcs1Key (sc_key cfg))),
                                    Inr (Some (Sec1Key (sc_key cfg)))}
        else generate_self_signed env = Inr (sc_cert cfg, sc_key cfg)))
   \<and> (fs_read env cf = Inr cd \<and> read_one env cd = Inr item \<and> (\<forall>c. item \<noteq> Some (X509Certificate c)) \<longrightarrow>
        create_ssl_config_from_context env var (Some (Inr cf)) (Some (Inr kf))
          = Inl (RuntimeError ''failed to parse certificate''))
   \<and> (load_cert env cf = Inr c \<and> fs_read env kf = Inr kd \<and> read_one env kd = Inr item
        \<and> (\<forall>k. item \<notin> {Some (Pkcs8Key k), Some (Pkcs1Key k), Some (Sec1Key k)}) \<longrightarrow>
        create_ssl_config_from_context env var (Some (Inr cf)) (Some (Inr kf))
          = Inl (RuntimeError ''failed to parse private key''))
   \<and> cc_versions (create_ssl_client_config_from_context var)
        = (if var = Some ''1.2+'' then [Proto12, Proto13] else if var = Some ''1.3'' then [Proto13] else [Proto12])
   \<and> cc_verify_server_cert (create_ssl_client_config_from_context var) anycert anyname"
proof -
  note defs = create_ssl_config_from_context_def create_ssl_config_from_context_with_version_def
    create_ssl_client_config_from_context_def create_ssl_client_config_from_context_with_version_def
  have "create_ssl_config_from_context env var (Some (Inr cf)) (Some (Inr kf))
          = Inl (RuntimeError ''failed to parse certificate'')"
    if "fs_read env cf = Inr cd" "read_one env cd = Inr item" "\<forall>c. item \<noteq> Some (X509Certificate c)"
    using load_errors(1) [OF that(1,2)] that(3) by (simp add: defs)
  moreover have "create_ssl_config_from_context env var (Some (Inr cf)) (Some (Inr kf))
          = Inl (RuntimeError ''failed to parse private key'')"
    if "load_cert env cf = Inr c" "fs_read env kf = Inr kd" "read_one env kd = Inr item"
      "\<forall>k. item \<notin> {Some (Pkcs8Key k), Some (Pkcs1Key k), Some (Sec1Key k)}"
    using that(1) load_errors(2) [OF that(2,3)] that(4) by (simp add: defs)
  moreover have "cc_versions (create_ssl_client_config_from_context var) = tls_versions (get_tls_version_from_env var)"
    "cc_verify_server_cert (create_ssl_client_config_from_context var) anycert anyname"
    by (simp_all add: defs verify_server_cert_def)
  ultimately show ?thesis
    unfolding server_config_iff load_cert_iff load_key_iff tls_versions_cases [symmetric] by auto
qed

text \<open>A certificate and its key in two files, for a concrete example.\<close>

definition demo_ssl_env :: ssl_env where
  "demo_ssl_env =
     \<lparr>fs_read = (\<lambda>f. if f = ''cert.pem'' then Inr [1] else if f = ''key.pem'' then Inr [2] else Inl (OSError f)),
      read_one = (\<lambda>d. if d = [1] then Inr (Some (X509Certificate [10])) else Inr (Some (Pkcs8Key [20]))),
      generate_self_signed = Inr ([30], [40]), single_cert = (\<lambda>_ _. Inr ())\<rparr>"

theorem ssl_config_from_context_witness:
  "create_ssl_config_from_context demo_ssl_env (Some ''1.3'') (Some (Inr ''cert.pem'')) (Some (Inr ''key.pem''))
     = Inr \<lparr>sc_versions = [Proto13], sc_cert = [10], sc_key = [20]\<rparr>
   \<and> create_ssl_config_from_context demo_ssl_env None (Some (Inr ''key.pem'')) (Some (Inr ''cert.pem''))
     = Inl (RuntimeError ''failed to parse certificate'')
   \<and> create_ssl_config_from_context demo_ssl_env None (Some (Inr ''cert.pem'')) (Some (Inr ''cert.pem''))
     = Inl (RuntimeError ''failed to parse private key'')
   \<and> create_ssl_config_from_context demo_ssl_env None None (Some (Inr ''key.pem''))
     = Inr \<lparr>sc_versions = [Proto12], sc_cert = [30], sc_key = [40]\<rparr>"
  using ssl_config_from_context [THEN conjunct1, of demo_ssl_env "Some ''1.3''" "Some (Inr ''cert.pem'')" "Some (Inr ''key.pem'')"
      "\<lparr>sc_versions = [Proto13], sc_cert = [10], sc_key = [20]\<rparr>"]
    ssl_config_from_context [THEN conjunct1, of demo_ssl_env None None "Some (Inr ''key.pem'')"
      "\<lparr>sc_versions = [Proto12], sc_cert = [30], sc_key = [40]\<rparr>"]
    ssl_config_from_context [THEN conjunct2, THEN conjunct1, of demo_ssl_env "''key.pem''" "[2]" "Some (Pkcs8Key [20])" None "''cert.pem''"]
    ssl_config_from_context [THEN conjunct2, THEN conjunct2, THEN conjunct1, of demo_ssl_env "''cert.pem''" "[10]"
      "''cert.pem''" "[1]" "Some (X509Certificate [10])" None]
  by (simp add: demo_ssl_env_def load_cert_iff)

end
