(* ===== verification/Spec2Isabelle.thy ===== *)
theory Spec2Isabelle
  imports Scheduler_Spec Tcp_Session System_Glue Tokio_Timers Tokio_Signals Tokio_Sockets Tokio_Extra_Info Ssl_Config
begin

text \<open>
  A model of the Rust crate of \<^verbatim>\<open>rloop\<close>, an asyncio event loop, with the theorems that say what
  its parts do. File names are those under \<^verbatim>\<open>src/src/\<close>.

  \<^bold>\<open>The program.\<close> The crate holds two event loops. \<^verbatim>\<open>EventLoop\<close> (\<^verbatim>\<open>event_loop.rs\<close>) is single
  threaded and sits on a mio poller: Python code and other threads queue callbacks and timers; a step
  sleeps in the poller, turns its events into handles, adds the ready callbacks and the due timers and
  runs the batch. Descriptors are registered for readers and writers of Python code, for TCP streams
  and listeners (\<^verbatim>\<open>tcp.rs\<close>, \<^verbatim>\<open>server.rs\<close>) and for UDP sockets (\<^verbatim>\<open>udp.rs\<close>); the transports buffer
  writes, pause and resume their protocol and close in stages; TLS goes through rustls.
  \<^verbatim>\<open>TEventLoop\<close> (\<^verbatim>\<open>tokio_event_loop.rs\<close>, \<^verbatim>\<open>tokio_handles.rs\<close>) runs on a tokio runtime: callbacks go
  over a channel to one task, and every TCP connection (\<^verbatim>\<open>tokio_tcp.rs\<close>) and every listener has a
  task of its own.

  \<^bold>\<open>The theories\<close>, each importing the ones it calls.
  \<^item> \<open>Rloop_Prelude\<close>: outcomes of functions that may panic or block for ever, \<^verbatim>\<open>usize\<close> arithmetic, bytes, lists, and
    the interface of a step relation to the properties of its runs (\<open>step_system\<close>), and the weakest
    preconditions \<open>holds\<close> with the collection \<open>wp\<close> of their rules.
  \<^item> \<open>Timer_Heap\<close>: \<^verbatim>\<open>time.rs\<close>, \<^verbatim>\<open>TokioTimer\<close>, the binary heap of the standard library as an array,
    and the two loops that drain due timers. The locale \<open>heap_order\<close> holds the heap's laws for any
    order and is interpreted on both.
  \<^item> \<open>Loop_State\<close>: the data of the mio loop as one record \<open>world\<close> with explicit objects, and the code
    outside (\<open>ext\<close>): Python and rustls are parameters.
  \<^item> \<open>Io_Registry\<close>: the table of descriptors (\<^verbatim>\<open>handles_io\<close>) against what the loop asked of mio, which is
    read off the trace of registry calls (\<open>requested\<close>). The code drops mio's answers, so what the
    poller really watches depends on them (\<open>poller\<close>). The locale \<open>io_source\<close> is interpreted on TCP streams and UDP sockets.
  \<^item> \<open>Scheduling\<close>: \<^verbatim>\<open>handles.rs\<close>, \<^verbatim>\<open>log.rs\<close> and every operation that queues a callback or a timer;
    the locale \<open>enqueue\<close>.
  \<^item> \<open>Tcp_Transport\<close>, \<open>Tcp_Handles\<close>, \<open>Tcp_Server\<close>: \<^verbatim>\<open>tcp.rs\<close> and the mio half of \<^verbatim>\<open>server.rs\<close>: the
    methods of a transport, the handles run when its descriptor is ready, listeners and servers.
  \<^item> \<open>Udp_Transport\<close>: \<^verbatim>\<open>udp.rs\<close>.
  \<^item> \<open>Event_Loop\<close>: dispatch of events, a step, the run loop, the constructors of connections.
  \<^item> \<open>Scheduler_Spec\<close>: the abstract scheduler and its refinement; a whole step.
  \<^item> \<open>Loop_Attributes\<close>: the attributes of \<^verbatim>\<open>EventLoop\<close> that Python reads and writes; the locale
    \<open>loop_attribute\<close> has the laws of a variable and is interpreted on each of them.
  \<^item> \<open>Loop_Ops\<close>: all operations of the mio loop as one relation \<open>loop_op\<close>, Python code that uses the loop
    only through them (\<open>api_python\<close>, nested to any depth), and the locale \<open>op_inv\<close>: an invariant that
    survives the elementary changes of the state is kept by every operation, handle and step.
  \<^item> \<open>Loop_Invariant\<close>: the invariant of the whole loop (\<open>loop_inv\<close>), what no operation takes back
    (\<open>world_evolves\<close>), the interpretation of \<open>op_inv\<close> that establishes both, that collecting a
    batch never panics, and when it blocks, and how a run ends.
  \<^item> \<open>Tcp_Session\<close>: the composition of these for one connection: sessions of calls and readiness events
    as a refinement of two byte streams (the locale \<open>budgeted_refinement\<close>, interpreted on the
    transport), the steps of the loop that are such events, and the life of a connection to its close.
  \<^item> \<open>Python_Glue\<close>: timer handles, the reading methods of the mio transports, the context macros of
    \<^verbatim>\<open>py.rs\<close>, the dictionaries of \<^verbatim>\<open>log.rs\<close>, the version of \<^verbatim>\<open>lib.rs\<close>.
  \<^item> \<open>System_Glue\<close>: system calls (\<^verbatim>\<open>utils.rs\<close>), the sources registered with mio (\<^verbatim>\<open>io.rs\<close>), the modules
    imported once (\<^verbatim>\<open>py.rs\<close>; the locale \<open>cached\<close> has the contract of their locks and is interpreted on
    all four), the socket of a transport (\<^verbatim>\<open>sock.rs\<close>), the names of the extension module (\<^verbatim>\<open>lib.rs\<close>).
  \<^item> \<open>Tokio_Loop\<close>, \<open>Tokio_Tcp\<close>, \<open>Tokio_Server\<close>, \<open>Tokio_Extra_Info\<close>: the tokio half: the loop and the
    task of \<^verbatim>\<open>_run\<close>, connections, listeners. \<open>Tokio_Timers\<close>: its timer handles.
  \<^item> \<open>Tokio_Signals\<close>: the runtime, the attributes, and the task that reads the signal socket with the
    socket and the select loop (\<open>sig_step\<close>).
  \<^item> \<open>Tokio_Sockets\<close>: the conversion of descriptors, who owns them, and the UDP stub (\<^verbatim>\<open>tokio_udp.rs\<close>).
  \<^item> \<open>Ssl_Config\<close>: \<^verbatim>\<open>ssl.rs\<close>.

  \<^bold>\<open>How code becomes definitions.\<close> A method is a function from the state to its result and the new
  state; a Rust function that may panic returns \<open>Ret\<close> or \<open>Panic\<close>, and since the release profile
  aborts on panics nothing follows one. \<open>Blocked\<close> is the outcome of a call that never returns: a poll
  without limit and without an event, and a second lock of the poller's mutex by a protocol factory
  (where the standard library may also panic). Python exceptions are \<open>Inl\<close> of a sum. Calls into Python, into
  the poller and into sockets are entries of a trace; what Python does is a function argument, and
  theorems state what they assume of it (that it leaves a transport alone, that it uses the loop
  through its methods). What the kernel answers is an argument: one answer, or a list of answers
  consumed by a loop, so that those loops end by structural recursion; the loops over heaps and over
  received data are \<open>function\<close>s with a measure. There is one fuel, in \<open>tls_read_all\<close>: one more than the
  number of plaintext bytes rustls holds, and each turn of that loop takes at least one. \<open>RefCell\<close>
  borrows are modelled by a flag, because some paths borrow twice. Byte counts are \<^verbatim>\<open>usize\<close>, with the
  wrap-around written out. Clocks are natural numbers of the unit the code uses.
  In the tokio half the task of \<^verbatim>\<open>_run\<close> (\<open>t_step\<close>), the task of a connection (\<open>k_step\<close>) and the accept
  loops (\<open>sv_step\<close>) are inductive step relations, and the theorems hold of every run. They interleave
  with the methods other threads call: those of the loop (\<open>t_api\<close>) as whole calls, which share only the
  channels, a concurrent map and single flags; those of a connection (\<open>k_api\<close>) access by access, because they check
  a flag first and take the lock later.
  A select is a choice among its enabled branches; a branch with an \<^verbatim>\<open>await\<close> in it can be dropped
  half way.

  \<^bold>\<open>What is shown.\<close> Every state that operations and Python code using them can reach from a new loop
  satisfies the invariant, in which the table of descriptors agrees with the last request made of the
  poller; flags and histories only move forward; a cancelled timer never runs; collecting a batch never
  panics, and returns one unless a protocol factory locks the poller again. The queues of the mio loop
  refine a list of callbacks and a bag of timers, and a step whose poll returns runs every callback that
  is ready or due, in order, once. A write loses, repeats and reorders no byte, whatever part of it the
  kernel accepts; flow control follows the water marks; reading delivers the stream in order and once;
  close waits for the buffer. For a whole connection without TLS and with an unbuffered protocol whose
  callbacks leave the transport alone, through any session in which the kernel reports no error, the
  protocol gets what was read and the kernel all that was written, before the connection is reported
  lost. Listeners attach every stream they accept and abort all of them. In the tokio loop every task is
  accounted for, immediate tasks keep their order, timers never run early; signal bytes reach the select
  loop in order and once; of every connection each accepted byte is sent, lost at a known place, in
  flight or buffered, and the protocol sees data, end and loss in that order.
  Theorems also pin down where the code departs from what it means to do: an overdue timer makes
  the poll unlimited; the writable half of an event is dropped; a second callback on a descriptor is
  never polled; failed writes panic or go unreported; TLS and tokio writes lose data under
  backpressure; tokio timers are lost when a run ends; overlapping calls on
  a tokio connection leave it paused, or push data after the shutdown; the signal task cannot see its socket close;
  a context's certificate is ignored.

  \<^bold>\<open>Not modelled.\<close> Logging; the interpreter, pyo3, mio, rustls and tokio themselves, which are parameters
  with the behaviour a theorem needs as a named hypothesis; what the builder of the tokio runtime does;
  the rounding of the \<^verbatim>\<open>when\<close> of timer handles to a float; memory orderings weaker than sequential
  consistency; poisoned locks, since a panic aborts; the locks of
  the exception handlers, held while a handler runs; on a build without the interpreter lock, the window
  between a step's look at the ready counter and its idle flag, in which a handle queued by another
  thread wakes nobody; \<^verbatim>\<open>get_ssl_config\<close> of a server, which nothing calls;
  the parts of files compiled for Windows or PyPy only; \<^verbatim>\<open>build.rs\<close>; the Python package.
\<close>

end
